(* ===== verification/Prelude.thy ===== *)
theory Prelude
  imports Main "HOL-Library.Word" "HOL-Library.List_Lexorder"
begin

text \<open>
  Shared vocabulary of the development: the machine integers of the C code, byte
  buffers as lists with the few \<open>memcpy\<close>-like operations the code uses, big-endian
  16- and 32-bit fields, XOR check bytes, and the lemma collections the component
  theories extend.
\<close>

unbundle bit_operations_syntax

named_theorems wire_simps \<open>reading and writing fixed offsets of a byte buffer\<close>
named_theorems keeps_inv \<open>an operation preserves its component's invariant\<close>
named_theorems frame_simps \<open>fields an operation leaves unchanged\<close>

section \<open>Machine integers\<close>

type_synonym byte = "8 word"
type_synonym u16 = "16 word"
type_synonym u32 = "32 word"

text \<open>
  \<open>be32\<close> and \<open>be16\<close> of \<open>userbin.c\<close>; \<open>protocol.c\<close> and \<open>net.c\<close> spell
  the same expressions inline.
\<close>

definition be32 :: "byte list \<Rightarrow> u32" where
  "be32 p = push_bit 24 (ucast (p ! 0)) OR push_bit 16 (ucast (p ! 1))
            OR push_bit 8 (ucast (p ! 2)) OR ucast (p ! 3)"

definition be16 :: "byte list \<Rightarrow> u16" where
  "be16 p = push_bit 8 (ucast (p ! 0)) OR ucast (p ! 1)"

text \<open>The stores \<open>(uint8_t)(v >> 24), (uint8_t)(v >> 16), ...\<close>\<close>

definition put32 :: "u32 \<Rightarrow> byte list" where
  "put32 v = [ucast (drop_bit 24 v), ucast (drop_bit 16 v), ucast (drop_bit 8 v), ucast v]"

definition put16 :: "u16 \<Rightarrow> byte list" where
  "put16 v = [ucast (drop_bit 8 v), ucast v]"

lemma length_put32 [simp]: "length (put32 v) = 4"
  by (simp add: put32_def)

lemma length_put16 [simp]: "length (put16 v) = 2"
  by (simp add: put16_def)

lemma be16_put16 [simp]: "be16 [ucast (drop_bit 8 v), ucast v] = v"
  by (rule bit_word_eqI) (auto simp: be16_def bit_simps)

lemma be32_put32 [simp]:
  "be32 [ucast (drop_bit 24 v), ucast (drop_bit 16 v), ucast (drop_bit 8 v), ucast v] = v"
proof (rule bit_word_eqI)
  fix n
  assume n: "n < LENGTH(32)"
  consider "n < 8" | "8 \<le> n" "n < 16" | "16 \<le> n" "n < 24" | "24 \<le> n" by linarith
  then show "bit (be32 [ucast (drop_bit 24 v), ucast (drop_bit 16 v), ucast (drop_bit 8 v), ucast v]) n
    \<longleftrightarrow> bit v n"
    by cases (use n in \<open>auto simp: be32_def bit_simps\<close>)
qed

lemma be16_of_put16 [simp]: "be16 (put16 v) = v"
  by (simp add: put16_def)

lemma be32_of_put32 [simp]: "be32 (put32 v) = v"
  by (simp add: put32_def)

lemma put16_of_be16: "length p = 2 \<Longrightarrow> put16 (be16 p) = p"
proof -
  assume "length p = 2"
  then obtain a b where p: "p = [a, b]"
    by (auto simp: length_Suc_conv numeral_2_eq_2)
  have "ucast (drop_bit 8 (be16 [a, b])) = a" "ucast (be16 [a, b]) = b"
    by (rule bit_word_eqI; auto simp: be16_def bit_simps dest: bit_imp_le_length)+
  then show ?thesis by (simp add: p put16_def)
qed

lemma put32_of_be32: "length p = 4 \<Longrightarrow> put32 (be32 p) = p"
proof -
  assume "length p = 4"
  then obtain a b c d where p: "p = [a, b, c, d]"
    by (auto simp: length_Suc_conv numeral_eq_Suc)
  have "ucast (drop_bit 24 (be32 [a, b, c, d])) = a" "ucast (drop_bit 16 (be32 [a, b, c, d])) = b"
    "ucast (drop_bit 8 (be32 [a, b, c, d])) = c" "ucast (be32 [a, b, c, d]) = d"
    by (rule bit_word_eqI; auto simp: be32_def bit_simps dest: bit_imp_le_length)+
  then show ?thesis by (simp add: p put32_def)
qed

lemma unat_byte_bound: "unat (b :: byte) < 256"
  using unsigned_less [of b] by simp

lemma unat_u16_bound: "unat (v :: u16) < 65536"
  using unsigned_less [of v] by simp

lemma unat_u32_bound: "unat (v :: u32) < 4294967296"
  using unsigned_less [of v] by simp

lemma unat_of_nat_u16: "n < 65536 \<Longrightarrow> unat (of_nat n :: u16) = n"
  by (simp add: unat_of_nat)

lemma unat_of_nat_u32: "n < 2 ^ 32 \<Longrightarrow> unat (of_nat n :: u32) = n"
  by (simp add: unat_of_nat)

lemma of_nat_u32_eq_0: "n < 2 ^ 32 \<Longrightarrow> (of_nat n = (0 :: u32)) = (n = 0)"
  by (subst unat_eq_0 [symmetric], subst unat_of_nat_u32) simp_all

section \<open>Byte buffers\<close>

text \<open>
  \<open>slice off n buf\<close> is what \<open>memcpy(dst, buf + off, n)\<close> copies out;
  \<open>blit off src buf\<close> is \<open>buf\<close> after \<open>memcpy(buf + off, src, length src)\<close>.
\<close>

definition slice :: "nat \<Rightarrow> nat \<Rightarrow> 'a list \<Rightarrow> 'a list" where
  "slice off n buf = take n (drop off buf)"

definition blit :: "nat \<Rightarrow> 'a list \<Rightarrow> 'a list \<Rightarrow> 'a list" where
  "blit off src buf = take off buf @ src @ drop (off + length src) buf"

definition zeros :: "nat \<Rightarrow> byte list" where
  "zeros n = replicate n 0"

lemma length_zeros [simp]: "length (zeros n) = n"
  by (simp add: zeros_def)

lemma zeros_0 [simp]: "zeros 0 = []"
  by (simp add: zeros_def)

lemma nth_zeros [simp]: "i < n \<Longrightarrow> zeros n ! i = 0"
  by (simp add: zeros_def)

lemma take_zeros [simp]: "take k (zeros n) = zeros (min k n)"
  by (simp add: zeros_def)

lemma drop_zeros [simp]: "drop k (zeros n) = zeros (n - k)"
  by (simp add: zeros_def)

lemma length_slice [simp]: "off + n \<le> length buf \<Longrightarrow> length (slice off n buf) = n"
  by (simp add: slice_def)

lemma length_slice_le: "length (slice off n buf) \<le> n"
  by (simp add: slice_def)

lemma nth_slice: "i < n \<Longrightarrow> off + n \<le> length buf \<Longrightarrow> slice off n buf ! i = buf ! (off + i)"
  by (simp add: slice_def)

lemma length_blit [simp]: "off + length src \<le> length buf \<Longrightarrow> length (blit off src buf) = length buf"
  by (simp add: blit_def)

lemma slice_blit_same:
  "off + length src \<le> length buf \<Longrightarrow> n = length src \<Longrightarrow> slice off n (blit off src buf) = src"
  by (simp add: slice_def blit_def)

lemma slice_take: "off + n \<le> k \<Longrightarrow> slice off n (take k buf) = slice off n buf"
  by (simp add: slice_def drop_take min_def)

lemma slice_append_left: "off + n \<le> length xs \<Longrightarrow> slice off n (xs @ ys) = slice off n xs"
  by (simp add: slice_def)

lemma slice_append_right:
  "length xs \<le> off \<Longrightarrow> slice off n (xs @ ys) = slice (off - length xs) n ys"
  by (simp add: slice_def)

text \<open>Reading a BLOB column into a fixed buffer: cut or zero-padded to the buffer's size.\<close>

definition blob_fixed :: "nat \<Rightarrow> byte list \<Rightarrow> byte list" where
  "blob_fixed n b = take n b @ zeros (n - length b)"

lemma length_blob_fixed [simp]: "length (blob_fixed n b) = n"
  by (simp add: blob_fixed_def min_def)

lemma blob_fixed_exact [simp]: "length b = n \<Longrightarrow> blob_fixed n b = b"
  by (simp add: blob_fixed_def zeros_def)

section \<open>XOR check bytes\<close>

definition xor_bytes :: "byte list \<Rightarrow> byte" where
  "xor_bytes bs = foldl (\<lambda>c b. c XOR b) 0 bs"

lemma xor_foldl: "foldl (\<lambda>c b. c XOR b) (a :: byte) bs = a XOR foldl (\<lambda>c b. c XOR b) 0 bs"
proof (induction bs arbitrary: a)
  case Nil
  then show ?case by simp
next
  case (Cons b bs)
  from Cons [of "a XOR b"] Cons [of b] show ?case by (simp add: xor.assoc)
qed

lemma xor_bytes_Nil [simp]: "xor_bytes [] = 0"
  by (simp add: xor_bytes_def)

lemma xor_bytes_Cons [simp]: "xor_bytes (b # bs) = b XOR xor_bytes bs"
  using xor_foldl [of b bs] by (simp add: xor_bytes_def)

lemma xor_bytes_append: "xor_bytes (xs @ ys) = xor_bytes xs XOR xor_bytes ys"
  by (induction xs) (simp_all add: xor.assoc)

lemma xor_bytes_update:
  "i < length bs \<Longrightarrow> xor_bytes (bs[i := b]) = xor_bytes bs XOR (bs ! i) XOR b"
proof (induction bs arbitrary: i)
  case Nil
  then show ?case by simp
next
  case (Cons c bs)
  then show ?case
    by (cases i) (simp_all add: ac_simps)
qed

lemma xor_byte_cancel: "(a :: byte) XOR x XOR b = a \<longleftrightarrow> x = b"
  by (auto simp: bit_eq_iff bit_simps)

lemma xor_bytes_zeros [simp]: "xor_bytes (zeros n) = 0"
  by (induction n) (simp_all add: zeros_def)

text \<open>Changing one covered byte always changes the check byte.\<close>

lemma xor_bytes_detects:
  "i < length bs \<Longrightarrow> b \<noteq> bs ! i \<Longrightarrow> xor_bytes (bs[i := b]) \<noteq> xor_bytes bs"
  by (simp add: xor_bytes_update xor_byte_cancel)

section \<open>Lists and options\<close>

lemma last_take_nth:
  "0 < n \<Longrightarrow> n \<le> length xs \<Longrightarrow> last (take n xs) = xs ! (n - 1)"
  by (subst last_conv_nth) (auto simp: min_def)

lemma filter_greater_sorted:
  fixes f :: "'a \<Rightarrow> 'b :: linorder"
  assumes "sorted_wrt (\<lambda>a b. f a < f b) xs" "n < length xs"
  shows "filter (\<lambda>x. f (xs ! n) < f x) xs = drop (Suc n) xs"
  using assms
proof (induction xs arbitrary: n)
  case Nil
  then show ?case by simp
next
  case (Cons a xs)
  show ?case
  proof (cases n)
    case 0
    from Cons.prems(1) have "\<forall>x \<in> set xs. f a < f x" by simp
    then have "filter (\<lambda>x. f a < f x) xs = xs" by (simp add: filter_id_conv)
    with 0 show ?thesis by simp
  next
    case (Suc m)
    with Cons.prems have m: "m < length xs" and s: "sorted_wrt (\<lambda>a b. f a < f b) xs"
      and "f a < f (xs ! m)" by simp_all
    then have "\<not> f (xs ! m) < f a" by simp
    with Cons.IH [OF s m] Suc show ?thesis by simp
  qed
qed

lemma filter_ge_sorted:
  fixes f :: "'a \<Rightarrow> nat"
  assumes "sorted_wrt (\<lambda>a b. f a < f b) xs" "n < length xs"
  shows "filter (\<lambda>x. f (xs ! n) \<le> f x) xs = drop n xs"
  using assms
proof (induction xs arbitrary: n)
  case Nil
  then show ?case by simp
next
  case (Cons a xs)
  show ?case
  proof (cases n)
    case 0
    from Cons.prems(1) have "\<forall>x \<in> set xs. f a \<le> f x" by (auto intro: less_imp_le)
    then have "filter (\<lambda>x. f a \<le> f x) xs = xs" by (simp add: filter_id_conv)
    with 0 show ?thesis by simp
  next
    case (Suc m)
    with Cons.prems have m: "m < length xs" and s: "sorted_wrt (\<lambda>a b. f a < f b) xs"
      and "f a < f (xs ! m)" by simp_all
    then have "\<not> f (xs ! m) \<le> f a" by simp
    with Cons.IH [OF s m] Suc show ?thesis by simp
  qed
qed

lemma take_upt_min: "take n [0..<c] = [0..<min c n]"
  by (cases "n \<le> c") (auto simp: min_def)

lemma dropWhile_sorted_filter:
  fixes f :: "'a \<Rightarrow> nat"
  assumes "sorted_wrt (\<lambda>a b. f a < f b) xs"
  shows "dropWhile (\<lambda>x. f x \<le> v) xs = filter (\<lambda>x. v < f x) xs"
  using assms
proof (induction xs)
  case Nil
  then show ?case by simp
next
  case (Cons a xs)
  then have "f a > v \<Longrightarrow> filter (\<lambda>x. v < f x) xs = xs" by (auto simp: filter_id_conv)
  with Cons show ?case by auto
qed

text \<open>A table keyed by \<open>k\<close>: replacing and deleting a row, read as a map.\<close>

lemma map_of_replace:
  "k y = a \<Longrightarrow> map_of (map (\<lambda>x. (k x, v x)) (filter (\<lambda>x. k x \<noteq> a) xs @ [y]))
     = (map_of (map (\<lambda>x. (k x, v x)) xs))(a \<mapsto> v y)"
  by (induction xs) (auto simp: fun_eq_iff)

lemma map_of_delete:
  "map_of (map (\<lambda>x. (k x, v x)) (filter (\<lambda>x. k x \<noteq> a) xs)) = (map_of (map (\<lambda>x. (k x, v x)) xs))(a := None)"
  by (induction xs) (auto simp: fun_eq_iff)

lemma map_of_filter_val:
  "distinct (map k xs) \<Longrightarrow> map_of (map (\<lambda>x. (k x, v x)) (filter (\<lambda>x. v x \<noteq> b) xs)) a
     = (case map_of (map (\<lambda>x. (k x, v x)) xs) a of None \<Rightarrow> None | Some w \<Rightarrow> if w = b then None else Some w)"
proof (induction xs)
  case Nil
  then show ?case by simp
next
  case (Cons x xs)
  then have "k x = a \<Longrightarrow> map_of (map (\<lambda>x. (k x, v x)) xs) a = None"
    by (auto simp: map_of_eq_None_iff)
  with Cons show ?case by auto
qed

lemma filter_key_map_of:
  "filter (\<lambda>x. k x = a) xs = [] \<longleftrightarrow> map_of (map (\<lambda>x. (k x, v x)) xs) a = None"
  "filter (\<lambda>x. k x = a) xs = y # ys \<Longrightarrow> map_of (map (\<lambda>x. (k x, v x)) xs) a = Some (v y)"
  by (induction xs) (auto split: if_splits)

lemma distinct_replace:
  "distinct (map k xs) \<Longrightarrow> distinct (map k (filter (\<lambda>x. k x \<noteq> k y) xs @ [y]))"
  by (auto simp: distinct_map intro: inj_on_subset)

lemma map_of_same_set:
  assumes "set xs = set ys" "\<And>k v w. (k, v) \<in> set ys \<Longrightarrow> (k, w) \<in> set ys \<Longrightarrow> v = w"
  shows "map_of xs = map_of ys"
proof
  fix k
  show "map_of xs k = map_of ys k"
  proof (cases "map_of ys k")
    case None
    then have "map_of xs k = None" using assms(1) by (simp add: map_of_eq_None_iff)
    then show ?thesis using None by simp
  next
    case (Some v)
    then have v: "(k, v) \<in> set xs" using assms(1) by (auto dest: map_of_SomeD)
    then obtain w where w: "map_of xs k = Some w" by (metis weak_map_of_SomeI)
    then have "(k, w) \<in> set ys" using assms(1) by (auto dest: map_of_SomeD)
    then show ?thesis using assms v w Some by metis
  qed
qed

section \<open>Ring buffers\<close>

text \<open>Slots of a ring that lie before the next free one are different from it.\<close>

lemma ring_slot_fresh:
  assumes "i < c" "c < (m :: nat)"
  shows "(h + i) mod m \<noteq> (h + c) mod m"
proof
  assume "(h + i) mod m = (h + c) mod m"
  then have "m dvd (h + c) - (h + i)" using assms by (metis add_le_cancel_left less_imp_le mod_eq_dvd_iff_nat)
  then show False using assms by (auto dest: dvd_imp_le)
qed

text \<open>The \<open>n\<close> items from position \<open>h\<close> on.\<close>

definition ring_items :: "'a list \<Rightarrow> nat \<Rightarrow> nat \<Rightarrow> 'a list" where
  "ring_items xs h n = map (\<lambda>i. xs ! ((h + i) mod length xs)) [0..<n]"

lemma length_ring_items [simp]: "length (ring_items xs h n) = n"
  by (simp add: ring_items_def)

lemma ring_items_0 [simp]: "ring_items xs h 0 = []"
  by (simp add: ring_items_def)

lemma ring_items_push:
  assumes "n < length xs"
  shows "ring_items (xs[(h + n) mod length xs := x]) h (Suc n) = ring_items xs h n @ [x]"
proof -
  have "(h + n) mod length xs \<noteq> (h + i) mod length xs" if "i < n" for i
    using ring_slot_fresh [OF that assms] by (rule not_sym)
  moreover have "(h + n) mod length xs < length xs" by (rule mod_less_divisor) (use assms in linarith)
  ultimately show ?thesis by (auto simp: ring_items_def)
qed

lemma ring_items_pop:
  assumes "h < length xs"
  shows "ring_items xs h (Suc n) = xs ! h # ring_items xs ((h + 1) mod length xs) n"
proof -
  have "[0..<Suc n] = 0 # map Suc [0..<n]" by (simp add: upt_conv_Cons map_Suc_upt del: upt_Suc)
  then show ?thesis using assms by (simp add: ring_items_def o_def mod_simps del: upt_Suc)
qed

lemma ring_items_set: "h < length xs \<Longrightarrow> set (ring_items xs h n) \<subseteq> set xs"
  by (cases "length xs") (auto simp: ring_items_def intro!: nth_mem mod_less_divisor)

end
