(* ===== verification/Protocol.thy ===== *)
theory Protocol
  imports Prelude
begin

text \<open>
  The IDTi V2 frame (\<open>acud/protocol.h\<close>, \<open>acud/protocol.c\<close>): the constants the daemon
  uses, the parsed header, \<open>idti_header_parse\<close>, \<open>idti_build_packet\<close> and the BCD
  conversions. The lemmas show that the builder's output is accepted by the parser with
  every field intact, that the parser never promises data beyond the 16-bit length field,
  and that a single corrupted header byte is always refused.
\<close>

section \<open>Constants of protocol.h\<close>

abbreviation (input) IDTI_STX :: byte where "IDTI_STX \<equiv> 0x02"
abbreviation (input) IDTI_ETX :: byte where "IDTI_ETX \<equiv> 0x03"
abbreviation (input) IDTI_PACKET_CHECKSUM_FIXED :: byte where "IDTI_PACKET_CHECKSUM_FIXED \<equiv> 0x08"
abbreviation (input) IDTI_PROTOCOL_VERSION_V2 :: byte where "IDTI_PROTOCOL_VERSION_V2 \<equiv> 2"
abbreviation (input) IDTI_HEADER_LEN_V2 :: nat where "IDTI_HEADER_LEN_V2 \<equiv> 44"
abbreviation (input) IDTI_ADDR_DEST_LEN :: nat where "IDTI_ADDR_DEST_LEN \<equiv> 8"
abbreviation (input) IDTI_ADDR_SRC_LEN :: nat where "IDTI_ADDR_SRC_LEN \<equiv> 5"

abbreviation (input) IDTI_FOPT_REQUEST_ACK :: u16 where "IDTI_FOPT_REQUEST_ACK \<equiv> 0x8000"
abbreviation (input) IDTI_FOPT_BLOCKING :: u16 where "IDTI_FOPT_BLOCKING \<equiv> 0x0800"
abbreviation (input) IDTI_FOPT_EXCLUDE_DEVICE_STATUS :: u16 where
  "IDTI_FOPT_EXCLUDE_DEVICE_STATUS \<equiv> 0x0080"
abbreviation (input) IDTI_FOPT_TIME_SYNC :: u16 where "IDTI_FOPT_TIME_SYNC \<equiv> 0x0040"
abbreviation (input) IDTI_FOPT_RE_REQUEST_EVENT :: u16 where "IDTI_FOPT_RE_REQUEST_EVENT \<equiv> 0x0020"
abbreviation (input) IDTI_FOPT_CHECK_PACKET :: u16 where "IDTI_FOPT_CHECK_PACKET \<equiv> 0x0010"
abbreviation (input) IDTI_FOPT_TCP :: u16 where "IDTI_FOPT_TCP \<equiv> 0x0001"

abbreviation (input) IDTI_CMD_SND_STATUS :: byte where "IDTI_CMD_SND_STATUS \<equiv> 0x03"
abbreviation (input) IDTI_CMD_REQ_STATUS :: byte where "IDTI_CMD_REQ_STATUS \<equiv> 0x04"
abbreviation (input) IDTI_CMD_SND_DATA :: byte where "IDTI_CMD_SND_DATA \<equiv> 0x05"
abbreviation (input) IDTI_CMD_REQ_DATA :: byte where "IDTI_CMD_REQ_DATA \<equiv> 0x06"

abbreviation (input) IDTI_SUBCMD_READ :: byte where "IDTI_SUBCMD_READ \<equiv> 0x02"
abbreviation (input) IDTI_SUBCMD_WRITE :: byte where "IDTI_SUBCMD_WRITE \<equiv> 0x03"
abbreviation (input) IDTI_SUBCMD_DELETE :: byte where "IDTI_SUBCMD_DELETE \<equiv> 0x04"
abbreviation (input) IDTI_SUBCMD_CHANGE :: byte where "IDTI_SUBCMD_CHANGE \<equiv> 0x05"
abbreviation (input) IDTI_SUBCMD_INIT :: byte where "IDTI_SUBCMD_INIT \<equiv> 0x06"

abbreviation (input) IDTI_OBJ_HISTORY :: byte where "IDTI_OBJ_HISTORY \<equiv> 0x01"
abbreviation (input) IDTI_OBJ_HISTORY_COUNT :: byte where "IDTI_OBJ_HISTORY_COUNT \<equiv> 0x05"
abbreviation (input) IDTI_OBJ_HISTORY_INDEX :: byte where "IDTI_OBJ_HISTORY_INDEX \<equiv> 0x06"
abbreviation (input) IDTI_OBJ_FIRMWARE :: byte where "IDTI_OBJ_FIRMWARE \<equiv> 0x2A"
abbreviation (input) IDTI_OBJ_LCD_CONTROL :: byte where "IDTI_OBJ_LCD_CONTROL \<equiv> 0x31"
abbreviation (input) IDTI_OBJ_MULTI_LANGUAGE :: byte where "IDTI_OBJ_MULTI_LANGUAGE \<equiv> 0xA5"
abbreviation (input) IDTI_OBJ_FORCE_OPEN :: byte where "IDTI_OBJ_FORCE_OPEN \<equiv> 0xCE"
abbreviation (input) IDTI_OBJ_DEVICE :: byte where "IDTI_OBJ_DEVICE \<equiv> 0x29"
abbreviation (input) IDTI_OBJ_CONTROLLER :: byte where "IDTI_OBJ_CONTROLLER \<equiv> 0x2B"
abbreviation (input) IDTI_OBJ_INPUT :: byte where "IDTI_OBJ_INPUT \<equiv> 0x2C"
abbreviation (input) IDTI_OBJ_OUTPUT :: byte where "IDTI_OBJ_OUTPUT \<equiv> 0x2D"
abbreviation (input) IDTI_OBJ_CARD_READER :: byte where "IDTI_OBJ_CARD_READER \<equiv> 0x2F"
abbreviation (input) IDTI_OBJ_ALARM :: byte where "IDTI_OBJ_ALARM \<equiv> 0x51"
abbreviation (input) IDTI_OBJ_ALARM_BELL_SCH :: byte where "IDTI_OBJ_ALARM_BELL_SCH \<equiv> 0x52"
abbreviation (input) IDTI_OBJ_OPMODE_SCH :: byte where "IDTI_OBJ_OPMODE_SCH \<equiv> 0x53"
abbreviation (input) IDTI_OBJ_DOORMODE_SCH :: byte where "IDTI_OBJ_DOORMODE_SCH \<equiv> 0x54"

abbreviation (input) IDTI_OBJ_USER_ALL :: byte where "IDTI_OBJ_USER_ALL \<equiv> 0x15"
abbreviation (input) IDTI_OBJ_USER_INFO :: byte where "IDTI_OBJ_USER_INFO \<equiv> 0x16"
abbreviation (input) IDTI_OBJ_USER_CARD :: byte where "IDTI_OBJ_USER_CARD \<equiv> 0x17"
abbreviation (input) IDTI_OBJ_USER_FINGER :: byte where "IDTI_OBJ_USER_FINGER \<equiv> 0x18"
abbreviation (input) IDTI_OBJ_USER_RESTRICT :: byte where "IDTI_OBJ_USER_RESTRICT \<equiv> 0x20"
abbreviation (input) IDTI_OBJ_USER_DATA :: byte where "IDTI_OBJ_USER_DATA \<equiv> 0x21"
abbreviation (input) IDTI_OBJ_USER_DATA_FGR :: byte where "IDTI_OBJ_USER_DATA_FGR \<equiv> 0x22"
abbreviation (input) IDTI_OBJ_USER_IMAGE :: byte where "IDTI_OBJ_USER_IMAGE \<equiv> 0x23"
abbreviation (input) IDTI_OBJ_USERBIN_START :: byte where "IDTI_OBJ_USERBIN_START \<equiv> 0xD0"
abbreviation (input) IDTI_OBJ_USERBIN_CONTINUE :: byte where "IDTI_OBJ_USERBIN_CONTINUE \<equiv> 0xD1"
abbreviation (input) IDTI_USERBIN_OBJ_INFO :: byte where "IDTI_USERBIN_OBJ_INFO \<equiv> 0x01"
abbreviation (input) IDTI_USERBIN_OBJ_INFO_FINGER :: byte where "IDTI_USERBIN_OBJ_INFO_FINGER \<equiv> 0x02"

abbreviation (input) IDTI_ACK_SUCCESS :: byte where "IDTI_ACK_SUCCESS \<equiv> 0x01"
abbreviation (input) IDTI_ACK_FAIL :: byte where "IDTI_ACK_FAIL \<equiv> 0x02"
abbreviation (input) IDTI_FORCE_OPEN_ON :: byte where "IDTI_FORCE_OPEN_ON \<equiv> 0x01"

abbreviation (input) IDTI_EVENT_NONBLOCKING_MAX :: nat where "IDTI_EVENT_NONBLOCKING_MAX \<equiv> 1"
abbreviation (input) IDTI_EVENT_BLOCKING_MAX :: nat where "IDTI_EVENT_BLOCKING_MAX \<equiv> 100"
abbreviation (input) IDTI_EVENT_INFO_LEN :: nat where "IDTI_EVENT_INFO_LEN \<equiv> 36"
abbreviation (input) IDTI_EVENT_COUNT_LEN :: nat where "IDTI_EVENT_COUNT_LEN \<equiv> 36"
abbreviation (input) IDTI_EVENT_INDEX_LEN :: nat where "IDTI_EVENT_INDEX_LEN \<equiv> 36"
abbreviation (input) IDTI_FIRMWARE_INFO_LEN :: nat where "IDTI_FIRMWARE_INFO_LEN \<equiv> 268"
abbreviation (input) IDTI_DEVICE_STATUS_V2_LEN :: nat where "IDTI_DEVICE_STATUS_V2_LEN \<equiv> 234"
abbreviation (input) IDTI_LCD_INFO_LEN :: nat where "IDTI_LCD_INFO_LEN \<equiv> 40"
abbreviation (input) IDTI_TIME_SYNC_LEN :: nat where "IDTI_TIME_SYNC_LEN \<equiv> 7"
abbreviation (input) IDTI_USERINFO_LEN :: nat where "IDTI_USERINFO_LEN \<equiv> 32"
abbreviation (input) IDTI_USERDATA_LEN :: nat where "IDTI_USERDATA_LEN \<equiv> 112"
abbreviation (input) IDTI_USERBIN_REC_INFO_LEN :: nat where "IDTI_USERBIN_REC_INFO_LEN \<equiv> 128"
abbreviation (input) IDTI_USERBIN_REC_INFO_FINGER_LEN :: nat where
  "IDTI_USERBIN_REC_INFO_FINGER_LEN \<equiv> 1808"

abbreviation (input) IDTI_EVENT_ACCESS_AUTH_BY_CARD :: u32 where
  "IDTI_EVENT_ACCESS_AUTH_BY_CARD \<equiv> 0x01010102"
abbreviation (input) IDTI_EVENT_ACCESS_DENIED_BY_CARD :: u32 where
  "IDTI_EVENT_ACCESS_DENIED_BY_CARD \<equiv> 0x01020102"
abbreviation (input) IDTI_EVENT_ACCESS_DENIED_NOT_ENABLED :: u32 where
  "IDTI_EVENT_ACCESS_DENIED_NOT_ENABLED \<equiv> 0x01020108"
abbreviation (input) IDTI_EVENT_ACCESS_DENIED_BY_TIME :: u32 where
  "IDTI_EVENT_ACCESS_DENIED_BY_TIME \<equiv> 0x01020109"
abbreviation (input) IDTI_EVENT_DOOR_FORCED_OPEN :: u32 where "IDTI_EVENT_DOOR_FORCED_OPEN \<equiv> 0x18010119"
abbreviation (input) IDTI_EVENT_DOOR_NORMAL :: u32 where "IDTI_EVENT_DOOR_NORMAL \<equiv> 0x1801011A"
abbreviation (input) IDTI_EVENT_ALARM_DETECTED :: u32 where "IDTI_EVENT_ALARM_DETECTED \<equiv> 0x18010306"
abbreviation (input) IDTI_EVENT_ALARM_RESTORED :: u32 where "IDTI_EVENT_ALARM_RESTORED \<equiv> 0x18010307"
abbreviation (input) IDTI_EVENT_FIRE_DETECTED :: u32 where "IDTI_EVENT_FIRE_DETECTED \<equiv> 0x18010401"
abbreviation (input) IDTI_EVENT_FIRE_RESTORED :: u32 where "IDTI_EVENT_FIRE_RESTORED \<equiv> 0x18010402"
abbreviation (input) IDTI_EVENT_HW_NO_RESPONSE :: u32 where "IDTI_EVENT_HW_NO_RESPONSE \<equiv> 0x20030102"
abbreviation (input) IDTI_EVENT_INPUT_SET_OK :: u32 where "IDTI_EVENT_INPUT_SET_OK \<equiv> 0x10210301"
abbreviation (input) IDTI_EVENT_OUTPUT_SET_OK :: u32 where "IDTI_EVENT_OUTPUT_SET_OK \<equiv> 0x10220301"
abbreviation (input) IDTI_EVENT_DEVICE_SET_OK :: u32 where "IDTI_EVENT_DEVICE_SET_OK \<equiv> 0x101F0301"
abbreviation (input) IDTI_EVENT_READER_SET_OK :: u32 where "IDTI_EVENT_READER_SET_OK \<equiv> 0x10230301"
abbreviation (input) IDTI_EVENT_USERFILE_PARTIAL :: u32 where "IDTI_EVENT_USERFILE_PARTIAL \<equiv> 0x101D0101"
abbreviation (input) IDTI_EVENT_USERFILE_SUCCESS :: u32 where "IDTI_EVENT_USERFILE_SUCCESS \<equiv> 0x101D0102"
abbreviation (input) IDTI_EVENT_USERFILE_FAIL :: u32 where "IDTI_EVENT_USERFILE_FAIL \<equiv> 0x101D0103"

abbreviation (input) IDTI_OPMODE_CARD :: byte where "IDTI_OPMODE_CARD \<equiv> 0x02"
abbreviation (input) IDTI_OPMODE_NONE :: byte where "IDTI_OPMODE_NONE \<equiv> 0x00"
abbreviation (input) IDTI_DOOR_STATUS_NONE :: byte where "IDTI_DOOR_STATUS_NONE \<equiv> 0x00"
abbreviation (input) IDTI_DOOR_STATUS_OPEN :: byte where "IDTI_DOOR_STATUS_OPEN \<equiv> 0x01"
abbreviation (input) IDTI_DOOR_STATUS_CLOSED :: byte where "IDTI_DOOR_STATUS_CLOSED \<equiv> 0x02"
abbreviation (input) IDTI_FUNC_NONE :: byte where "IDTI_FUNC_NONE \<equiv> 0xFF"
abbreviation (input) IDTI_EVENT_ADDR_ALARM_READER :: byte where "IDTI_EVENT_ADDR_ALARM_READER \<equiv> 13"
abbreviation (input) IDTI_EVENT_ADDR_NONE :: byte where "IDTI_EVENT_ADDR_NONE \<equiv> 0"
abbreviation (input) IDTI_EVENT_ADDR_FIRST_MODULE :: byte where "IDTI_EVENT_ADDR_FIRST_MODULE \<equiv> 1"
abbreviation (input) IDTI_EVENT_ADDR_FIRST_READER :: byte where "IDTI_EVENT_ADDR_FIRST_READER \<equiv> 1"

section \<open>The frame header\<close>

record idti_header =
  packet_length :: u16
  protocol_version :: byte
  frame_option :: u16
  dest_addr :: "byte list"
  src_addr :: "byte list"
  frame_index :: u32
  password :: u32
  command :: byte
  sub_command :: byte
  object :: byte
  start_item :: byte
  end_item :: byte
  data_block_current :: u16
  data_block_end :: u16
  data_block_total :: u16
  data_block_one_len :: u16
  data_len :: nat

definition tail_len :: "u16 \<Rightarrow> nat" where
  "tail_len fopt = (if fopt AND IDTI_FOPT_CHECK_PACKET \<noteq> 0 then 4 else 2)"

text \<open>\<open>buf\<close> is the buffer from the parse position on; \<open>len\<close> of the code is its length.\<close>

definition idti_header_parse :: "byte list \<Rightarrow> idti_header option" where
  "idti_header_parse buf =
    (if length buf < IDTI_HEADER_LEN_V2 then None
     else if buf ! 0 \<noteq> IDTI_STX then None
     else if buf ! 6 \<noteq> of_nat IDTI_HEADER_LEN_V2 then None
     else if xor_bytes (take 31 buf) \<noteq> buf ! 31 then None
     else
       let plen = be16 (drop 1 buf);
           fopt = be16 (drop 4 buf);
           tail = tail_len fopt
       in if plen < of_nat (IDTI_HEADER_LEN_V2 + tail) then None
          else Some \<lparr> packet_length = plen,
                      protocol_version = buf ! 3,
                      frame_option = fopt,
                      dest_addr = slice 7 IDTI_ADDR_DEST_LEN buf,
                      src_addr = slice 15 IDTI_ADDR_SRC_LEN buf,
                      frame_index = be32 (drop 20 buf),
                      password = be32 (drop 24 buf),
                      command = buf ! 29,
                      sub_command = buf ! 30,
                      object = buf ! 33,
                      start_item = buf ! 34,
                      end_item = buf ! 35,
                      data_block_current = be16 (drop 36 buf),
                      data_block_end = be16 (drop 38 buf),
                      data_block_total = be16 (drop 40 buf),
                      data_block_one_len = be16 (drop 42 buf),
                      data_len = unat plen - IDTI_HEADER_LEN_V2 - tail \<rparr>)"

text \<open>
  The builder's frame option: \<open>IsRequestAck\<close> set, \<open>IsCheckPacket\<close> cleared (so the
  tail is always two bytes).
\<close>

definition response_option :: "u16 \<Rightarrow> u16" where
  "response_option fopt = (fopt OR IDTI_FOPT_REQUEST_ACK) AND NOT IDTI_FOPT_CHECK_PACKET"

text \<open>
  \<open>idti_build_packet\<close>: \<open>None\<close> is the return value -1 (the packet does not fit);
  \<open>Some p\<close> is the content of \<open>out[0 .. total_len)\<close>. The first 31 bytes are written
  before the check byte is computed over them. Callers always pass a data buffer.
\<close>

definition build_prefix :: "nat \<Rightarrow> byte list \<Rightarrow> byte list \<Rightarrow> u16 \<Rightarrow> u32 \<Rightarrow> u32 \<Rightarrow> byte \<Rightarrow> byte \<Rightarrow> byte list" where
  "build_prefix total_len dest src fopt fidx pw cmd sub =
     [IDTI_STX] @ put16 (of_nat total_len) @ [IDTI_PROTOCOL_VERSION_V2] @ put16 fopt
     @ [of_nat IDTI_HEADER_LEN_V2]
     @ take IDTI_ADDR_DEST_LEN dest @ take IDTI_ADDR_SRC_LEN src
     @ put32 fidx @ put32 pw @ [0x00, cmd, sub]"

definition idti_build_packet ::
  "nat \<Rightarrow> byte list \<Rightarrow> byte list \<Rightarrow> u16 \<Rightarrow> u32 \<Rightarrow> u32 \<Rightarrow> byte \<Rightarrow> byte \<Rightarrow> byte \<Rightarrow> byte \<Rightarrow> byte
   \<Rightarrow> u16 \<Rightarrow> u16 \<Rightarrow> u16 \<Rightarrow> u16 \<Rightarrow> byte list \<Rightarrow> byte list option" where
  "idti_build_packet out_cap dest src fopt fidx pw cmd sub obj si ei cur en tot one data =
    (let fopt' = response_option fopt;
         total_len = IDTI_HEADER_LEN_V2 + length data + 2
     in if total_len > out_cap \<or> total_len > 0xFFFF then None
        else
          let p = build_prefix total_len dest src fopt' fidx pw cmd sub
          in Some (p @ [xor_bytes (take 31 p), 0x00, obj, si, ei]
                   @ put16 cur @ put16 en @ put16 tot @ put16 one
                   @ data @ [IDTI_PACKET_CHECKSUM_FIXED, IDTI_ETX]))"

section \<open>BCD\<close>

text \<open>C's \<open>%\<close> takes the sign of its left operand.\<close>

definition c_rem :: "int \<Rightarrow> int \<Rightarrow> int" where
  "c_rem a b = sgn a * (\<bar>a\<bar> mod \<bar>b\<bar>)"

definition idti_to_bcd :: "int \<Rightarrow> byte" where
  "idti_to_bcd value =
    (let v = c_rem value 100; v = (if v < 0 then 0 else v)
     in word_of_int (push_bit 4 (v div 10) OR (v mod 10)))"

definition idti_from_bcd :: "byte \<Rightarrow> int" where
  "idti_from_bcd value =
    (let hi = uint (drop_bit 4 value AND 0x0F); lo = uint (value AND 0x0F)
     in if hi > 9 \<or> lo > 9 then -1 else hi * 10 + lo)"

section \<open>Facts\<close>

lemma length_build_prefix [simp]:
  "length dest = 8 \<Longrightarrow> length src = 5 \<Longrightarrow>
   length (build_prefix n dest src fopt fidx pw cmd sub) = 31"
  by (simp add: build_prefix_def)

lemma tail_len_cases: "tail_len fopt = 2 \<or> tail_len fopt = 4"
  by (simp add: tail_len_def)

lemma tail_len_response [simp]: "tail_len (response_option fopt) = 2"
proof -
  have "response_option fopt AND IDTI_FOPT_CHECK_PACKET = 0"
    by (rule bit_word_eqI) (auto simp: response_option_def bit_simps)
  then show ?thesis by (simp add: tail_len_def)
qed

lemma header_parse_Some_iff:
  "idti_header_parse buf = Some h \<Longrightarrow>
   44 \<le> length buf \<and> buf ! 0 = IDTI_STX \<and> buf ! 6 = 44 \<and> xor_bytes (take 31 buf) = buf ! 31"
  by (auto simp: idti_header_parse_def Let_def split: if_splits)

lemma header_parse_lengths:
  assumes "idti_header_parse buf = Some h"
  shows "unat (packet_length h) = 44 + data_len h + tail_len (frame_option h)"
    and "data_len h \<le> 65489" and "length (dest_addr h) = 8" and "length (src_addr h) = 5"
proof -
  from assms have len: "44 \<le> length buf"
    and ge: "\<not> packet_length h < of_nat (44 + tail_len (frame_option h))"
    and dl: "data_len h = unat (packet_length h) - 44 - tail_len (frame_option h)"
    and da: "dest_addr h = slice 7 8 buf" and sa: "src_addr h = slice 15 5 buf"
    by (auto simp: idti_header_parse_def Let_def split: if_splits)
  have "unat (of_nat (44 + tail_len (frame_option h)) :: u16) = 44 + tail_len (frame_option h)"
    using tail_len_cases [of "frame_option h"] by (auto simp: unat_of_nat)
  with ge have ge': "44 + tail_len (frame_option h) \<le> unat (packet_length h)"
    by (simp add: word_less_nat_alt)
  with dl show "unat (packet_length h) = 44 + data_len h + tail_len (frame_option h)"
    by simp
  have "unat (packet_length h) < 65536" using unat_u16_bound by simp
  with dl tail_len_cases [of "frame_option h"] show "data_len h \<le> 65489" by auto
  show "length (dest_addr h) = 8" "length (src_addr h) = 5"
    using len by (simp_all add: da sa)
qed

lemma build_packet_length:
  "length dest = 8 \<Longrightarrow> length src = 5 \<Longrightarrow>
   idti_build_packet cap dest src fopt fidx pw cmd sub obj si ei cur en tot one data = Some p \<Longrightarrow>
   length p = 46 + length data \<and> length p \<le> cap \<and> length p \<le> 0xFFFF"
  by (auto simp: idti_build_packet_def Let_def split: if_splits)

lemma list8: "length xs = 8 \<Longrightarrow> \<exists>a b c d e f g h. xs = [a, b, c, d, e, f, g, h]"
  by (auto simp: length_Suc_conv numeral_eq_Suc)

lemma list5: "length xs = 5 \<Longrightarrow> \<exists>a b c d e. xs = [a, b, c, d, e]"
  by (auto simp: length_Suc_conv numeral_eq_Suc)

text \<open>The header a reader of a built packet sees.\<close>

definition built_header ::
  "byte list \<Rightarrow> byte list \<Rightarrow> u16 \<Rightarrow> u32 \<Rightarrow> u32 \<Rightarrow> byte \<Rightarrow> byte \<Rightarrow> byte \<Rightarrow> byte \<Rightarrow> byte
   \<Rightarrow> u16 \<Rightarrow> u16 \<Rightarrow> u16 \<Rightarrow> u16 \<Rightarrow> byte list \<Rightarrow> idti_header" where
  "built_header dest src fopt fidx pw cmd sub obj si ei cur en tot one data =
     \<lparr> packet_length = of_nat (46 + length data), protocol_version = IDTI_PROTOCOL_VERSION_V2,
       frame_option = response_option fopt, dest_addr = dest, src_addr = src,
       frame_index = fidx, password = pw, command = cmd, sub_command = sub, object = obj,
       start_item = si, end_item = ei, data_block_current = cur, data_block_end = en,
       data_block_total = tot, data_block_one_len = one, data_len = length data \<rparr>"

lemma header_parse_explicit:
  "idti_header_parse
    (IDTI_STX # l0 # l1 # ver # f0 # f1 # 44 #
     d0 # d1 # d2 # d3 # d4 # d5 # d6 # d7 # s0 # s1 # s2 # s3 # s4 #
     i0 # i1 # i2 # i3 # w0 # w1 # w2 # w3 # co # cmd # sub # ck # ot # obj # si # ei #
     c0 # c1 # e0 # e1 # t0 # t1 # o0 # o1 # rest) =
   (if xor_bytes [IDTI_STX, l0, l1, ver, f0, f1, 44, d0, d1, d2, d3, d4, d5, d6, d7,
        s0, s1, s2, s3, s4, i0, i1, i2, i3, w0, w1, w2, w3, co, cmd, sub] \<noteq> ck
       \<or> be16 [l0, l1] < of_nat (44 + tail_len (be16 [f0, f1])) then None
    else Some \<lparr> packet_length = be16 [l0, l1], protocol_version = ver,
       frame_option = be16 [f0, f1], dest_addr = [d0, d1, d2, d3, d4, d5, d6, d7],
       src_addr = [s0, s1, s2, s3, s4], frame_index = be32 [i0, i1, i2, i3],
       password = be32 [w0, w1, w2, w3], command = cmd, sub_command = sub, object = obj,
       start_item = si, end_item = ei, data_block_current = be16 [c0, c1],
       data_block_end = be16 [e0, e1], data_block_total = be16 [t0, t1],
       data_block_one_len = be16 [o0, o1],
       data_len = unat (be16 [l0, l1]) - 44 - tail_len (be16 [f0, f1]) \<rparr>)"
  by (simp add: idti_header_parse_def Let_def slice_def be16_def be32_def
      del: xor_bytes_Cons)


lemma build_parse:
  assumes d: "length dest = 8" and s: "length src = 5"
    and b: "idti_build_packet cap dest src fopt fidx pw cmd sub obj si ei cur en tot one data = Some p"
  shows "idti_header_parse (p @ rest) =
         Some (built_header dest src fopt fidx pw cmd sub obj si ei cur en tot one data)"
    and "slice 44 (length data) p = data"
proof -
  from list8 [OF d] obtain d0 d1 d2 d3 d4 d5 d6 d7
    where dest: "dest = [d0, d1, d2, d3, d4, d5, d6, d7]" by blast
  from list5 [OF s] obtain s0 s1 s2 s3 s4 where src: "src = [s0, s1, s2, s3, s4]" by blast
  define L where "L = 46 + length data"
  define L16 where "L16 = (of_nat L :: u16)"
  define fo where "fo = response_option fopt"
  have n: "L \<le> 65535"
    using b by (auto simp: L_def idti_build_packet_def Let_def split: if_splits)
  have un: "unat L16 = L" unfolding L16_def using n by (intro unat_of_nat_u16) simp
  have ge: "\<not> L16 < of_nat (44 + tail_len fo)"
    using n unfolding fo_def by (simp add: word_less_nat_alt un) (simp add: L_def)
  have "44 + length data + 2 = L" by (simp add: L_def)
  with b have p: "p = IDTI_STX # ucast (drop_bit 8 L16) # ucast L16 # 2
      # ucast (drop_bit 8 fo) # ucast fo # 44
      # d0 # d1 # d2 # d3 # d4 # d5 # d6 # d7 # s0 # s1 # s2 # s3 # s4
      # ucast (drop_bit 24 fidx) # ucast (drop_bit 16 fidx) # ucast (drop_bit 8 fidx) # ucast fidx
      # ucast (drop_bit 24 pw) # ucast (drop_bit 16 pw) # ucast (drop_bit 8 pw) # ucast pw
      # 0 # cmd # sub
      # xor_bytes [IDTI_STX, ucast (drop_bit 8 L16), ucast L16, 2, ucast (drop_bit 8 fo), ucast fo,
          44, d0, d1, d2, d3, d4, d5, d6, d7, s0, s1, s2, s3, s4, ucast (drop_bit 24 fidx),
          ucast (drop_bit 16 fidx), ucast (drop_bit 8 fidx), ucast fidx, ucast (drop_bit 24 pw),
          ucast (drop_bit 16 pw), ucast (drop_bit 8 pw), ucast pw, 0, cmd, sub]
      # 0 # obj # si # ei # ucast (drop_bit 8 cur) # ucast cur # ucast (drop_bit 8 en) # ucast en
      # ucast (drop_bit 8 tot) # ucast tot # ucast (drop_bit 8 one) # ucast one
      # data @ [8, 3]"
    by (auto simp: idti_build_packet_def build_prefix_def Let_def dest src put16_def put32_def
        fo_def [symmetric] L16_def [symmetric] simp del: xor_bytes_Cons split: if_splits)
  show "idti_header_parse (p @ rest) =
        Some (built_header dest src fopt fidx pw cmd sub obj si ei cur en tot one data)"
    unfolding p append_Cons header_parse_explicit be16_put16 be32_put32
    using ge un by (simp add: built_header_def dest src fo_def [symmetric] L_def [symmetric]
        L16_def [symmetric] del: xor_bytes_Cons) (simp add: fo_def L_def)
  show "slice 44 (length data) p = data"
    by (simp add: p slice_def)
qed


lemma checksum_mismatch_None:
  "xor_bytes (take 31 buf) \<noteq> buf ! 31 \<Longrightarrow> idti_header_parse buf = None"
  by (simp add: idti_header_parse_def)

lemma bcd_digits:
  "list_all (\<lambda>v. idti_from_bcd (idti_to_bcd (int v)) = int v) [0..<100]"
  by code_simp

lemma bcd_bytes:
  "list_all (\<lambda>n. idti_from_bcd (of_nat n) \<noteq> -1 \<longrightarrow>
     (let v = idti_from_bcd (of_nat n) in 0 \<le> v \<and> v \<le> 99 \<and> idti_to_bcd v = of_nat n)) [0..<256]"
  by code_simp

lemma bcd_value: "0 \<le> v \<Longrightarrow> v \<le> 99 \<Longrightarrow> idti_from_bcd (idti_to_bcd v) = v"
proof -
  assume "0 \<le> v" "v \<le> 99"
  then have m: "nat v \<in> set [0..<100]" and v: "int (nat v) = v" by auto
  from bcd_digits have "\<forall>n \<in> set [0..<100]. idti_from_bcd (idti_to_bcd (int n)) = int n"
    unfolding list_all_iff .
  from bspec [OF this m] show ?thesis unfolding v .
qed

lemma bcd_byte:
  "idti_from_bcd b \<noteq> -1 \<Longrightarrow>
   0 \<le> idti_from_bcd b \<and> idti_from_bcd b \<le> 99 \<and> idti_to_bcd (idti_from_bcd b) = b"
proof -
  assume ne: "idti_from_bcd b \<noteq> -1"
  have m: "unat b \<in> set [0..<256]" and b: "of_nat (unat b) = b" using unat_byte_bound by auto
  have "\<forall>n \<in> set [0..<256]. idti_from_bcd (of_nat n) \<noteq> -1 \<longrightarrow>
     (let v = idti_from_bcd (of_nat n) in 0 \<le> v \<and> v \<le> 99 \<and> idti_to_bcd v = of_nat n)"
    using bcd_bytes unfolding list_all_iff .
  from bspec [OF this m] ne show ?thesis unfolding b Let_def by blast
qed

lemma c_rem_nonneg: "0 \<le> a \<Longrightarrow> 0 < b \<Longrightarrow> c_rem a b = a mod b"
  by (auto simp: c_rem_def sgn_if)

section \<open>Properties\<close>

text \<open>
  C21. A packet built by \<open>idti_build_packet\<close> is accepted by \<open>idti_header_parse\<close>, at the
  front of any buffer; every header field comes back as it was given (the frame option with
  \<open>IsRequestAck\<close> set and \<open>IsCheckPacket\<close> cleared), and the data part of the packet is the data.
\<close>

theorem build_parse_roundtrip:
  assumes "length dest = 8" "length src = 5"
    and "idti_build_packet cap dest src fopt fidx pw cmd sub obj si ei cur en tot one data = Some p"
  shows "idti_header_parse (p @ rest) =
           Some (built_header dest src fopt fidx pw cmd sub obj si ei cur en tot one data)
         \<and> slice 44 (length data) (p @ rest) = data \<and> length p = 46 + length data"
  using build_parse [OF assms] build_packet_length [OF assms]
  by (simp add: slice_append_left)

theorem build_parse_roundtrip_witness:
  "idti_header_parse (the (idti_build_packet 100 [1, 1, 1, 1, 1, 1, 1, 1] [2, 2, 2, 2, 2] 0x0881 7 9
      5 2 1 0 0 1 1 1 3 [10, 20, 30]) @ [99]) =
   Some (built_header [1, 1, 1, 1, 1, 1, 1, 1] [2, 2, 2, 2, 2] 0x0881 7 9 5 2 1 0 0 1 1 1 3 [10, 20, 30])"
proof -
  have "idti_build_packet 100 [1, 1, 1, 1, 1, 1, 1, 1] [2, 2, 2, 2, 2] 0x0881 7 9 5 2 1 0 0 1 1 1 3 [10, 20, 30]
        = Some (the (idti_build_packet 100 [1, 1, 1, 1, 1, 1, 1, 1] [2, 2, 2, 2, 2] 0x0881 7 9
                      5 2 1 0 0 1 1 1 3 [10, 20, 30]))"
    by (simp add: idti_build_packet_def Let_def)
  from build_parse_roundtrip [OF _ _ this, of "[99]"] show ?thesis by simp
qed

text \<open>
  Any one byte changed among the 32 header bytes covered by the header checksum (the
  check byte included) makes the parser refuse a header it accepted before.
\<close>

theorem header_corruption_detected:
  assumes ok: "idti_header_parse buf = Some h" and i: "i < 32" and b: "b \<noteq> buf ! i"
  shows "idti_header_parse (buf[i := b]) = None"
proof (rule checksum_mismatch_None)
  from ok have len: "44 \<le> length buf" and eq: "xor_bytes (take 31 buf) = buf ! 31"
    by (auto dest: header_parse_Some_iff)
  show "xor_bytes (take 31 (buf[i := b])) \<noteq> buf[i := b] ! 31"
  proof (cases "i = 31")
    case True
    with eq b len show ?thesis by simp
  next
    case False
    with i len xor_bytes_detects [of i "take 31 buf" b] b eq show ?thesis
      by (simp add: take_update_swap)
  qed
qed

theorem header_corruption_detected_witness:
  "idti_header_parse ((the (idti_build_packet 100 [1, 1, 1, 1, 1, 1, 1, 1] [2, 2, 2, 2, 2] 0 7 9
      6 2 1 0 0 0 0 0 0 []))[29 := 5]) = None"
proof -
  let ?p = "the (idti_build_packet 100 [1, 1, 1, 1, 1, 1, 1, 1] [2, 2, 2, 2, 2] 0 7 9 6 2 1 0 0 0 0 0 0 [])"
  have p: "idti_build_packet 100 [1, 1, 1, 1, 1, 1, 1, 1] [2, 2, 2, 2, 2] 0 7 9 6 2 1 0 0 0 0 0 0 [] = Some ?p"
    by (simp add: idti_build_packet_def Let_def)
  have "idti_header_parse ?p \<noteq> None" using build_parse(1) [OF _ _ p, of "[]"] by simp
  then obtain h where "idti_header_parse ?p = Some h" by blast
  then show ?thesis
    by (rule header_corruption_detected)
      (simp_all add: idti_build_packet_def build_prefix_def put16_def put32_def Let_def)
qed

text \<open>
  A header the parser accepts describes a frame that fits the 16-bit length field: the
  data length plus header and tail is exactly the packet length, never below 46 bytes, and
  the addresses have their fixed sizes; so no subtraction in the parser wraps around.
\<close>

theorem header_parse_bounds:
  assumes "idti_header_parse buf = Some h"
  shows "unat (packet_length h) = 44 + data_len h + tail_len (frame_option h)
         \<and> 46 \<le> unat (packet_length h) \<and> data_len h \<le> 65489
         \<and> length (dest_addr h) = 8 \<and> length (src_addr h) = 5"
  using header_parse_lengths [OF assms] tail_len_cases [of "frame_option h"] by auto

theorem header_parse_bounds_witness:
  "\<exists>h. idti_header_parse (the (idti_build_packet 100 [1, 1, 1, 1, 1, 1, 1, 1] [2, 2, 2, 2, 2] 0 7 9
        6 2 1 0 0 0 0 0 0 [])) = Some h \<and> 46 \<le> unat (packet_length h)"
proof -
  let ?p = "the (idti_build_packet 100 [1, 1, 1, 1, 1, 1, 1, 1] [2, 2, 2, 2, 2] 0 7 9 6 2 1 0 0 0 0 0 0 [])"
  have p: "idti_build_packet 100 [1, 1, 1, 1, 1, 1, 1, 1] [2, 2, 2, 2, 2] 0 7 9 6 2 1 0 0 0 0 0 0 [] = Some ?p"
    by (simp add: idti_build_packet_def Let_def)
  obtain h where "idti_header_parse ?p = Some h"
    using build_parse(1) [OF _ _ p, of "[]"] by auto
  with header_parse_bounds [OF this] show ?thesis by blast
qed

text \<open>
  The BCD conversions are inverse to each other: every value 0 to 99 survives, and every
  byte \<open>idti_from_bcd\<close> accepts is the encoding of a value 0 to 99; a byte with a nibble above 9
  is refused with -1.
\<close>

theorem bcd_roundtrip:
  "(0 \<le> v \<and> v \<le> 99 \<longrightarrow> idti_from_bcd (idti_to_bcd v) = v)
   \<and> (idti_from_bcd b \<noteq> -1 \<longrightarrow>
        0 \<le> idti_from_bcd b \<and> idti_from_bcd b \<le> 99 \<and> idti_to_bcd (idti_from_bcd b) = b)"
proof (intro conjI impI)
  assume "0 \<le> v \<and> v \<le> 99"
  then show "idti_from_bcd (idti_to_bcd v) = v" by (intro bcd_value) simp_all
next
  assume "idti_from_bcd b \<noteq> -1"
  from bcd_byte [OF this]
  show "0 \<le> idti_from_bcd b" "idti_from_bcd b \<le> 99" "idti_to_bcd (idti_from_bcd b) = b"
    by simp_all
qed

theorem bcd_roundtrip_witness: "idti_from_bcd (idti_to_bcd 59) = 59"
  using bcd_roundtrip [of 59 0] by simp

end
