(* ===== verification/Event_Loop.thy ===== *)
theory Event_Loop
  imports Prelude
begin

text \<open>
  The descriptor registry and dispatcher of \<open>acud/loop.c\<close>. The array
  \<open>ent[0 .. count)\<close> is a list of entries; a callback and its user pointer are one value
  of the type parameter (\<open>None\<close> is the NULL callback). \<open>select\<close> belongs to the operating
  system: its result (return code and the two ready sets) is an argument of \<open>loop_wait\<close>.
  The registry refines a finite map from descriptors to entries, stated as the locale
  \<open>fd_registry\<close> and interpreted by the array operations.
\<close>

abbreviation (input) ACU_LOOP_READ :: u32 where "ACU_LOOP_READ \<equiv> 0x01"
abbreviation (input) ACU_LOOP_WRITE :: u32 where "ACU_LOOP_WRITE \<equiv> 0x02"
abbreviation (input) ACU_LOOP_MAX_FDS :: nat where "ACU_LOOP_MAX_FDS \<equiv> 32"
abbreviation (input) FD_SETSIZE :: int where "FD_SETSIZE \<equiv> 1024"

record 'c loop_entry =
  le_fd :: int
  le_events :: u32
  le_cb :: 'c

type_synonym 'c acu_loop = "'c loop_entry list"

section \<open>Operations\<close>

definition loop_create :: "'c acu_loop" where
  "loop_create = []"

fun find_entry_from :: "'c acu_loop \<Rightarrow> int \<Rightarrow> nat \<Rightarrow> nat option" where
  "find_entry_from [] fd i = None"
| "find_entry_from (e # es) fd i =
     (if le_fd e = fd then Some i else find_entry_from es fd (Suc i))"

definition find_entry :: "'c acu_loop \<Rightarrow> int \<Rightarrow> nat option" where
  "find_entry l fd = find_entry_from l fd 0"

text \<open>\<open>None\<close> is the return value -1; the registry is then unchanged.\<close>

definition loop_add :: "'c acu_loop \<Rightarrow> int \<Rightarrow> u32 \<Rightarrow> 'c option \<Rightarrow> 'c acu_loop option" where
  "loop_add l fd events cb =
    (if fd < 0 \<or> fd \<ge> FD_SETSIZE \<or> cb = None then None
     else
       let e = \<lparr> le_fd = fd, le_events = events, le_cb = the cb \<rparr>
       in case find_entry l fd of
            Some i \<Rightarrow> Some (l[i := e])
          | None \<Rightarrow> if length l \<ge> ACU_LOOP_MAX_FDS then None else Some (l @ [e]))"

definition loop_mod :: "'c acu_loop \<Rightarrow> int \<Rightarrow> u32 \<Rightarrow> 'c acu_loop option" where
  "loop_mod l fd events =
    (case find_entry l fd of
       None \<Rightarrow> None
     | Some i \<Rightarrow> Some (l[i := (l ! i)\<lparr> le_events := events \<rparr>]))"

definition loop_remove :: "'c acu_loop \<Rightarrow> int \<Rightarrow> 'c acu_loop" where
  "loop_remove l fd =
    (case find_entry l fd of
       None \<Rightarrow> l
     | Some i \<Rightarrow> butlast (l[i := last l]))"

section \<open>Waiting and dispatching\<close>

definition watch_set :: "'c acu_loop \<Rightarrow> u32 \<Rightarrow> int list" where
  "watch_set l flag = map le_fd (filter (\<lambda>e. le_events e AND flag \<noteq> 0) l)"

definition loop_maxfd :: "'c acu_loop \<Rightarrow> int" where
  "loop_maxfd l = foldl (\<lambda>m e. if le_events e AND (ACU_LOOP_READ OR ACU_LOOP_WRITE) \<noteq> 0 \<and> le_fd e > m
                              then le_fd e else m) (-1) l"

definition ready_events :: "'c loop_entry \<Rightarrow> int list \<Rightarrow> int list \<Rightarrow> u32" where
  "ready_events e rd wr =
    ((if le_events e AND ACU_LOOP_READ \<noteq> 0 \<and> le_fd e \<in> set rd then ACU_LOOP_READ else 0)
     OR (if le_events e AND ACU_LOOP_WRITE \<noteq> 0 \<and> le_fd e \<in> set wr then ACU_LOOP_WRITE else 0))"

definition collect_ready :: "'c acu_loop \<Rightarrow> int list \<Rightarrow> int list \<Rightarrow> (int \<times> u32) list" where
  "collect_ready l rd wr =
    filter (\<lambda>(fd, ev). ev \<noteq> 0) (map (\<lambda>e. (le_fd e, ready_events e rd wr)) l)"

text \<open>
  The second loop: every ready descriptor is looked up again in the registry of the
  current state, because an earlier callback may have changed it. \<open>reg\<close> reads the
  registry out of the program state, \<open>run cb fd ev\<close> is the effect of a callback.
\<close>

primrec loop_dispatch ::
  "('s \<Rightarrow> 'c acu_loop) \<Rightarrow> ('c \<Rightarrow> int \<Rightarrow> u32 \<Rightarrow> 's \<Rightarrow> 's) \<Rightarrow> (int \<times> u32) list \<Rightarrow> 's \<Rightarrow> 's" where
  "loop_dispatch reg run [] s = s"
| "loop_dispatch reg run (r # rs) s =
    (case find_entry (reg s) (fst r) of
       None \<Rightarrow> loop_dispatch reg run rs s
     | Some i \<Rightarrow> loop_dispatch reg run rs (run (le_cb (reg s ! i)) (fst r) (snd r) s))"

text \<open>\<open>sel maxfd reads writes timeout\<close> is the system's \<open>select\<close>.\<close>

type_synonym select_call = "int \<Rightarrow> int list \<Rightarrow> int list \<Rightarrow> int option \<Rightarrow> int \<times> int list \<times> int list"

definition loop_wait ::
  "('s \<Rightarrow> 'c acu_loop) \<Rightarrow> ('c \<Rightarrow> int \<Rightarrow> u32 \<Rightarrow> 's \<Rightarrow> 's) \<Rightarrow> select_call \<Rightarrow> int \<Rightarrow> 's \<Rightarrow> int \<times> 's" where
  "loop_wait reg run sel timeout_ms s =
    (if reg s = [] then (-1, s)
     else
       let (rc, rd, wr) = sel (loop_maxfd (reg s) + 1) (watch_set (reg s) ACU_LOOP_READ)
                            (watch_set (reg s) ACU_LOOP_WRITE)
                            (if timeout_ms \<ge> 0 then Some timeout_ms else None)
       in if rc \<le> 0 then (rc, s)
          else (rc, loop_dispatch reg run (collect_ready (reg s) rd wr) s))"

section \<open>Lookup facts\<close>

lemma find_entry_from_Some:
  "find_entry_from l fd k = Some i \<Longrightarrow> k \<le> i \<and> i < k + length l \<and> le_fd (l ! (i - k)) = fd"
proof (induction l arbitrary: k)
  case Nil
  then show ?case by simp
next
  case (Cons e l)
  show ?case
  proof (cases "le_fd e = fd")
    case True
    with Cons.prems show ?thesis by auto
  next
    case False
    with Cons.prems have "find_entry_from l fd (Suc k) = Some i" by simp
    from Cons.IH [OF this] show ?thesis by (auto simp: nth_Cons' Suc_diff_le)
  qed
qed

lemma find_entry_from_None:
  "find_entry_from l fd k = None \<longleftrightarrow> fd \<notin> le_fd ` set l"
  by (induction l arbitrary: k) auto

lemma find_entry_Some: "find_entry l fd = Some i \<Longrightarrow> i < length l \<and> le_fd (l ! i) = fd"
  using find_entry_from_Some [of l fd 0 i] by (simp add: find_entry_def)

lemma find_entry_None: "find_entry l fd = None \<longleftrightarrow> fd \<notin> le_fd ` set l"
  by (simp add: find_entry_def find_entry_from_None)

text \<open>The registry invariant, and the map the registry stands for.\<close>

definition loop_inv :: "'c acu_loop \<Rightarrow> bool" where
  "loop_inv l \<longleftrightarrow> distinct (map le_fd l) \<and> length l \<le> ACU_LOOP_MAX_FDS
     \<and> (\<forall>e \<in> set l. 0 \<le> le_fd e \<and> le_fd e < FD_SETSIZE)"

definition loop_lookup :: "'c acu_loop \<Rightarrow> int \<Rightarrow> (u32 \<times> 'c) option" where
  "loop_lookup l fd = map_option (\<lambda>i. (le_events (l ! i), le_cb (l ! i))) (find_entry l fd)"

lemma find_entry_unique:
  assumes "distinct (map le_fd l)" "i < length l"
  shows "find_entry l (le_fd (l ! i)) = Some i"
proof -
  from assms(2) have "find_entry l (le_fd (l ! i)) \<noteq> None" by (auto simp: find_entry_None)
  then obtain j where j: "find_entry l (le_fd (l ! i)) = Some j" by blast
  from find_entry_Some [OF this] have "j < length l" "map le_fd l ! j = map le_fd l ! i"
    using assms(2) by simp_all
  with assms have "j = i" by (metis length_map nth_eq_iff_index_eq)
  with j show ?thesis by simp
qed

lemma loop_lookup_iff:
  assumes "distinct (map le_fd l)"
  shows "loop_lookup l fd = Some (ev, cb) \<longleftrightarrow> \<lparr> le_fd = fd, le_events = ev, le_cb = cb \<rparr> \<in> set l"
proof
  assume "loop_lookup l fd = Some (ev, cb)"
  then obtain i where "find_entry l fd = Some i" "le_events (l ! i) = ev" "le_cb (l ! i) = cb"
    by (auto simp: loop_lookup_def)
  with find_entry_Some [OF this(1)] show "\<lparr> le_fd = fd, le_events = ev, le_cb = cb \<rparr> \<in> set l"
    by (metis (full_types) loop_entry.surjective nth_mem old.unit.exhaust)
next
  assume "\<lparr> le_fd = fd, le_events = ev, le_cb = cb \<rparr> \<in> set l"
  then obtain i where i: "i < length l" "l ! i = \<lparr> le_fd = fd, le_events = ev, le_cb = cb \<rparr>"
    by (auto simp: in_set_conv_nth)
  from find_entry_unique [OF assms i(1)] i(2) have "find_entry l fd = Some i" by simp
  with i(2) show "loop_lookup l fd = Some (ev, cb)" by (simp add: loop_lookup_def)
qed

lemma loop_lookup_None: "loop_lookup l fd = None \<longleftrightarrow> fd \<notin> le_fd ` set l"
  by (simp add: loop_lookup_def find_entry_None)

lemma loop_lookup_set_eq:
  assumes "distinct (map le_fd l)" "distinct (map le_fd l')" "set l = set l'"
  shows "loop_lookup l = loop_lookup l'"
proof
  fix fd
  show "loop_lookup l fd = loop_lookup l' fd"
  proof (cases "loop_lookup l fd")
    case None
    with assms(3) show ?thesis using loop_lookup_None by metis
  next
    case (Some p)
    with assms show ?thesis by (cases p) (metis loop_lookup_iff)
  qed
qed

text \<open>Removing by moving the last entry into the hole keeps exactly the other entries.\<close>

lemma swap_remove_set:
  assumes "distinct l" "i < length l"
  shows "set (butlast (l[i := last l])) = set l - {l ! i}" and "distinct (butlast (l[i := last l]))"
proof -
  from assms(2) obtain ys z where l: "l = ys @ [z]" by (cases l rule: rev_cases) auto
  show "set (butlast (l[i := last l])) = set l - {l ! i}"
  proof (cases "i = length ys")
    case True
    with assms l show ?thesis by (auto simp: list_update_append)
  next
    case False
    with assms(2) l have i: "i < length ys" by simp
    then have "butlast (l[i := last l]) = ys[i := z]" by (simp add: l list_update_append)
    moreover have "set (ys[i := z]) = insert z (set ys - {ys ! i})"
      using assms(1) i l by (simp add: set_update_distinct)
    ultimately show ?thesis using assms(1) i by (auto simp: l nth_append)
  qed
  show "distinct (butlast (l[i := last l]))"
  proof (cases "i = length ys")
    case True
    with assms l show ?thesis by (simp add: list_update_append)
  next
    case False
    with assms(2) l have i: "i < length ys" by simp
    then have "butlast (l[i := last l]) = ys[i := z]" by (simp add: l list_update_append)
    with assms(1) l i show ?thesis by (simp add: distinct_list_update)
  qed
qed

lemma loop_inv_map:
  "loop_inv l \<longleftrightarrow> distinct (map le_fd l) \<and> length (map le_fd l) \<le> 32
     \<and> (\<forall>fd \<in> set (map le_fd l). 0 \<le> fd \<and> fd < 1024)"
  by (simp add: loop_inv_def)

lemma loop_inv_distinct: "loop_inv l \<Longrightarrow> distinct (map le_fd l)"
  by (simp add: loop_inv_def)

lemma swap_remove_map:
  "l \<noteq> [] \<Longrightarrow> map f (butlast (l[i := last l])) = butlast ((map f l)[i := last (map f l)])"
  by (simp add: map_butlast map_update last_map)

lemma loop_remove_found:
  assumes inv: "loop_inv l" and f: "find_entry l fd = Some i"
  shows "set (loop_remove l fd) = set l - {l ! i}"
    and "map le_fd (loop_remove l fd) = butlast ((map le_fd l)[i := last (map le_fd l)])"
    and "distinct (map le_fd (loop_remove l fd))"
proof -
  from find_entry_Some [OF f] have i: "i < length l" by simp
  then have ne: "l \<noteq> []" by auto
  have d: "distinct l" using inv by (auto simp: loop_inv_def distinct_map)
  show "set (loop_remove l fd) = set l - {l ! i}"
    using swap_remove_set(1) [OF d i] f by (simp add: loop_remove_def)
  show m: "map le_fd (loop_remove l fd) = butlast ((map le_fd l)[i := last (map le_fd l)])"
    using swap_remove_map [OF ne, of le_fd i] f by (simp add: loop_remove_def)
  show "distinct (map le_fd (loop_remove l fd))"
    unfolding m using inv i by (intro swap_remove_set(2)) (auto simp: loop_inv_def)
qed

lemma loop_inv_remove [keeps_inv]: "loop_inv l \<Longrightarrow> loop_inv (loop_remove l fd)"
proof (cases "find_entry l fd")
  case None
  assume "loop_inv l"
  with None show ?thesis by (simp add: loop_remove_def)
next
  case (Some i)
  assume inv: "loop_inv l"
  note r = loop_remove_found [OF inv Some]
  have "length (loop_remove l fd) = length l - 1"
    using Some by (simp add: loop_remove_def)
  with r inv show ?thesis by (auto simp: loop_inv_def)
qed

lemma loop_inv_mod [keeps_inv]: "loop_inv l \<Longrightarrow> loop_mod l fd ev = Some l' \<Longrightarrow> loop_inv l'"
proof -
  assume inv: "loop_inv l" and m: "loop_mod l fd ev = Some l'"
  then obtain i where f: "find_entry l fd = Some i"
    and l': "l' = l[i := (l ! i)\<lparr> le_events := ev \<rparr>]"
    by (auto simp: loop_mod_def split: option.splits)
  have "map le_fd l' = map le_fd l" using find_entry_Some [OF f] by (simp add: l' map_update list_update_same_conv)
  with inv show ?thesis by (metis loop_inv_map)
qed

lemma loop_add_set:
  assumes inv: "loop_inv l" and a: "loop_add l fd ev cb = Some l'"
  shows "set l' = insert \<lparr> le_fd = fd, le_events = ev, le_cb = the cb \<rparr> {e \<in> set l. le_fd e \<noteq> fd}"
    and "distinct (map le_fd l')" and "length l' \<le> ACU_LOOP_MAX_FDS" and "0 \<le> fd \<and> fd < FD_SETSIZE"
proof -
  let ?e = "\<lparr> le_fd = fd, le_events = ev, le_cb = the cb \<rparr>"
  from a show "0 \<le> fd \<and> fd < FD_SETSIZE" by (auto simp: loop_add_def split: if_splits)
  have d: "distinct (map le_fd l)" "distinct l" "length l \<le> 32"
    using inv by (auto simp: loop_inv_def distinct_map)
  have "set l' = insert ?e {e \<in> set l. le_fd e \<noteq> fd} \<and> distinct (map le_fd l') \<and> length l' \<le> 32"
  proof (cases "find_entry l fd")
    case None
    with a have l': "l' = l @ [?e]" "length l < 32"
      by (auto simp: loop_add_def Let_def split: if_splits)
    from None have "fd \<notin> le_fd ` set l" by (simp add: find_entry_None)
    with l' d show ?thesis by auto
  next
    case (Some i)
    with a have l': "l' = l[i := ?e]" by (auto simp: loop_add_def Let_def split: if_splits)
    from find_entry_Some [OF Some] have i: "i < length l" "le_fd (l ! i) = fd" by simp_all
    have "e = l ! i" if "e \<in> set l" "le_fd e = fd" for e
      using that i d(1) by (metis in_set_conv_nth find_entry_unique option.inject)
    then have "set l - {l ! i} = {e \<in> set l. le_fd e \<noteq> fd}" using i by auto
    moreover have "map le_fd l' = map le_fd l"
      using i by (simp add: l' map_update list_update_same_conv)
    moreover have "set l' = insert ?e (set l - {l ! i})"
      unfolding l' using set_update_distinct [OF d(2) i(1)] .
    ultimately show ?thesis using d by (metis length_map)
  qed
  then show "set l' = insert ?e {e \<in> set l. le_fd e \<noteq> fd}" "distinct (map le_fd l')"
    "length l' \<le> 32" by simp_all
qed

lemma loop_inv_add [keeps_inv]: "loop_inv l \<Longrightarrow> loop_add l fd ev cb = Some l' \<Longrightarrow> loop_inv l'"
  using loop_add_set [of l fd ev cb l'] by (auto simp: loop_inv_def)

lemma loop_inv_create [keeps_inv]: "loop_inv loop_create"
  by (simp add: loop_inv_def loop_create_def)

lemma lookup_by_set:
  assumes "distinct (map le_fd l)" "e \<in> set l"
  shows "loop_lookup l (le_fd e) = Some (le_events e, le_cb e)"
proof -
  have "\<lparr> le_fd = le_fd e, le_events = le_events e, le_cb = le_cb e \<rparr> = e" by simp
  with assms show ?thesis by (simp only: loop_lookup_iff)
qed

lemma loop_lookup_add:
  assumes inv: "loop_inv l" and a: "loop_add l fd ev (Some cb) = Some l'"
  shows "loop_lookup l' = (loop_lookup l)(fd \<mapsto> (ev, cb))"
proof
  fix x
  note s = loop_add_set [OF inv a]
  show "loop_lookup l' x = ((loop_lookup l)(fd \<mapsto> (ev, cb))) x"
  proof (cases "x = fd")
    case True
    with s show ?thesis using lookup_by_set [OF s(2), of "\<lparr> le_fd = fd, le_events = ev, le_cb = cb \<rparr>"]
      by simp
  next
    case False
    have "loop_lookup l' x = loop_lookup l x"
    proof (cases "loop_lookup l x")
      case None
      then have "x \<notin> le_fd ` set l'" using False s(1) by (auto simp: loop_lookup_None)
      with None show ?thesis using loop_lookup_None [of l' x] by simp
    next
      case (Some p)
      obtain ev' cb' where p: "p = (ev', cb')" by (cases p)
      from Some have "\<lparr> le_fd = x, le_events = ev', le_cb = cb' \<rparr> \<in> set l"
        unfolding p using loop_lookup_iff [OF loop_inv_distinct [OF inv]] by blast
      with False have "\<lparr> le_fd = x, le_events = ev', le_cb = cb' \<rparr> \<in> set l'" unfolding s(1) by simp
      with Some show ?thesis unfolding p using loop_lookup_iff [OF s(2)] by metis
    qed
    with False show ?thesis by simp
  qed
qed

lemma loop_lookup_remove:
  assumes inv: "loop_inv l"
  shows "loop_lookup (loop_remove l fd) = (loop_lookup l)(fd := None)"
proof (cases "find_entry l fd")
  case None
  then have "loop_lookup l fd = None" by (simp add: loop_lookup_def)
  with None show ?thesis by (simp add: loop_remove_def fun_upd_idem)
next
  case (Some i)
  note r = loop_remove_found [OF inv Some]
  from find_entry_Some [OF Some] have i: "i < length l" "le_fd (l ! i) = fd" by simp_all
  have uniq: "e = l ! i" if "e \<in> set l" "le_fd e = fd" for e
    using that i loop_inv_distinct [OF inv] by (metis in_set_conv_nth find_entry_unique option.inject)
  show ?thesis
  proof
    fix x
    show "loop_lookup (loop_remove l fd) x = ((loop_lookup l)(fd := None)) x"
    proof (cases "x \<in> le_fd ` set (loop_remove l fd)")
      case True
      then obtain e where e: "e \<in> set l" "e \<noteq> l ! i" "x = le_fd e" by (auto simp: r(1))
      with uniq have "x \<noteq> fd" by auto
      moreover have "e \<in> set (loop_remove l fd)" using e by (simp add: r(1))
      ultimately show ?thesis
        using lookup_by_set [OF r(3)] lookup_by_set [OF loop_inv_distinct [OF inv]] e by simp
    next
      case False
      then have "x = fd \<or> x \<notin> le_fd ` set l" using i by (auto simp: r(1))
      then have "loop_lookup l x = None \<or> x = fd" using loop_lookup_None [of l x] by blast
      moreover have "loop_lookup (loop_remove l fd) x = None" using False loop_lookup_None by blast
      ultimately show ?thesis by auto
    qed
  qed
qed

lemma loop_lookup_mod:
  assumes inv: "loop_inv l"
  shows "map_option loop_lookup (loop_mod l fd ev) =
    (case loop_lookup l fd of None \<Rightarrow> None
     | Some (_, cb) \<Rightarrow> Some ((loop_lookup l)(fd \<mapsto> (ev, cb))))"
proof (cases "find_entry l fd")
  case None
  then show ?thesis by (simp add: loop_mod_def loop_lookup_def)
next
  case (Some i)
  from find_entry_Some [OF Some] have i: "i < length l" "le_fd (l ! i) = fd" by simp_all
  then have fd: "0 \<le> fd" "fd < 1024" using inv by (auto simp: loop_inv_def)
  have eq: "(l ! i)\<lparr> le_events := ev \<rparr> = \<lparr> le_fd = fd, le_events = ev, le_cb = le_cb (l ! i) \<rparr>"
    using i(2) by (cases "l ! i") simp
  from Some fd have "loop_add l fd ev (Some (le_cb (l ! i))) = loop_mod l fd ev"
    by (simp add: loop_add_def loop_mod_def eq)
  moreover obtain l' where "loop_mod l fd ev = Some l'" using Some by (simp add: loop_mod_def)
  ultimately show ?thesis
    using loop_lookup_add [OF inv, of fd ev "le_cb (l ! i)" l'] Some by (simp add: loop_lookup_def)
qed

section \<open>The registry as an interface\<close>

text \<open>
  What the network component relies on: adding, changing and removing a descriptor act on
  one key of a finite map and keep the registry well formed.
\<close>

locale fd_registry =
  fixes inv :: "'r \<Rightarrow> bool"
    and look :: "'r \<Rightarrow> int \<Rightarrow> (u32 \<times> 'c) option"
    and add :: "'r \<Rightarrow> int \<Rightarrow> u32 \<Rightarrow> 'c option \<Rightarrow> 'r option"
    and change :: "'r \<Rightarrow> int \<Rightarrow> u32 \<Rightarrow> 'r option"
    and remove :: "'r \<Rightarrow> int \<Rightarrow> 'r"
  assumes inv_add: "inv r \<Longrightarrow> add r fd ev co = Some r' \<Longrightarrow> inv r'"
    and inv_change: "inv r \<Longrightarrow> change r fd ev = Some r' \<Longrightarrow> inv r'"
    and inv_remove: "inv r \<Longrightarrow> inv (remove r fd)"
    and look_add: "inv r \<Longrightarrow> add r fd ev (Some cb) = Some r' \<Longrightarrow> look r' = (look r)(fd \<mapsto> (ev, cb))"
    and look_change: "inv r \<Longrightarrow> map_option look (change r fd ev) =
          (case look r fd of None \<Rightarrow> None | Some (_, cb) \<Rightarrow> Some ((look r)(fd \<mapsto> (ev, cb))))"
    and look_remove: "inv r \<Longrightarrow> look (remove r fd) = (look r)(fd := None)"
begin

lemma change_after_remove: "inv r \<Longrightarrow> change (remove r fd) fd ev = None"
  using look_change [OF inv_remove, of r fd fd ev] look_remove [of r fd] by simp

lemma change_registered:
  "inv r \<Longrightarrow> look r fd = Some (e0, cb) \<Longrightarrow>
   \<exists>r'. change r fd ev = Some r' \<and> look r' = (look r)(fd \<mapsto> (ev, cb))"
  using look_change [of r fd ev] by (cases "change r fd ev") auto

lemma replace_descriptor:
  assumes "inv r" "old \<noteq> new" "add (remove r old) new ev (Some cb) = Some r'"
  shows "look r' old = None" "look r' new = Some (ev, cb)" "inv r'"
    "fd \<noteq> old \<Longrightarrow> fd \<noteq> new \<Longrightarrow> look r' fd = look r fd"
  using assms look_add [OF inv_remove assms(3)] look_remove [OF assms(1), of old]
    inv_add [OF inv_remove assms(3)] by simp_all

end

interpretation loop_reg: fd_registry loop_inv loop_lookup loop_add loop_mod loop_remove
  by unfold_locales
    (fact loop_inv_add loop_inv_mod loop_inv_remove loop_lookup_add loop_lookup_mod
       loop_lookup_remove)+

section \<open>Dispatch facts\<close>

lemma collect_ready_registered:
  "(fd, ev) \<in> set (collect_ready l rd wr) \<Longrightarrow> loop_lookup l fd \<noteq> None \<and> ev \<noteq> 0"
  by (auto simp: collect_ready_def loop_lookup_None)

lemma collect_ready_distinct:
  "loop_inv l \<Longrightarrow> distinct (map fst (collect_ready l rd wr))"
proof -
  assume "loop_inv l"
  then have "distinct (map fst (map (\<lambda>e. (le_fd e, ready_events e rd wr)) l))"
    by (simp add: loop_inv_def comp_def)
  then show ?thesis
    unfolding collect_ready_def by (rule distinct_map_filter)
qed

lemma dispatch_stable_aux:
  assumes "\<And>cb fd ev s. reg (run cb fd ev s) = reg s"
  shows "loop_dispatch reg run rs s =
    fold (\<lambda>(fd, ev) s'. case loop_lookup (reg s) fd of None \<Rightarrow> s' | Some (_, cb) \<Rightarrow> run cb fd ev s') rs s"
proof (induction rs arbitrary: s)
  case Nil
  then show ?case by simp
next
  case (Cons r rs)
  obtain fd ev where r: "r = (fd, ev)" by (cases r)
  show ?case
  proof (cases "find_entry (reg s) fd")
    case None
    with Cons.IH [of s] show ?thesis by (simp add: r loop_lookup_def)
  next
    case (Some i)
    with Cons.IH [of "run (le_cb (reg s ! i)) fd ev s"] show ?thesis
      by (simp add: r loop_lookup_def assms)
  qed
qed

lemma dispatch_skip_aux:
  assumes "\<And>cb f ev s. find_entry (reg s) fd = None \<Longrightarrow> find_entry (reg (run cb f ev s)) fd = None"
    and "find_entry (reg s) fd = None"
  shows "loop_dispatch reg run rs s = loop_dispatch reg run (filter (\<lambda>r. fst r \<noteq> fd) rs) s"
  using assms(2)
  by (induction rs arbitrary: s) (auto split: option.splits simp: assms(1))

section \<open>Properties\<close>

text \<open>
  C22. The registry implements a finite map from descriptors to (events, callback): in a
  well-formed registry (distinct descriptors below FD_SETSIZE, at most 32), \<open>loop_add\<close>
  overwrites or inserts one key, \<open>loop_mod\<close> changes only the events of a registered key and
  fails on any other, \<open>loop_remove\<close> (which moves the last entry into the hole) deletes exactly
  that key, and all three keep the registry well formed.
\<close>

theorem loop_refines_map:
  assumes "loop_inv l"
  shows "(\<forall>l'. loop_add l fd ev (Some cb) = Some l' \<longrightarrow>
            loop_inv l' \<and> loop_lookup l' = (loop_lookup l)(fd \<mapsto> (ev, cb)))
         \<and> map_option loop_lookup (loop_mod l fd ev) =
             (case loop_lookup l fd of None \<Rightarrow> None
              | Some (_, c) \<Rightarrow> Some ((loop_lookup l)(fd \<mapsto> (ev, c))))
         \<and> loop_inv (loop_remove l fd) \<and> loop_lookup (loop_remove l fd) = (loop_lookup l)(fd := None)"
  by (intro conjI allI impI)
    (use assms in \<open>auto intro: loop_reg.inv_add loop_reg.inv_remove
       simp: loop_reg.look_add loop_reg.look_change loop_reg.look_remove\<close>)

theorem loop_refines_map_witness:
  "loop_lookup (loop_remove [\<lparr> le_fd = 3, le_events = 1, le_cb = ''a'' \<rparr>,
      \<lparr> le_fd = 4, le_events = 1, le_cb = ''b'' \<rparr>, \<lparr> le_fd = 9, le_events = 3, le_cb = ''c'' \<rparr>] 3)
   = (loop_lookup [\<lparr> le_fd = 3, le_events = 1, le_cb = ''a'' \<rparr>,
      \<lparr> le_fd = 4, le_events = 1, le_cb = ''b'' \<rparr>, \<lparr> le_fd = 9, le_events = 3, le_cb = ''c'' \<rparr>])(3 := None)"
proof -
  have "loop_inv [\<lparr> le_fd = 3, le_events = 1, le_cb = ''a'' \<rparr>,
      \<lparr> le_fd = 4, le_events = 1, le_cb = ''b'' \<rparr>, \<lparr> le_fd = 9, le_events = 3, le_cb = ''c'' \<rparr>]"
    by (simp add: loop_inv_def)
  from loop_refines_map [OF this] show ?thesis by blast
qed


definition demo_run :: "nat \<Rightarrow> int \<Rightarrow> u32 \<Rightarrow> nat acu_loop \<times> int list \<Rightarrow> nat acu_loop \<times> int list" where
  "demo_run cb fd ev s = (if cb = 1 then loop_remove (fst s) 7 else fst s, snd s @ [fd])"

lemma remove_keeps_absent: "find_entry l fd = None \<Longrightarrow> find_entry (loop_remove l x) fd = None"
proof -
  assume a: "find_entry l fd = None"
  have "set (loop_remove l x) \<subseteq> set l"
  proof (cases "find_entry l x")
    case None
    then show ?thesis by (simp add: loop_remove_def)
  next
    case (Some i)
    then have "l \<noteq> []" using find_entry_Some [OF Some] by auto
    then have "set (l[i := last l]) \<subseteq> set l" using set_update_subset_insert [of l i "last l"] by auto
    then show ?thesis using Some by (auto simp: loop_remove_def dest: in_set_butlastD)
  qed
  with a show ?thesis by (auto simp: find_entry_None)
qed


text \<open>
  When callbacks leave the registry alone, a round calls each ready registered
  descriptor exactly once, in registration order, with the events \<open>select\<close> reported for it
  and the callback it was registered with.
\<close>

theorem wait_calls_each_ready_once:
  assumes "\<And>c f e s. reg (run c f e s) = reg s" and "loop_inv (reg s)" and "reg s \<noteq> []"
    and "sel (loop_maxfd (reg s) + 1) (watch_set (reg s) 1) (watch_set (reg s) 2)
           (if t \<ge> 0 then Some t else None) = (rc, rd, wr)" and "0 < rc"
  shows "loop_wait reg run sel t s =
           (rc, fold (\<lambda>(fd, ev) s'. case loop_lookup (reg s) fd of None \<Rightarrow> s'
                                  | Some (_, cb) \<Rightarrow> run cb fd ev s') (collect_ready (reg s) rd wr) s)
         \<and> distinct (map fst (collect_ready (reg s) rd wr))
         \<and> (\<forall>(fd, ev) \<in> set (collect_ready (reg s) rd wr). loop_lookup (reg s) fd \<noteq> None \<and> ev \<noteq> 0)"
  using assms(2-5)
  by (auto simp: loop_wait_def dispatch_stable_aux [where reg = reg and run = run, OF assms(1)]
      collect_ready_distinct dest: collect_ready_registered)

definition demo_log :: "nat \<Rightarrow> int \<Rightarrow> u32 \<Rightarrow> nat acu_loop \<times> (int \<times> nat) list \<Rightarrow> nat acu_loop \<times> (int \<times> nat) list" where
  "demo_log cb fd ev s = (fst s, snd s @ [(fd, cb)])"

theorem wait_calls_each_ready_once_witness:
  "loop_wait fst demo_log (\<lambda>n r w t. (2, [9, 5], []))  (-1)
     ([\<lparr> le_fd = 5, le_events = 1, le_cb = 1 \<rparr>, \<lparr> le_fd = 7, le_events = 1, le_cb = 0 \<rparr>,
       \<lparr> le_fd = 9, le_events = 1, le_cb = 2 \<rparr>], [])
   = (2, ([\<lparr> le_fd = 5, le_events = 1, le_cb = 1 \<rparr>, \<lparr> le_fd = 7, le_events = 1, le_cb = 0 \<rparr>,
       \<lparr> le_fd = 9, le_events = 1, le_cb = 2 \<rparr>], [(5, 1), (9, 2)]))"
proof -
  let ?l = "[\<lparr> le_fd = 5, le_events = 1, le_cb = 1 \<rparr>, \<lparr> le_fd = 7, le_events = 1, le_cb = 0 \<rparr>,
       \<lparr> le_fd = 9, le_events = 1, le_cb = 2 \<rparr>] :: nat acu_loop"
  have inv: "loop_inv (fst (?l, [] :: (int \<times> nat) list))" by (simp add: loop_inv_def)
  have "loop_wait fst demo_log (\<lambda>n r w t. (2, [9, 5], [])) (-1) (?l, []) =
    (2, fold (\<lambda>(fd, ev) s'. case loop_lookup ?l fd of None \<Rightarrow> s'
            | Some (_, cb) \<Rightarrow> demo_log cb fd ev s') (collect_ready ?l [9, 5] []) (?l, []))"
    using wait_calls_each_ready_once [where reg = fst and run = demo_log and s = "(?l, [])"
        and sel = "\<lambda>n r w t. (2, [9, 5], [])" and t = "-1" and rc = 2 and rd = "[9, 5]" and wr = "[]"]
      inv by (simp add: demo_log_def)
  then show ?thesis
    by (simp add: collect_ready_def ready_events_def loop_lookup_def find_entry_def demo_log_def)
qed

end
