(* ===== verification/Sql_Rows.thy ===== *)
theory Sql_Rows
  imports Prelude
begin

text \<open>
  Rows of an SQLite table as the code writes and reads them: a prepared statement binds a list
  of values to a list of column names, a query returns the values of the columns it lists, by
  position. SQLite's own part is the documented meaning of the statements and of the
  \<open>sqlite3_bind_\<close> and \<open>sqlite3_column_\<close> calls. The interfaces \<open>row_codec\<close> and \<open>keyed_table\<close>
  say what a component needs of its columns; every component that stores records interprets them.
\<close>

section \<open>Values and columns\<close>

text \<open>The INTEGER of SQLite has 64 bits; what is bound comes from a C integer of at most that width.\<close>

datatype sql_value = Sql_null | Sql_int int | Sql_blob "byte list"

type_synonym sql_row = "string \<rightharpoonup> sql_value"

fun column_int64 :: "sql_value list \<Rightarrow> nat \<Rightarrow> int" where
  "column_int64 st i = (case st ! i of Sql_int v \<Rightarrow> v | _ \<Rightarrow> 0)"

text \<open>\<open>sqlite3_column_int\<close> is the low half.\<close>

definition column_int :: "sql_value list \<Rightarrow> nat \<Rightarrow> u32" where
  "column_int st i = word_of_int (column_int64 st i)"

fun column_blob :: "sql_value list \<Rightarrow> nat \<Rightarrow> byte list" where
  "column_blob st i = (case st ! i of Sql_blob b \<Rightarrow> b | _ \<Rightarrow> [])"

definition column_blob_fixed :: "sql_value list \<Rightarrow> nat \<Rightarrow> nat \<Rightarrow> byte list" where
  "column_blob_fixed st i out_len = blob_fixed out_len (column_blob st i)"

section \<open>Statements\<close>

definition sql_values :: "string list \<Rightarrow> sql_value list \<Rightarrow> sql_row" where
  "sql_values cols vals = map_of (zip cols vals)"

definition sql_column :: "sql_row \<Rightarrow> string \<Rightarrow> sql_value" where
  "sql_column row c = (case row c of None \<Rightarrow> Sql_null | Some v \<Rightarrow> v)"

definition sql_select :: "string list \<Rightarrow> sql_row \<Rightarrow> sql_value list" where
  "sql_select cols row = map (sql_column row) cols"

text \<open>\<open>INSERT OR REPLACE\<close>, \<open>DELETE ... WHERE k = ?\<close>, \<open>SELECT ... WHERE k = ?\<close>\<close>

definition sql_replace :: "string \<Rightarrow> sql_row \<Rightarrow> sql_row list \<Rightarrow> sql_row list" where
  "sql_replace k row rows = filter (\<lambda>r. sql_column r k \<noteq> sql_column row k) rows @ [row]"

definition sql_delete_where :: "string \<Rightarrow> sql_value \<Rightarrow> sql_row list \<Rightarrow> sql_row list" where
  "sql_delete_where k v rows = filter (\<lambda>r. sql_column r k \<noteq> v) rows"

definition sql_select_where :: "string list \<Rightarrow> string \<Rightarrow> sql_value \<Rightarrow> sql_row list \<Rightarrow> sql_value list list" where
  "sql_select_where cols k v rows = map (sql_select cols) (filter (\<lambda>r. sql_column r k = v) rows)"

text \<open>A column of a join is named with its table; a missing right side has no columns.\<close>

definition sql_qualify :: "string \<Rightarrow> sql_row \<Rightarrow> sql_row" where
  "sql_qualify t row q = (if take (Suc (length t)) q = t @ ''.'' then row (drop (Suc (length t)) q) else None)"

lemma sql_select_values:
  assumes "distinct cols" "length vals = length cols"
  shows "sql_select cols (sql_values cols vals) = vals"
proof (rule nth_equalityI)
  show "length (sql_select cols (sql_values cols vals)) = length vals" using assms by (simp add: sql_select_def)
  fix i assume "i < length (sql_select cols (sql_values cols vals))"
  then have i: "i < length cols" by (simp add: sql_select_def)
  have "map_of (zip cols vals) (cols ! i) = Some (vals ! i)"
    using assms i by (intro map_of_is_SomeI) (auto simp: in_set_zip)
  then show "sql_select cols (sql_values cols vals) ! i = vals ! i"
    using i by (simp add: sql_select_def sql_values_def sql_column_def)
qed

lemma sql_qualify_column: "sql_qualify t row (t @ ''.'' @ c) = row c"
  by (simp add: sql_qualify_def)

lemma narrow_byte [simp]: "ucast (ucast (b :: byte) :: u32) = b"
  by (rule bit_word_eqI) (simp add: bit_simps)

lemma narrow_u16 [simp]: "ucast (ucast (b :: u16) :: u32) = b"
  by (rule bit_word_eqI) (simp add: bit_simps)

section \<open>Records as rows\<close>

locale row_codec =
  fixes cols :: "string list"
    and bindings :: "'a \<Rightarrow> sql_value list"
    and read_cols :: "sql_value list \<Rightarrow> 'a"
    and wf :: "'a \<Rightarrow> bool"
  assumes cols_distinct: "distinct cols"
    and cols_bound: "length (bindings x) = length cols"
    and read_bindings: "wf x \<Longrightarrow> read_cols (bindings x) = x"
begin

lemma row_columns: "sql_select cols (sql_values cols (bindings x)) = bindings x"
  using cols_distinct cols_bound by (rule sql_select_values)

lemma read_row: "wf x \<Longrightarrow> read_cols (sql_select cols (sql_values cols (bindings x))) = x"
  by (simp add: row_columns read_bindings)

end

text \<open>A table whose rows are told apart by one column, which the record determines.\<close>

locale keyed_table = row_codec +
  fixes keycol :: string
    and key :: "'a \<Rightarrow> 'k"
    and keyval :: "'k \<Rightarrow> sql_value"
  assumes key_column: "sql_column (sql_values cols (bindings x)) keycol = keyval (key x)"
    and keyval_inject: "keyval i = keyval j \<longleftrightarrow> i = j"
begin

lemma replace_rows:
  "sql_replace keycol (sql_values cols (bindings r)) (map (\<lambda>x. sql_values cols (bindings x)) xs) =
    map (\<lambda>x. sql_values cols (bindings x)) (filter (\<lambda>x. key x \<noteq> key r) xs @ [r])"
  by (simp add: sql_replace_def filter_map comp_def key_column keyval_inject)

lemma delete_rows:
  "sql_delete_where keycol (keyval i) (map (\<lambda>x. sql_values cols (bindings x)) xs) =
    map (\<lambda>x. sql_values cols (bindings x)) (filter (\<lambda>x. key x \<noteq> i) xs)"
  by (simp add: sql_delete_where_def filter_map comp_def key_column keyval_inject)

lemma select_rows:
  assumes "\<forall>x \<in> set xs. wf x"
  shows "map read_cols (sql_select_where cols keycol (keyval i) (map (\<lambda>x. sql_values cols (bindings x)) xs)) =
    filter (\<lambda>x. key x = i) xs"
  using assms by (induction xs) (auto simp: sql_select_where_def key_column keyval_inject read_row)

end

end
