(* ===== verification/Event_Store.thy ===== *)
theory Event_Store
  imports Sql_Rows
begin

text \<open>
  The event store of \<open>acud/events.c\<close>: an SQLite file with a read position, or a ring of
  512 events in memory when the file cannot be used. The SQL statements of the source are
  translated to list operations on the table (\<open>db_rows\<close>, in row order), the AUTOINCREMENT
  counter and the stored read position. Which statements of a call succeed is an argument
  (\<open>ok\<close>); a failing statement changes nothing, as the source assumes. Row numbers are
  natural numbers: AUTOINCREMENT starts at 1 and every value the code writes to the read
  position is a row number, a row number minus 1, or 0. Log lines are not modelled.
\<close>

abbreviation (input) EVENTS_DEFAULT_CAPACITY :: nat where "EVENTS_DEFAULT_CAPACITY \<equiv> 10000000"
abbreviation (input) EVENTS_TRIM_SLACK :: nat where "EVENTS_TRIM_SLACK \<equiv> 1000"
abbreviation (input) EVENTS_MEMORY_CAP :: nat where "EVENTS_MEMORY_CAP \<equiv> 512"

section \<open>Data\<close>

record acu_event =
  e_seq :: nat
  e_event_code :: u32
  e_op_mode :: byte
  e_module_addr :: byte
  e_reader_addr :: byte
  e_door_status :: byte
  e_func_code :: byte
  e_ts :: int
  e_id :: "byte list"

definition zero_event :: acu_event where
  "zero_event = \<lparr> e_seq = 0, e_event_code = 0, e_op_mode = 0, e_module_addr = 0,
     e_reader_addr = 0, e_door_status = 0, e_func_code = 0, e_ts = 0, e_id = zeros 8 \<rparr>"

text \<open>The tables \<open>events\<close> (with its \<open>sqlite_sequence\<close> entry) and \<open>event_state\<close>.\<close>

record events_db =
  db_rows :: "acu_event list"
  db_autoinc :: nat
  db_sent :: nat

record acu_events =
  ev_db :: "events_db option"
  ev_capacity :: nat
  ev_next_trim :: nat
  ev_mem :: "nat \<Rightarrow> acu_event"
  ev_mem_head :: nat
  ev_mem_count :: nat
  ev_mem_next_seq :: nat

datatype ev_stmt =
  St_append | St_fetch | St_ack | St_min | St_max | St_sent | Sql_trim | Sql_set_sent | Sql_min_ts

type_synonym ev_ok = "ev_stmt \<Rightarrow> bool"

section \<open>The SQL statements\<close>

text \<open>\<open>INSERT INTO events(...)\<close> with \<open>seq INTEGER PRIMARY KEY AUTOINCREMENT\<close>.\<close>

definition sql_next_seq :: "events_db \<Rightarrow> nat" where
  "sql_next_seq db = Suc (foldr max (map e_seq (db_rows db)) (db_autoinc db))"

definition sql_insert_event :: "acu_event \<Rightarrow> events_db \<Rightarrow> events_db" where
  "sql_insert_event e db =
    db\<lparr> db_rows := db_rows db @ [e\<lparr> e_seq := sql_next_seq db \<rparr>], db_autoinc := sql_next_seq db \<rparr>"

text \<open>\<open>SELECT ... WHERE seq > (sent_seq) ORDER BY seq LIMIT ?\<close>\<close>

definition sql_fetch :: "nat \<Rightarrow> events_db \<Rightarrow> acu_event list" where
  "sql_fetch n db = take n (filter (\<lambda>e. db_sent db < e_seq e) (sort_key e_seq (db_rows db)))"

definition sql_min :: "events_db \<Rightarrow> nat option" where
  "sql_min db = (if db_rows db = [] then None else Some (Min (set (map e_seq (db_rows db)))))"

definition sql_max :: "events_db \<Rightarrow> nat option" where
  "sql_max db = (if db_rows db = [] then None else Some (Max (set (map e_seq (db_rows db)))))"

definition sql_min_ts :: "int \<Rightarrow> events_db \<Rightarrow> nat option" where
  "sql_min_ts from_t db =
    (let rs = filter (\<lambda>e. from_t \<le> e_ts e) (db_rows db)
     in if rs = [] then None else Some (Min (set (map e_seq rs))))"

definition sql_delete_below :: "nat \<Rightarrow> events_db \<Rightarrow> events_db" where
  "sql_delete_below lim db = db\<lparr> db_rows := filter (\<lambda>e. lim \<le> e_seq e) (db_rows db) \<rparr>"

definition sql_ack :: "nat \<Rightarrow> events_db \<Rightarrow> events_db" where
  "sql_ack v db = (if db_sent db < v then db\<lparr> db_sent := v \<rparr> else db)"

section \<open>Operations\<close>

text \<open>\<open>scalar_with\<close>: the default when the statement fails or yields NULL.\<close>

definition scalar_with :: "ev_ok \<Rightarrow> ev_stmt \<Rightarrow> nat option \<Rightarrow> nat \<Rightarrow> nat" where
  "scalar_with ok st q def = (if ok st then (case q of None \<Rightarrow> def | Some v \<Rightarrow> v) else def)"

definition switch_to_memory :: "acu_events \<Rightarrow> acu_events" where
  "switch_to_memory ev = ev\<lparr> ev_db := None \<rparr>"

definition mem_push :: "acu_events \<Rightarrow> acu_event \<Rightarrow> acu_events" where
  "mem_push ev e =
    (let ev1 = (if ev_mem_count ev = EVENTS_MEMORY_CAP
                then ev\<lparr> ev_mem_head := (ev_mem_head ev + 1) mod EVENTS_MEMORY_CAP,
                        ev_mem_count := ev_mem_count ev - 1 \<rparr>
                else ev);
         idx = (ev_mem_head ev1 + ev_mem_count ev1) mod EVENTS_MEMORY_CAP
     in ev1\<lparr> ev_mem := (ev_mem ev1)(idx := e\<lparr> e_seq := ev_mem_next_seq ev1 \<rparr>),
             ev_mem_next_seq := ev_mem_next_seq ev1 + 1,
             ev_mem_count := ev_mem_count ev1 + 1 \<rparr>)"

text \<open>Counts are \<open>long long\<close>: integers.\<close>

definition events_total :: "ev_ok \<Rightarrow> acu_events \<Rightarrow> int" where
  "events_total ok ev =
    (case ev_db ev of
       None \<Rightarrow> int (ev_mem_count ev)
     | Some db \<Rightarrow>
         let max_seq = scalar_with ok St_max (sql_max db) 0
         in if max_seq = 0 then 0
            else int max_seq - int (scalar_with ok St_min (sql_min db) 1) + 1)"

definition events_pending :: "ev_ok \<Rightarrow> acu_events \<Rightarrow> int" where
  "events_pending ok ev =
    (case ev_db ev of
       None \<Rightarrow> int (ev_mem_count ev)
     | Some db \<Rightarrow>
         let max_seq = scalar_with ok St_max (sql_max db) 0
         in if max_seq = 0 then 0
            else
              let min_seq = int (scalar_with ok St_min (sql_min db) 1);
                  sent = int (scalar_with ok St_sent (Some (db_sent db)) 0);
                  sent = (if sent < min_seq - 1 then min_seq - 1 else sent);
                  pending = int max_seq - sent
              in if pending > 0 then pending else 0)"

text \<open>The boolean is the return value 0 (True) or -1 (False).\<close>

definition set_sent_seq :: "ev_ok \<Rightarrow> acu_events \<Rightarrow> nat \<Rightarrow> bool \<times> acu_events" where
  "set_sent_seq ok ev v =
    (case ev_db ev of
       None \<Rightarrow> (False, ev)
     | Some db \<Rightarrow> if ok Sql_set_sent then (True, ev\<lparr> ev_db := Some (db\<lparr> db_sent := v \<rparr>) \<rparr>)
                  else (False, ev))"

definition events_repair_index :: "ev_ok \<Rightarrow> acu_events \<Rightarrow> int \<times> acu_events" where
  "events_repair_index ok ev =
    (case ev_db ev of
       None \<Rightarrow> (0, ev)
     | Some db \<Rightarrow>
         let max_seq = scalar_with ok St_max (sql_max db) 0;
             sent = scalar_with ok St_sent (Some (db_sent db)) 0
         in if sent \<le> max_seq then (0, ev)
            else let (r, ev') = set_sent_seq ok ev max_seq in (if r then 1 else -1, ev'))"

definition trim_if_needed :: "ev_ok \<Rightarrow> acu_events \<Rightarrow> acu_events" where
  "trim_if_needed ok ev =
    (let total = events_total ok ev
     in if total \<le> int (ev_capacity ev) then ev
        else case ev_db ev of
               None \<Rightarrow> ev
             | Some db \<Rightarrow>
                 let excess = total - int (ev_capacity ev);
                     min_seq = int (scalar_with ok St_min (sql_min db) 1);
                     lim = min_seq + excess
                 in if ok Sql_trim then ev\<lparr> ev_db := Some (sql_delete_below (nat lim) db) \<rparr> else ev)"

definition events_append :: "ev_ok \<Rightarrow> acu_events \<Rightarrow> acu_event \<Rightarrow> bool \<times> acu_events" where
  "events_append ok ev e =
    (case ev_db ev of
       None \<Rightarrow> (True, mem_push ev e)
     | Some _ \<Rightarrow>
         let ev1 = snd (events_repair_index ok ev)
         in case ev_db ev1 of
              None \<Rightarrow> (False, ev1)
            | Some db \<Rightarrow>
                if \<not> ok St_append then (False, ev1)
                else
                  let ev2 = ev1\<lparr> ev_db := Some (sql_insert_event e db) \<rparr>;
                      rowid = sql_next_seq db
                  in if rowid \<ge> ev_next_trim ev2
                     then (True, (trim_if_needed ok ev2)\<lparr> ev_next_trim := rowid + EVENTS_TRIM_SLACK \<rparr>)
                     else (True, ev2))"

text \<open>The columns of \<open>st_append\<close>, the values bound to them, and the row, which has its number besides.\<close>

definition EVENTS_COLUMNS :: "string list" where
  "EVENTS_COLUMNS = [''event_code'', ''op_mode'', ''module_addr'', ''reader_addr'', ''door_status'',
     ''func_code'', ''ts'', ''access_id'']"

definition bind_event :: "acu_event \<Rightarrow> sql_value list" where
  "bind_event e = [Sql_int (uint (e_event_code e)), Sql_int (uint (e_op_mode e)), Sql_int (uint (e_module_addr e)),
     Sql_int (uint (e_reader_addr e)), Sql_int (uint (e_door_status e)), Sql_int (uint (e_func_code e)),
     Sql_int (e_ts e), Sql_blob (e_id e)]"

definition event_row :: "acu_event \<Rightarrow> sql_row" where
  "event_row e = (sql_values EVENTS_COLUMNS (bind_event e))(''seq'' \<mapsto> Sql_int (int (e_seq e)))"

text \<open>What \<open>events_fetch\<close> takes from a row of \<open>st_fetch\<close>, which lists the number first.\<close>

definition read_event :: "sql_value list \<Rightarrow> acu_event" where
  "read_event st =
    \<lparr> e_seq = nat (column_int64 st 0), e_event_code = word_of_int (column_int64 st 1),
      e_op_mode = ucast (column_int st 2), e_module_addr = ucast (column_int st 3),
      e_reader_addr = ucast (column_int st 4), e_door_status = ucast (column_int st 5),
      e_func_code = ucast (column_int st 6), e_ts = column_int64 st 7, e_id = column_blob_fixed st 8 8 \<rparr>"

definition read_event_row :: "acu_event \<Rightarrow> acu_event" where
  "read_event_row e = read_event (sql_select (''seq'' # EVENTS_COLUMNS) (event_row e))"

lemma event_row_columns: "sql_select (''seq'' # EVENTS_COLUMNS) (event_row e) = Sql_int (int (e_seq e)) # bind_event e"
proof -
  have "sql_select EVENTS_COLUMNS (event_row e) = sql_select EVENTS_COLUMNS (sql_values EVENTS_COLUMNS (bind_event e))"
    by (simp add: sql_select_def sql_column_def event_row_def EVENTS_COLUMNS_def)
  also have "\<dots> = bind_event e" by (rule sql_select_values) (simp_all add: EVENTS_COLUMNS_def bind_event_def)
  finally show ?thesis by (simp add: sql_select_def sql_column_def event_row_def)
qed

lemma read_event_row_eq: "read_event_row e = e\<lparr> e_id := blob_fixed 8 (e_id e) \<rparr>"
  by (cases e) (simp add: read_event_row_def event_row_columns read_event_def bind_event_def column_int_def column_blob_fixed_def)

text \<open>
  \<open>events_fetch\<close> calls itself once more when the position had to be repaired. \<open>None\<close> is
  the return value -1, \<open>Some xs\<close> the events written to \<open>out\<close>.
\<close>

function events_fetch :: "ev_ok \<Rightarrow> acu_events \<Rightarrow> int \<Rightarrow> acu_event list option \<times> acu_events" where
  "events_fetch ok ev mx =
    (if mx \<le> 0 then (None, ev)
     else case ev_db ev of
            None \<Rightarrow>
              (Some (map (\<lambda>i. ev_mem ev ((ev_mem_head ev + i) mod EVENTS_MEMORY_CAP))
                      [0..<min (ev_mem_count ev) (nat mx)]), ev)
          | Some db \<Rightarrow>
              let rows = (if ok St_fetch then map read_event_row (sql_fetch (nat mx) db) else [])
              in if rows = []
                 then let r = events_repair_index ok ev
                      in if fst r = 1 then events_fetch ok (snd r) mx else (Some [], snd r)
                 else (Some rows, ev))"
  by pat_completeness auto

text \<open>The columns of an event carry it whole.\<close>

interpretation event_codec: row_codec "''seq'' # EVENTS_COLUMNS" "\<lambda>e. Sql_int (int (e_seq e)) # bind_event e"
  read_event "\<lambda>e. length (e_id e) = 8"
proof unfold_locales
  show "length (e_id e) = 8 \<Longrightarrow> read_event (Sql_int (int (e_seq e)) # bind_event e) = e" for e
    using read_event_row_eq [of e] by (simp add: read_event_row_def event_row_columns)
qed (simp_all add: EVENTS_COLUMNS_def bind_event_def)

definition index_ahead :: "ev_ok \<Rightarrow> acu_events \<Rightarrow> bool" where
  "index_ahead ok ev =
    (case ev_db ev of
       None \<Rightarrow> False
     | Some db \<Rightarrow> scalar_with ok St_max (sql_max db) 0 < scalar_with ok St_sent (Some (db_sent db)) 0)"

lemma sql_max_sent [simp]: "sql_max (db\<lparr> db_sent := v \<rparr>) = sql_max db"
  by (simp add: sql_max_def)

lemma repair_not_ahead: "fst (events_repair_index ok ev) = 1 \<Longrightarrow>
    index_ahead ok ev \<and> \<not> index_ahead ok (snd (events_repair_index ok ev))"
  by (auto simp: events_repair_index_def set_sent_seq_def index_ahead_def scalar_with_def Let_def
      split: option.splits if_splits prod.splits)

termination events_fetch
proof (relation "measure (\<lambda>(ok, ev, mx). if index_ahead ok ev then 1 else 0)")
  show "wf (measure (\<lambda>(ok, ev, mx). if index_ahead ok ev then 1 else 0))" by simp
next
  fix ok ev mx db rows r
  assume "r = events_repair_index ok ev" "fst r = 1"
  then show "((ok, snd r, mx), ok, ev, mx) \<in> measure (\<lambda>(ok, ev, mx). if index_ahead ok ev then 1 else 0)"
    using repair_not_ahead [of ok ev] by simp
qed

declare events_fetch.simps [simp del]

definition events_ack :: "ev_ok \<Rightarrow> acu_events \<Rightarrow> nat \<Rightarrow> bool \<times> acu_events" where
  "events_ack ok ev upto_seq =
    (if upto_seq = 0 then (False, ev)
     else case ev_db ev of
            None \<Rightarrow>
              let k = length (takeWhile (\<lambda>i. e_seq (ev_mem ev ((ev_mem_head ev + i) mod EVENTS_MEMORY_CAP)) \<le> upto_seq)
                                [0..<ev_mem_count ev])
              in (True, ev\<lparr> ev_mem_head := (ev_mem_head ev + k) mod EVENTS_MEMORY_CAP,
                           ev_mem_count := ev_mem_count ev - k \<rparr>)
          | Some db \<Rightarrow>
              if ok St_ack then (True, ev\<lparr> ev_db := Some (sql_ack upto_seq db) \<rparr>) else (False, ev))"

definition events_rewind_to_time :: "ev_ok \<Rightarrow> acu_events \<Rightarrow> int \<Rightarrow> int \<times> acu_events" where
  "events_rewind_to_time ok ev from_t =
    (case ev_db ev of
       None \<Rightarrow> (-1, ev)
     | Some db \<Rightarrow>
         let first = scalar_with ok Sql_min_ts (sql_min_ts from_t db) 0;
             max_seq = scalar_with ok St_max (sql_max db) 0;
             target = (if first > 0 then first - 1 else max_seq);
             (r, ev') = set_sent_seq ok ev target
         in if r then (int max_seq - int target, ev') else (-1, ev'))"

definition events_rewind_to_seq :: "ev_ok \<Rightarrow> acu_events \<Rightarrow> nat \<Rightarrow> bool \<times> acu_events" where
  "events_rewind_to_seq ok ev first_seq =
    (case ev_db ev of
       None \<Rightarrow> (False, ev)
     | Some db \<Rightarrow>
         if first_seq = 0 then (False, ev)
         else
           let sent = scalar_with ok St_sent (Some (db_sent db)) 0;
               target = first_seq - 1
           in if target \<ge> sent then (True, ev) else set_sent_seq ok ev target)"

definition events_mark_all_sent :: "ev_ok \<Rightarrow> acu_events \<Rightarrow> bool \<times> acu_events" where
  "events_mark_all_sent ok ev =
    (case ev_db ev of
       None \<Rightarrow> (True, ev\<lparr> ev_mem_head := 0, ev_mem_count := 0 \<rparr>)
     | Some db \<Rightarrow> set_sent_seq ok ev (scalar_with ok St_max (sql_max db) 0))"

definition events_is_memory_only :: "acu_events \<Rightarrow> bool" where
  "events_is_memory_only ev = (ev_db ev = None)"

text \<open>
  Opening the file: the steps of \<open>sqlite3_open\<close>, the schema and the six prepared statements
  either all succeed and give the stored tables, or the store runs in memory. A failing
  PRAGMA is only logged.
\<close>

datatype open_outcome = Open_failed | Schema_failed | Prepare_failed | Opened events_db

definition events_open :: "ev_ok \<Rightarrow> string \<Rightarrow> int \<Rightarrow> open_outcome \<Rightarrow> acu_events" where
  "events_open ok path capacity outcome =
    (let cap = (if capacity > 0 then nat capacity else EVENTS_DEFAULT_CAPACITY);
         ev = \<lparr> ev_db = None, ev_capacity = cap, ev_next_trim = cap + EVENTS_TRIM_SLACK,
                ev_mem = (\<lambda>_. zero_event), ev_mem_head = 0, ev_mem_count = 0, ev_mem_next_seq = 1 \<rparr>
     in if path = [] then switch_to_memory ev
        else case outcome of
               Open_failed \<Rightarrow> switch_to_memory ev
             | Schema_failed \<Rightarrow> switch_to_memory ev
             | Prepare_failed \<Rightarrow> switch_to_memory ev
             | Opened db \<Rightarrow> snd (events_repair_index ok (ev\<lparr> ev_db := Some db \<rparr>)))"

section \<open>Invariant and the pending list\<close>

text \<open>
  The rows carry consecutive numbers ending at the AUTOINCREMENT counter (rows are only
  deleted from the front), and the ring holds consecutive numbers ending at \<open>mem_next_seq\<close>.
\<close>

definition db_inv :: "events_db \<Rightarrow> bool" where
  "db_inv db \<longleftrightarrow> length (db_rows db) \<le> db_autoinc db
     \<and> map e_seq (db_rows db) = [Suc (db_autoinc db) - length (db_rows db) ..< Suc (db_autoinc db)]
     \<and> (\<forall>e \<in> set (db_rows db). length (e_id e) = 8)"

definition mem_view :: "acu_events \<Rightarrow> acu_event list" where
  "mem_view ev = map (\<lambda>i. ev_mem ev ((ev_mem_head ev + i) mod EVENTS_MEMORY_CAP)) [0..<ev_mem_count ev]"

definition mem_inv :: "acu_events \<Rightarrow> bool" where
  "mem_inv ev \<longleftrightarrow> ev_mem_head ev < EVENTS_MEMORY_CAP \<and> ev_mem_count ev \<le> EVENTS_MEMORY_CAP
     \<and> ev_mem_count ev < ev_mem_next_seq ev
     \<and> map e_seq (mem_view ev) = [ev_mem_next_seq ev - ev_mem_count ev ..< ev_mem_next_seq ev]"

definition ev_inv :: "acu_events \<Rightarrow> bool" where
  "ev_inv ev \<longleftrightarrow> 0 < ev_capacity ev \<and> (case ev_db ev of None \<Rightarrow> mem_inv ev | Some db \<Rightarrow> db_inv db)"

definition pending_list :: "acu_events \<Rightarrow> acu_event list" where
  "pending_list ev =
    (case ev_db ev of
       None \<Rightarrow> mem_view ev
     | Some db \<Rightarrow> filter (\<lambda>e. db_sent db < e_seq e) (db_rows db))"

definition stored_list :: "acu_events \<Rightarrow> acu_event list" where
  "stored_list ev = (case ev_db ev of None \<Rightarrow> mem_view ev | Some db \<Rightarrow> db_rows db)"

definition all_ok :: ev_ok where
  "all_ok st = True"

lemma scalar_all_ok [simp]: "scalar_with all_ok st q d = (case q of None \<Rightarrow> d | Some v \<Rightarrow> v)"
  by (simp add: scalar_with_def all_ok_def)

lemma all_ok_True [simp]: "all_ok st"
  by (simp add: all_ok_def)

lemma db_inv_sorted: "db_inv db \<Longrightarrow> sorted_wrt (<) (map e_seq (db_rows db))"
  unfolding db_inv_def by (metis sorted_wrt_upt)

lemma db_inv_seq: "db_inv db \<Longrightarrow> e \<in> set (db_rows db) \<Longrightarrow> 0 < e_seq e \<and> e_seq e \<le> db_autoinc db"
proof -
  assume "db_inv db" "e \<in> set (db_rows db)"
  then have "e_seq e \<in> set [Suc (db_autoinc db) - length (db_rows db) ..< Suc (db_autoinc db)]"
    and "length (db_rows db) \<le> db_autoinc db"
    by (metis db_inv_def image_eqI list.set_map, simp add: db_inv_def)
  then show ?thesis by auto
qed

lemma sort_rows [simp]: "db_inv db \<Longrightarrow> sort_key e_seq (db_rows db) = db_rows db"
  by (rule sort_key_id_if_sorted) (rule strict_sorted_imp_sorted [OF db_inv_sorted])

lemma seq_set: "db_inv db \<Longrightarrow>
    e_seq ` set (db_rows db) = {Suc (db_autoinc db) - length (db_rows db) ..< Suc (db_autoinc db)}"
  by (metis db_inv_def list.set_map set_upt)

lemma sql_max_inv: "db_inv db \<Longrightarrow>
    sql_max db = (if db_rows db = [] then None else Some (db_autoinc db))"
proof -
  assume inv: "db_inv db"
  have "Max {a ..< Suc b} = b" if "a \<le> b" for a b :: nat
    using that by (intro Max_eqI) auto
  moreover have "db_rows db \<noteq> [] \<Longrightarrow> Suc (db_autoinc db) - length (db_rows db) \<le> db_autoinc db"
    by (cases "db_rows db") auto
  ultimately show ?thesis using inv by (simp add: sql_max_def seq_set)
qed

lemma sql_min_inv: "db_inv db \<Longrightarrow>
    sql_min db = (if db_rows db = [] then None
                  else Some (Suc (db_autoinc db) - length (db_rows db)))"
proof -
  assume inv: "db_inv db"
  have "Min {a ..< Suc b} = a" if "a \<le> b" for a b :: nat
    using that by (intro Min_eqI) auto
  moreover have "db_rows db \<noteq> [] \<Longrightarrow> Suc (db_autoinc db) - length (db_rows db) \<le> db_autoinc db"
    by (cases "db_rows db") auto
  ultimately show ?thesis using inv by (simp add: sql_min_def seq_set)
qed

lemma foldr_max_le: "\<forall>x \<in> set xs. x \<le> (m :: nat) \<Longrightarrow> foldr max xs m = m"
  by (induction xs) auto

lemma sql_next_seq_inv [simp]: "db_inv db \<Longrightarrow> sql_next_seq db = Suc (db_autoinc db)"
  by (simp add: sql_next_seq_def foldr_max_le db_inv_seq)

lemma db_inv_sent [simp]: "db_inv (db\<lparr> db_sent := v \<rparr>) = db_inv db"
  by (simp add: db_inv_def)

lemma db_inv_insert:
  assumes inv: "db_inv db" and e: "length (e_id e) = 8"
  shows "db_inv (sql_insert_event e db)"
proof -
  let ?n = "length (db_rows db)" and ?a = "db_autoinc db"
  have "?n \<le> ?a" "map e_seq (db_rows db) = [Suc ?a - ?n ..< Suc ?a]"
    using inv unfolding db_inv_def by blast+
  then have "map e_seq (db_rows db) @ [Suc ?a] = [Suc (Suc ?a) - Suc ?n ..< Suc (Suc ?a)]"
    by simp
  with inv e show ?thesis
    by (auto simp: db_inv_def sql_insert_event_def sql_next_seq_inv [OF inv] simp del: upt_Suc)
qed

lemma filter_le_upt: "filter (\<lambda>x. lim \<le> x) [a..<b] = [max a lim..<b]"
  by (induction b) (auto simp: max_def)

lemma db_inv_delete: "db_inv db \<Longrightarrow> db_inv (sql_delete_below lim db)"
proof -
  assume inv: "db_inv db"
  let ?r = "filter (\<lambda>e. lim \<le> e_seq e) (db_rows db)"
  let ?a = "Suc (db_autoinc db) - length (db_rows db)"
  have seqs: "map e_seq ?r = [max ?a lim ..< Suc (db_autoinc db)]"
  proof -
    have "map e_seq ?r = filter (\<lambda>x. lim \<le> x) (map e_seq (db_rows db))"
      by (simp add: filter_map comp_def)
    also have "map e_seq (db_rows db) = [?a ..< Suc (db_autoinc db)]"
      using inv unfolding db_inv_def by blast
    finally show ?thesis by (simp only: filter_le_upt)
  qed
  then have "length ?r = Suc (db_autoinc db) - max ?a lim"
    by (metis length_map length_upt)
  moreover have "[max ?a lim ..< Suc (db_autoinc db)]
      = [Suc (db_autoinc db) - (Suc (db_autoinc db) - max ?a lim) ..< Suc (db_autoinc db)]"
    by (cases "max ?a lim \<le> Suc (db_autoinc db)") (simp_all del: upt_Suc)
  ultimately show ?thesis using seqs inv
    by (auto simp: db_inv_def sql_delete_below_def simp del: upt_Suc)
qed

section \<open>The operations in database mode\<close>

definition write_pos :: "events_db \<Rightarrow> nat" where
  "write_pos db = (case sql_max db of None \<Rightarrow> 0 | Some v \<Rightarrow> v)"

lemma write_pos_sent [simp]: "write_pos (db\<lparr> db_sent := v \<rparr>) = write_pos db"
  by (simp add: write_pos_def)

lemma rows_le_write_pos: "db_inv db \<Longrightarrow> e \<in> set (db_rows db) \<Longrightarrow> e_seq e \<le> write_pos db"
  by (auto simp: write_pos_def sql_max_inv dest: db_inv_seq)

lemma write_pos_le_autoinc: "db_inv db \<Longrightarrow> write_pos db \<le> db_autoinc db"
  by (simp add: write_pos_def sql_max_inv)

text \<open>The repaired read position: never ahead of the newest row.\<close>

lemma repair_db:
  "ev_db ev = Some db \<Longrightarrow>
    events_repair_index all_ok ev
      = (if db_sent db \<le> write_pos db then 0 else 1,
         ev\<lparr> ev_db := Some (db\<lparr> db_sent := min (db_sent db) (write_pos db) \<rparr>) \<rparr>)"
  by (cases ev; cases db) (auto simp: events_repair_index_def set_sent_seq_def write_pos_def Let_def min_def)

lemma total_db:
  assumes "ev_db ev = Some db" "db_inv db"
  shows "events_total all_ok ev = int (length (db_rows db))"
proof -
  have "length (db_rows db) \<le> db_autoinc db" using assms(2) by (simp add: db_inv_def)
  then show ?thesis using assms
    by (cases "db_rows db") (auto simp: events_total_def Let_def sql_max_inv sql_min_inv)
qed

lemma trim_db:
  assumes ev: "ev_db ev = Some db" and inv: "db_inv db" and cap: "0 < ev_capacity ev"
  shows "\<exists>db'. trim_if_needed all_ok ev = ev\<lparr> ev_db := Some db' \<rparr> \<and> db_inv db'
    \<and> db_sent db' = db_sent db \<and> db_autoinc db' = db_autoinc db
    \<and> db_rows db' = drop (length (db_rows db) - ev_capacity ev) (db_rows db)"
proof (cases "length (db_rows db) \<le> ev_capacity ev")
  case True
  then have "trim_if_needed all_ok ev = ev"
    by (simp add: trim_if_needed_def total_db [OF ev inv])
  moreover have "ev\<lparr> ev_db := Some db \<rparr> = ev" using ev by (cases ev) simp
  ultimately show ?thesis using True inv by (intro exI [of _ db]) simp
next
  case False
  let ?n = "length (db_rows db)" and ?a = "db_autoinc db"
  let ?lim = "Suc ?a - ev_capacity ev"
  have n: "?n \<le> ?a" "db_rows db \<noteq> []" using inv False by (auto simp: db_inv_def)
  have "nat (int (Suc ?a - ?n) + (int ?n - int (ev_capacity ev))) = ?lim"
    using n False by (simp add: of_nat_diff)
  then have trim: "trim_if_needed all_ok ev = ev\<lparr> ev_db := Some (sql_delete_below ?lim db) \<rparr>"
    using False ev n by (simp add: trim_if_needed_def total_db [OF ev inv] Let_def sql_min_inv [OF inv])
  let ?k = "?n - ev_capacity ev"
  have k: "?k < ?n" "e_seq (db_rows db ! ?k) = ?lim"
  proof -
    show "?k < ?n" using cap n by simp
    then have "e_seq (db_rows db ! ?k) = map e_seq (db_rows db) ! ?k" by simp
    also have "\<dots> = [Suc ?a - ?n ..< Suc ?a] ! ?k"
      using inv unfolding db_inv_def by metis
    also have "\<dots> = ?lim" using n False \<open>?k < ?n\<close> by (simp del: upt_Suc add: nth_upt)
    finally show "e_seq (db_rows db ! ?k) = ?lim" .
  qed
  have "filter (\<lambda>e. ?lim \<le> e_seq e) (db_rows db) = drop ?k (db_rows db)"
    using filter_ge_sorted [of e_seq "db_rows db" ?k] db_inv_sorted [OF inv] k
    by (simp add: sorted_wrt_map)
  then show ?thesis
    using trim db_inv_delete [OF inv, of ?lim]
    by (intro exI [of _ "sql_delete_below ?lim db"]) (simp add: sql_delete_below_def)
qed

definition store_limit :: "acu_events \<Rightarrow> nat" where
  "store_limit ev = (if ev_db ev = None then EVENTS_MEMORY_CAP else ev_capacity ev)"

text \<open>
  What an append does to the stored rows: a prefix may be dropped, only when the store was
  at its limit, and the new event is last.
\<close>

lemma append_db:
  assumes ev: "ev_db ev = Some db" and inv: "ev_inv ev" and e: "length (e_id e) = 8"
  shows "\<exists>db' k. snd (events_append all_ok ev e)
        = ev\<lparr> ev_db := Some db', ev_next_trim := (if ev_next_trim ev \<le> Suc (db_autoinc db)
              then Suc (db_autoinc db) + EVENTS_TRIM_SLACK else ev_next_trim ev) \<rparr>
    \<and> fst (events_append all_ok ev e) \<and> db_inv db'
    \<and> db_rows db' = drop k (db_rows db @ [e\<lparr> e_seq := Suc (db_autoinc db) \<rparr>])
    \<and> db_sent db' = min (db_sent db) (write_pos db) \<and> db_autoinc db' = Suc (db_autoinc db)
    \<and> k = (if ev_next_trim ev \<le> Suc (db_autoinc db) then Suc (length (db_rows db)) - ev_capacity ev else 0)"
proof -
  have dbi: "db_inv db" and cap: "0 < ev_capacity ev" using inv ev by (auto simp: ev_inv_def)
  let ?db1 = "db\<lparr> db_sent := min (db_sent db) (write_pos db) \<rparr>"
  let ?db2 = "sql_insert_event e ?db1"
  let ?ev2 = "ev\<lparr> ev_db := Some ?db2 \<rparr>"
  have db2: "db_inv ?db2" using dbi e by (simp add: db_inv_insert)
  have nxt: "sql_next_seq ?db1 = Suc (db_autoinc db)" using dbi by simp
  have rows2: "db_rows ?db2 = db_rows db @ [e\<lparr> e_seq := Suc (db_autoinc db) \<rparr>]"
    "db_sent ?db2 = min (db_sent db) (write_pos db)" "db_autoinc ?db2 = Suc (db_autoinc db)"
    using nxt by (simp_all add: sql_insert_event_def)
  have app: "events_append all_ok ev e =
      (if ev_next_trim ev \<le> Suc (db_autoinc db)
       then (True, (trim_if_needed all_ok ?ev2)\<lparr> ev_next_trim := Suc (db_autoinc db) + EVENTS_TRIM_SLACK \<rparr>)
       else (True, ?ev2))"
    using ev nxt by (simp add: events_append_def repair_db [OF ev] Let_def)
  show ?thesis
  proof (cases "ev_next_trim ev \<le> Suc (db_autoinc db)")
    case False
    then show ?thesis using app db2 rows2 by (intro exI [of _ ?db2]) simp
  next
    case True
    obtain db' where t: "trim_if_needed all_ok ?ev2 = ?ev2\<lparr> ev_db := Some db' \<rparr>" "db_inv db'"
      "db_sent db' = db_sent ?db2" "db_autoinc db' = db_autoinc ?db2"
      "db_rows db' = drop (length (db_rows ?db2) - ev_capacity ?ev2) (db_rows ?db2)"
      using trim_db [of ?ev2 ?db2] db2 cap by auto
    show ?thesis using True app t rows2
      by (intro exI [of _ db'] exI [of _ "Suc (length (db_rows db)) - ev_capacity ev"]) simp
  qed
qed

lemma filter_drop_sorted:
  "\<exists>j \<le> k. filter P (drop k xs) = drop j (filter P xs)"
proof (induction xs arbitrary: k)
  case Nil
  then show ?case by auto
next
  case (Cons x xs)
  show ?case
  proof (cases k)
    case 0
    then show ?thesis by auto
  next
    case (Suc m)
    obtain j where "j \<le> m" "filter P (drop m xs) = drop j (filter P xs)" using Cons by blast
    then show ?thesis using Suc
      by (cases "P x") (auto intro: exI [of _ "Suc j"] exI [of _ j])
  qed
qed

section \<open>The ring in memory mode\<close>

lemma length_mem_view [simp]: "length (mem_view ev) = ev_mem_count ev"
  by (simp add: mem_view_def)

lemma mem_view_drop:
  assumes "k \<le> ev_mem_count ev"
  shows "mem_view (ev\<lparr> ev_mem_head := (ev_mem_head ev + k) mod EVENTS_MEMORY_CAP,
                       ev_mem_count := ev_mem_count ev - k \<rparr>) = drop k (mem_view ev)"
  by (rule nth_equalityI) (use assms in \<open>auto simp: mem_view_def mod_simps add.assoc\<close>)

lemma mem_view_push:
  "mem_view (mem_push ev e)
    = (if ev_mem_count ev = EVENTS_MEMORY_CAP then tl (mem_view ev) else mem_view ev)
      @ [e\<lparr> e_seq := ev_mem_next_seq ev \<rparr>]" if c: "ev_mem_count ev \<le> EVENTS_MEMORY_CAP"
proof -
  have push: "mem_view (ev'\<lparr> ev_mem := (ev_mem ev')((ev_mem_head ev' + ev_mem_count ev') mod EVENTS_MEMORY_CAP := x),
      ev_mem_next_seq := n, ev_mem_count := ev_mem_count ev' + 1 \<rparr>) = mem_view ev' @ [x]"
    if "ev_mem_count ev' < EVENTS_MEMORY_CAP" for ev' x n
    using that ring_slot_fresh [of _ "ev_mem_count ev'" EVENTS_MEMORY_CAP "ev_mem_head ev'"]
    by (auto simp: mem_view_def)
  show ?thesis
  proof (cases "ev_mem_count ev = EVENTS_MEMORY_CAP")
    case True
    let ?ev1 = "ev\<lparr> ev_mem_head := (ev_mem_head ev + 1) mod EVENTS_MEMORY_CAP,
                   ev_mem_count := ev_mem_count ev - 1 \<rparr>"
    have "mem_view ?ev1 = tl (mem_view ev)"
      using mem_view_drop [of 1 ev] True by (simp add: drop_Suc)
    then show ?thesis using True push [of ?ev1] by (simp add: mem_push_def Let_def)
  next
    case False
    then show ?thesis using c push [of ev] by (simp add: mem_push_def Let_def)
  qed
qed

lemma upt_snoc_eq: "a \<le> b \<Longrightarrow> [a..<b] @ [b] = [a..<Suc b]"
  by simp

lemma tl_upt_snoc: "a < b \<Longrightarrow> tl [a..<b] @ [b] = [Suc a..<Suc b]"
  by (simp add: tl_upt)

lemma mem_inv_push: "mem_inv ev \<Longrightarrow> mem_inv (mem_push ev e)"
proof -
  assume inv: "mem_inv ev"
  let ?c = "ev_mem_count ev" and ?n = "ev_mem_next_seq ev"
  have c: "?c \<le> EVENTS_MEMORY_CAP" "?c < ?n" "ev_mem_head ev < EVENTS_MEMORY_CAP"
    and seqs: "map e_seq (mem_view ev) = [?n - ?c ..< ?n]"
    using inv by (auto simp: mem_inv_def)
  have fields: "ev_mem_head (mem_push ev e) < EVENTS_MEMORY_CAP"
    "ev_mem_count (mem_push ev e) = (if ?c = EVENTS_MEMORY_CAP then ?c else Suc ?c)"
    "ev_mem_next_seq (mem_push ev e) = Suc ?n"
    using c by (auto simp: mem_push_def Let_def)
  have lt: "?c \<noteq> 0 \<Longrightarrow> ?n - ?c < ?n" using c(2) by simp
  have "map e_seq (mem_view (mem_push ev e))
      = (if ?c = EVENTS_MEMORY_CAP then tl [?n - ?c ..< ?n] else [?n - ?c ..< ?n]) @ [?n]"
    by (simp only: mem_view_push [OF c(1)] map_append list.map map_tl seqs if_distrib [of "map e_seq"])
       (simp del: upt_Suc)
  also have "\<dots> = [Suc ?n - (if ?c = EVENTS_MEMORY_CAP then ?c else Suc ?c) ..< Suc ?n]"
  proof (cases "?c = EVENTS_MEMORY_CAP")
    case True
    then have "?c \<noteq> 0" by simp
    from tl_upt_snoc [OF lt [OF this]] show ?thesis
      using True Suc_diff_le [OF less_imp_le [OF c(2)]] by (simp only: if_True refl simp_thms)
  next
    case False
    then show ?thesis by (simp only: if_False diff_Suc_Suc upt_snoc_eq diff_le_self)
  qed
  finally show ?thesis
    unfolding mem_inv_def fields(2,3) using fields(1) c by (auto simp del: upt_Suc)
qed

lemma mem_inv_drop:
  assumes inv: "mem_inv ev" and k: "k \<le> ev_mem_count ev"
  shows "mem_inv (ev\<lparr> ev_mem_head := (ev_mem_head ev + k) mod EVENTS_MEMORY_CAP,
                     ev_mem_count := ev_mem_count ev - k \<rparr>)"
proof -
  let ?c = "ev_mem_count ev" and ?n = "ev_mem_next_seq ev"
  have "map e_seq (drop k (mem_view ev)) = drop k [?n - ?c ..< ?n]"
    using inv by (simp add: mem_inv_def flip: drop_map)
  moreover have "?n - ?c + k = ?n - (?c - k)" using inv k by (simp add: mem_inv_def)
  ultimately show ?thesis
    using inv k mem_view_drop [OF k] by (auto simp: mem_inv_def)
qed

section \<open>The contract of an event feed\<close>

text \<open>
  What \<open>net.c\<close> relies on when it serves the history request: a list of pending events in
  increasing number order, to which an append adds at the end (dropping at most a prefix),
  a fetch that copies a prefix and changes nothing, and an acknowledgement that removes the
  events up to a number.
\<close>

locale event_feed =
  fixes inv :: "'s \<Rightarrow> bool"
    and pend :: "'s \<Rightarrow> acu_event list"
    and append_ev :: "'s \<Rightarrow> acu_event \<Rightarrow> 's"
    and fetch :: "'s \<Rightarrow> nat \<Rightarrow> acu_event list \<times> 's"
    and ack :: "'s \<Rightarrow> nat \<Rightarrow> 's"
  assumes append_inv: "inv s \<Longrightarrow> length (e_id e) = 8 \<Longrightarrow> inv (append_ev s e)"
    and append_pend: "inv s \<Longrightarrow> length (e_id e) = 8 \<Longrightarrow>
           \<exists>k n. pend (append_ev s e) = drop k (pend s) @ [e\<lparr> e_seq := n \<rparr>]"
    and fetch_pend: "inv s \<Longrightarrow> fst (fetch s n) = take n (pend s)"
    and fetch_keeps: "inv s \<Longrightarrow> inv (snd (fetch s n)) \<and> pend (snd (fetch s n)) = pend s"
    and ack_inv: "inv s \<Longrightarrow> 0 < v \<Longrightarrow> inv (ack s v)"
    and ack_pend: "inv s \<Longrightarrow> 0 < v \<Longrightarrow> pend (ack s v) = filter (\<lambda>e. v < e_seq e) (pend s)"
    and seqs_sorted: "inv s \<Longrightarrow> sorted_wrt (\<lambda>a b. e_seq a < e_seq b) (pend s)"
    and seqs_pos: "inv s \<Longrightarrow> e \<in> set (pend s) \<Longrightarrow> 0 < e_seq e"

text \<open>
  The poller: fetch up to \<open>n\<close> events, and when there are some, acknowledge the last one
  (\<open>net.c\<close>, \<open>handle_request_history\<close>). \<open>poll_rounds\<close> repeats it \<open>r\<close> times
  and collects what was delivered.
\<close>

definition poll_once :: "('s \<Rightarrow> nat \<Rightarrow> acu_event list \<times> 's) \<Rightarrow> ('s \<Rightarrow> nat \<Rightarrow> 's) \<Rightarrow> nat \<Rightarrow> 's \<Rightarrow> acu_event list \<times> 's" where
  "poll_once fetch ack n s =
    (let (xs, s1) = fetch s n in if xs = [] then ([], s1) else (xs, ack s1 (e_seq (last xs))))"

primrec poll_rounds ::
  "('s \<Rightarrow> nat \<Rightarrow> acu_event list \<times> 's) \<Rightarrow> ('s \<Rightarrow> nat \<Rightarrow> 's) \<Rightarrow> nat \<Rightarrow> nat \<Rightarrow> 's \<Rightarrow> acu_event list \<times> 's" where
  "poll_rounds fetch ack n 0 s = ([], s)"
| "poll_rounds fetch ack n (Suc r) s =
    (let (xs, s') = poll_once fetch ack n s; (ys, s'') = poll_rounds fetch ack n r s' in (xs @ ys, s''))"

context event_feed
begin

lemma poll_once_pend:
  assumes s: "inv s"
  shows "fst (poll_once fetch ack n s) = take n (pend s)"
    and "inv (snd (poll_once fetch ack n s))"
    and "pend (snd (poll_once fetch ack n s)) = drop n (pend s)"
proof -
  let ?s1 = "snd (fetch s n)" and ?xs = "take n (pend s)"
  have s1: "inv ?s1" "pend ?s1 = pend s" using fetch_keeps [OF s] by auto
  have once: "poll_once fetch ack n s = (if ?xs = [] then ([], ?s1) else (?xs, ack ?s1 (e_seq (last ?xs))))"
    by (simp add: poll_once_def split_beta fetch_pend [OF s] Let_def)
  then show "fst (poll_once fetch ack n s) = take n (pend s)" by simp
  have mem: "?xs \<noteq> [] \<Longrightarrow> last ?xs \<in> set (pend s)" by (metis in_set_takeD last_in_set)
  then have pos: "?xs \<noteq> [] \<Longrightarrow> 0 < e_seq (last ?xs)" using seqs_pos [OF s] by blast
  show "inv (snd (poll_once fetch ack n s))"
    unfolding once using s1 pos by (simp add: ack_inv)
  show "pend (snd (poll_once fetch ack n s)) = drop n (pend s)"
  proof (cases "?xs = []")
    case True
    then show ?thesis using s1 once by auto
  next
    case False
    let ?m = "min n (length (pend s)) - 1"
    have m: "?m < length (pend s)" "?xs = take (Suc ?m) (pend s)"
      using False by (auto simp: min_def)
    then have l: "last ?xs = pend s ! ?m"
      using last_take_nth [of "Suc ?m" "pend s"] by simp
    have "pend (snd (poll_once fetch ack n s)) = filter (\<lambda>e. e_seq (last ?xs) < e_seq e) (pend s)"
      using False once s1 pos by (simp add: ack_pend)
    also have "\<dots> = drop (Suc ?m) (pend s)"
      unfolding l by (rule filter_greater_sorted [OF seqs_sorted [OF s] m(1)])
    also have "\<dots> = drop n (pend s)" using False by (auto simp: min_def)
    finally show ?thesis .
  qed
qed

lemma poll_rounds_pend:
  "inv s \<Longrightarrow> fst (poll_rounds fetch ack n r s) = take (r * n) (pend s)
     \<and> inv (snd (poll_rounds fetch ack n r s))
     \<and> pend (snd (poll_rounds fetch ack n r s)) = drop (r * n) (pend s)"
proof (induction r arbitrary: s)
  case 0
  then show ?case by simp
next
  case (Suc r)
  have "inv (snd (poll_once fetch ack n s))" using poll_once_pend [OF Suc.prems] by simp
  from Suc.IH [OF this] show ?case
    by (simp add: split_beta Let_def poll_once_pend [OF Suc.prems] take_add add.commute)
qed

end

section \<open>The store is an event feed\<close>

lemma fetch_db:
  assumes ev: "ev_db ev = Some db" and inv: "db_inv db" and n: "0 < n"
  shows "fst (events_fetch all_ok ev (int n)) = Some (take n (pending_list ev))"
    and "snd (events_fetch all_ok ev (int n)) = ev
       \<or> snd (events_fetch all_ok ev (int n)) = ev\<lparr> ev_db := Some (db\<lparr> db_sent := min (db_sent db) (write_pos db) \<rparr>) \<rparr>
         \<and> pending_list ev = []"
proof -
  have rows: "map read_event_row (sql_fetch n d) = take n (filter (\<lambda>e. db_sent d < e_seq e) (db_rows d))"
    if "db_inv d" for d
  proof -
    have "e\<lparr> e_id := blob_fixed 8 (e_id e) \<rparr> = e" if "e \<in> set (db_rows d)" for e
    proof -
      have "length (e_id e) = 8" using that \<open>db_inv d\<close> by (simp add: db_inv_def)
      then show ?thesis by (cases e) simp
    qed
    then show ?thesis using that
      by (auto simp: sql_fetch_def read_event_row_eq intro!: map_idI dest: in_set_takeD)
  qed
  let ?db1 = "db\<lparr> db_sent := min (db_sent db) (write_pos db) \<rparr>"
  let ?ev1 = "ev\<lparr> ev_db := Some ?db1 \<rparr>"
  have none: "filter (\<lambda>e. write_pos db < e_seq e) (db_rows db) = []"
    using rows_le_write_pos [OF inv] by (auto simp: filter_empty_conv not_less)
  have pend: "pending_list ev = filter (\<lambda>e. db_sent db < e_seq e) (db_rows db)"
    using ev by (simp add: pending_list_def)
  have direct: "events_fetch all_ok ev (int n) = (Some (take n (pending_list ev)), ev)"
    if "pending_list ev \<noteq> []"
    using that n ev pend rows [OF inv] by (subst events_fetch.simps) (simp add: Let_def)
  have again: "events_fetch all_ok ?ev1 (int n) = (Some [], ?ev1)" if "write_pos db < db_sent db"
    using that n none rows [of ?db1] inv
    by (subst events_fetch.simps) (simp add: Let_def repair_db min_def)
  have empty: "events_fetch all_ok ev (int n) = (Some [], ?ev1)" if "pending_list ev = []"
    using that n ev pend rows [OF inv] again
    by (subst events_fetch.simps) (simp add: Let_def repair_db [OF ev])
  show "fst (events_fetch all_ok ev (int n)) = Some (take n (pending_list ev))"
    using direct empty by (cases "pending_list ev = []") auto
  show "snd (events_fetch all_ok ev (int n)) = ev
     \<or> snd (events_fetch all_ok ev (int n)) = ?ev1 \<and> pending_list ev = []"
    using direct empty by (cases "pending_list ev = []") auto
qed

lemma fetch_mem:
  "ev_db ev = None \<Longrightarrow> 0 < n \<Longrightarrow> events_fetch ok ev (int n) = (Some (take n (pending_list ev)), ev)"
  by (subst events_fetch.simps) (simp add: pending_list_def mem_view_def take_map take_upt_min)

text \<open>Fetching and acknowledging with every statement succeeding, on plain results.\<close>

definition feed_fetch :: "acu_events \<Rightarrow> nat \<Rightarrow> acu_event list \<times> acu_events" where
  "feed_fetch ev n = map_prod (\<lambda>r. case r of None \<Rightarrow> [] | Some xs \<Rightarrow> xs) id (events_fetch all_ok ev (int n))"

definition feed_ack :: "acu_events \<Rightarrow> nat \<Rightarrow> acu_events" where
  "feed_ack ev v = snd (events_ack all_ok ev v)"

definition feed_append :: "acu_events \<Rightarrow> acu_event \<Rightarrow> acu_events" where
  "feed_append ev e = snd (events_append all_ok ev e)"

lemma stored_sorted: "ev_inv ev \<Longrightarrow> sorted_wrt (\<lambda>a b. e_seq a < e_seq b) (stored_list ev)"
proof -
  assume inv: "ev_inv ev"
  have "sorted_wrt (<) (map e_seq (stored_list ev))"
  proof (cases "ev_db ev")
    case None
    with inv have "map e_seq (stored_list ev) = [ev_mem_next_seq ev - ev_mem_count ev ..< ev_mem_next_seq ev]"
      by (simp add: ev_inv_def mem_inv_def stored_list_def)
    then show ?thesis by (metis sorted_wrt_upt)
  next
    case (Some db)
    with inv show ?thesis by (simp add: ev_inv_def stored_list_def db_inv_sorted)
  qed
  then show ?thesis by (simp add: sorted_wrt_map)
qed

lemma stored_pos: "ev_inv ev \<Longrightarrow> e \<in> set (stored_list ev) \<Longrightarrow> 0 < e_seq e"
proof (cases "ev_db ev")
  case None
  assume inv: "ev_inv ev" and e: "e \<in> set (stored_list ev)"
  then have "e_seq e \<in> set (map e_seq (mem_view ev))" using None by (simp add: stored_list_def)
  also have "\<dots> = {ev_mem_next_seq ev - ev_mem_count ev ..< ev_mem_next_seq ev}"
    using inv None unfolding ev_inv_def mem_inv_def by simp
  finally show ?thesis using inv None by (auto simp: ev_inv_def mem_inv_def)
next
  case (Some db)
  assume "ev_inv ev" "e \<in> set (stored_list ev)"
  with Some show ?thesis using db_inv_seq [of db e] by (simp add: ev_inv_def stored_list_def)
qed

lemma pending_filter:
  "pending_list ev = filter (\<lambda>e. case ev_db ev of None \<Rightarrow> True | Some db \<Rightarrow> db_sent db < e_seq e) (stored_list ev)"
  by (simp add: pending_list_def stored_list_def split: option.splits)

lemma append_mem:
  "ev_db ev = None \<Longrightarrow> events_append ok ev e = (True, mem_push ev e)"
  by (simp add: events_append_def)

lemma mem_push_frame [simp, frame_simps]:
  "ev_db (mem_push ev e) = ev_db ev" "ev_capacity (mem_push ev e) = ev_capacity ev"
  by (simp_all add: mem_push_def Let_def)

lemma append_keeps_inv [keeps_inv]:
  assumes inv: "ev_inv ev" and e: "length (e_id e) = 8"
  shows "ev_inv (feed_append ev e)"
proof (cases "ev_db ev")
  case None
  then show ?thesis using inv by (simp add: feed_append_def append_mem ev_inv_def mem_inv_push)
next
  case (Some db)
  from append_db [OF this inv e] show ?thesis
    using inv by (auto simp: feed_append_def ev_inv_def)
qed

text \<open>
  The pending list after an append: what was pending, less a prefix that is empty when the
  store is below its limit, then the new event. An index ahead of the newest row is
  repaired first, so the new event is pending in every case.
\<close>

lemma append_pending:
  assumes inv: "ev_inv ev" and e: "length (e_id e) = 8"
  shows "\<exists>k n. pending_list (feed_append ev e) = drop k (pending_list ev) @ [e\<lparr> e_seq := n \<rparr>]
     \<and> (length (stored_list ev) < store_limit ev \<longrightarrow> k = 0)"
proof (cases "ev_db ev")
  case None
  then have c: "ev_mem_count ev \<le> EVENTS_MEMORY_CAP" using inv by (simp add: ev_inv_def mem_inv_def)
  then show ?thesis using None
    by (intro exI [of _ "if ev_mem_count ev = EVENTS_MEMORY_CAP then 1 else 0"]
          exI [of _ "ev_mem_next_seq ev"])
       (simp add: feed_append_def append_mem pending_list_def mem_view_push drop_Suc
          stored_list_def store_limit_def)
next
  case (Some db)
  have dbi: "db_inv db" and cap: "0 < ev_capacity ev" using inv Some by (auto simp: ev_inv_def)
  let ?new = "e\<lparr> e_seq := Suc (db_autoinc db) \<rparr>"
  obtain db' k where a: "feed_append ev e = ev\<lparr> ev_db := Some db', ev_next_trim :=
      (if ev_next_trim ev \<le> Suc (db_autoinc db) then Suc (db_autoinc db) + EVENTS_TRIM_SLACK else ev_next_trim ev) \<rparr>"
    and r: "db_rows db' = drop k (db_rows db @ [?new])"
    and s: "db_sent db' = min (db_sent db) (write_pos db)"
    and k: "k = (if ev_next_trim ev \<le> Suc (db_autoinc db) then Suc (length (db_rows db)) - ev_capacity ev else 0)"
    using append_db [OF Some inv e] unfolding feed_append_def by blast
  have k_len: "k \<le> length (db_rows db)" using k cap by auto
  then have rows: "db_rows db' = drop k (db_rows db) @ [?new]" using r by simp
  have new: "min (db_sent db) (write_pos db) < Suc (db_autoinc db)"
    using write_pos_le_autoinc [OF dbi] by simp
  have same: "filter (\<lambda>x. min (db_sent db) (write_pos db) < e_seq x) (db_rows db)
      = filter (\<lambda>x. db_sent db < e_seq x) (db_rows db)"
  proof (rule filter_cong [OF refl])
    fix x assume "x \<in> set (db_rows db)"
    from rows_le_write_pos [OF dbi this]
    show "(min (db_sent db) (write_pos db) < e_seq x) = (db_sent db < e_seq x)" by auto
  qed
  obtain j where j: "j \<le> k" "filter (\<lambda>x. min (db_sent db) (write_pos db) < e_seq x) (drop k (db_rows db))
      = drop j (filter (\<lambda>x. db_sent db < e_seq x) (db_rows db))"
    using filter_drop_sorted [of k _ "db_rows db"] same by metis
  have "pending_list (feed_append ev e) = drop j (pending_list ev) @ [?new]"
    using a rows s new j by (simp add: pending_list_def Some)
  moreover have "length (stored_list ev) < store_limit ev \<longrightarrow> j = 0"
    using j(1) k Some by (auto simp: stored_list_def store_limit_def split: if_splits)
  ultimately show ?thesis by blast
qed

lemma fetch_feed:
  assumes inv: "ev_inv ev"
  shows "fst (feed_fetch ev n) = take n (pending_list ev)
    \<and> ev_inv (snd (feed_fetch ev n)) \<and> pending_list (snd (feed_fetch ev n)) = pending_list ev"
proof (cases "n = 0")
  case True
  then have "events_fetch all_ok ev (int n) = (None, ev)" by (subst events_fetch.simps) simp
  then show ?thesis using True inv by (simp add: feed_fetch_def)
next
  case False
  show ?thesis
  proof (cases "ev_db ev")
    case None
    then show ?thesis using False inv by (simp add: feed_fetch_def fetch_mem)
  next
    case (Some db)
    have dbi: "db_inv db" using inv Some by (simp add: ev_inv_def)
    have none: "filter (\<lambda>e. min (db_sent db) (write_pos db) < e_seq e) (db_rows db) = pending_list ev"
      if "pending_list ev = []"
      using that rows_le_write_pos [OF dbi] Some
      by (auto simp: pending_list_def filter_empty_conv not_less)
    show ?thesis
      using fetch_db [OF Some dbi, of n] False inv Some none
      by (auto simp: feed_fetch_def ev_inv_def pending_list_def)
  qed
qed

lemma ack_feed:
  assumes inv: "ev_inv ev" and v: "0 < v"
  shows "ev_inv (feed_ack ev v) \<and> pending_list (feed_ack ev v) = filter (\<lambda>e. v < e_seq e) (pending_list ev)"
proof (cases "ev_db ev")
  case None
  let ?k = "length (takeWhile (\<lambda>i. e_seq (ev_mem ev ((ev_mem_head ev + i) mod EVENTS_MEMORY_CAP)) \<le> v)
                [0..<ev_mem_count ev])"
  have k: "?k = length (takeWhile (\<lambda>e. e_seq e \<le> v) (mem_view ev))"
    by (simp add: mem_view_def takeWhile_map comp_def)
  have le: "?k \<le> ev_mem_count ev"
    using length_takeWhile_le [of _ "[0..<ev_mem_count ev]"] by simp
  have sorted: "sorted_wrt (\<lambda>a b. e_seq a < e_seq b) (mem_view ev)"
    using stored_sorted [OF inv] None by (simp add: stored_list_def)
  have "drop ?k (mem_view ev) = filter (\<lambda>e. v < e_seq e) (mem_view ev)"
    unfolding k by (simp add: dropWhile_eq_drop [symmetric] dropWhile_sorted_filter [OF sorted])
  moreover have "feed_ack ev v = ev\<lparr> ev_mem_head := (ev_mem_head ev + ?k) mod EVENTS_MEMORY_CAP,
      ev_mem_count := ev_mem_count ev - ?k \<rparr>"
    using None v by (simp add: feed_ack_def events_ack_def Let_def)
  ultimately show ?thesis
    using inv None mem_inv_drop [OF _ le] mem_view_drop [OF le]
    by (simp add: ev_inv_def pending_list_def)
next
  case (Some db)
  have "feed_ack ev v = ev\<lparr> ev_db := Some (sql_ack v db) \<rparr>"
    using Some v by (simp add: feed_ack_def events_ack_def)
  then show ?thesis
    using inv Some by (auto simp: ev_inv_def pending_list_def sql_ack_def intro: filter_cong)
qed

lemma pending_sorted: "ev_inv ev \<Longrightarrow> sorted_wrt (\<lambda>a b. e_seq a < e_seq b) (pending_list ev)"
  by (simp add: pending_filter stored_sorted sorted_wrt_filter)

lemma pending_pos: "ev_inv ev \<Longrightarrow> e \<in> set (pending_list ev) \<Longrightarrow> 0 < e_seq e"
  using stored_pos by (auto simp: pending_filter)

interpretation feed: event_feed ev_inv pending_list feed_append feed_fetch feed_ack
proof unfold_locales
  fix s :: acu_events and e :: acu_event
  assume "ev_inv s" "length (e_id e) = 8"
  then show "\<exists>k n. pending_list (feed_append s e) = drop k (pending_list s) @ [e\<lparr> e_seq := n \<rparr>]"
    using append_pending by blast
qed (use append_keeps_inv fetch_feed ack_feed pending_sorted pending_pos in auto)

section \<open>Counts, bounds and rewinding\<close>

definition slack_inv :: "acu_events \<Rightarrow> bool" where
  "slack_inv ev \<longleftrightarrow> (case ev_db ev of
       None \<Rightarrow> False
     | Some db \<Rightarrow> ev_next_trim ev \<le> Suc (db_autoinc db)
         \<or> length (db_rows db) + ev_next_trim ev \<le> ev_capacity ev + EVENTS_TRIM_SLACK + db_autoinc db)"

lemma append_slack:
  assumes inv: "ev_inv ev" and e: "length (e_id e) = 8" and slack: "slack_inv ev"
  shows "slack_inv (feed_append ev e)
    \<and> length (stored_list (feed_append ev e)) < ev_capacity ev + EVENTS_TRIM_SLACK
    \<and> ev_capacity (feed_append ev e) = ev_capacity ev"
proof -
  obtain db where db: "ev_db ev = Some db" using slack by (auto simp: slack_inv_def split: option.splits)
  have cap: "0 < ev_capacity ev" using inv by (simp add: ev_inv_def)
  let ?trim = "ev_next_trim ev \<le> Suc (db_autoinc db)"
  obtain db' k where a: "feed_append ev e = ev\<lparr> ev_db := Some db', ev_next_trim :=
      (if ?trim then Suc (db_autoinc db) + EVENTS_TRIM_SLACK else ev_next_trim ev) \<rparr>"
    and r: "db_rows db' = drop k (db_rows db @ [e\<lparr> e_seq := Suc (db_autoinc db) \<rparr>])"
    and i: "db_autoinc db' = Suc (db_autoinc db)"
    and k: "k = (if ?trim then Suc (length (db_rows db)) - ev_capacity ev else 0)"
    using append_db [OF db inv e] unfolding feed_append_def by blast
  have len: "length (db_rows db') = Suc (length (db_rows db)) - k" using r by simp
  show ?thesis
  proof (cases ?trim)
    case True
    then have "length (db_rows db') \<le> ev_capacity ev" using len k by simp
    then show ?thesis using a i True by (simp add: slack_inv_def stored_list_def)
  next
    case False
    then have "length (db_rows db) + ev_next_trim ev \<le> ev_capacity ev + EVENTS_TRIM_SLACK + db_autoinc db"
      using slack db by (simp add: slack_inv_def)
    then show ?thesis using a i False len k by (simp add: slack_inv_def stored_list_def)
  qed
qed

lemma appends_slack:
  "ev_inv ev \<Longrightarrow> slack_inv ev \<Longrightarrow> \<forall>e \<in> set es. length (e_id e) = 8 \<Longrightarrow> es \<noteq> [] \<Longrightarrow>
   length (stored_list (foldl feed_append ev es)) < ev_capacity ev + EVENTS_TRIM_SLACK"
proof (induction es arbitrary: ev)
  case Nil
  then show ?case by simp
next
  case (Cons e es)
  then have "ev_inv (feed_append ev e)" "slack_inv (feed_append ev e)"
    "ev_capacity (feed_append ev e) = ev_capacity ev"
    "length (stored_list (feed_append ev e)) < ev_capacity ev + EVENTS_TRIM_SLACK"
    using append_keeps_inv append_slack by auto
  then show ?case using Cons.prems Cons.IH [of "feed_append ev e"] by (cases "es = []") auto
qed

lemma open_db:
  assumes "path \<noteq> []" "0 < capacity" "db_inv db"
  shows "ev_inv (events_open all_ok path capacity (Opened db))"
    and "slack_inv (events_open all_ok path capacity (Opened db))"
    and "ev_capacity (events_open all_ok path capacity (Opened db)) = nat capacity"
    and "stored_list (events_open all_ok path capacity (Opened db)) = db_rows db"
proof -
  have "length (db_rows db) \<le> db_autoinc db" using assms(3) by (simp add: db_inv_def)
  then show "ev_inv (events_open all_ok path capacity (Opened db))"
    "slack_inv (events_open all_ok path capacity (Opened db))"
    "ev_capacity (events_open all_ok path capacity (Opened db)) = nat capacity"
    "stored_list (events_open all_ok path capacity (Opened db)) = db_rows db"
    using assms by (simp_all add: events_open_def Let_def repair_db ev_inv_def slack_inv_def stored_list_def)
qed

lemma pending_suffix:
  assumes inv: "db_inv db" and v: "v \<le> write_pos db"
  shows "length (filter (\<lambda>e. v < e_seq e) (db_rows db)) = min (length (db_rows db)) (write_pos db - v)"
proof -
  let ?a = "db_autoinc db" and ?n = "length (db_rows db)"
  have seqs: "map e_seq (db_rows db) = [Suc ?a - ?n ..< Suc ?a]" and n: "?n \<le> ?a"
    using inv unfolding db_inv_def by blast+
  have "length (filter (\<lambda>e. v < e_seq e) (db_rows db)) = length (filter (\<lambda>x. Suc v \<le> x) (map e_seq (db_rows db)))"
    by (simp add: filter_map comp_def Suc_le_eq)
  also have "\<dots> = Suc ?a - max (Suc ?a - ?n) (Suc v)"
    unfolding seqs filter_le_upt by (rule length_upt)
  also have "\<dots> = min ?n (write_pos db - v)"
    using n v by (cases "db_rows db = []") (auto simp: write_pos_def sql_max_inv [OF inv])
  finally show ?thesis .
qed

lemma rewind_batch:
  assumes inv: "ev_inv ev" and db: "ev_db ev = Some db" and n: "0 < n" and p: "pending_list ev \<noteq> []"
  shows "pending_list (snd (events_rewind_to_seq all_ok
            (snd (poll_once feed_fetch feed_ack n ev)) (e_seq (hd (pending_list ev))))) = pending_list ev"
proof -
  have dbi: "db_inv db" using inv db by (simp add: ev_inv_def)
  have fetched: "feed_fetch ev n = (take n (pending_list ev), ev)"
    using fetch_db [OF db dbi n] p by (auto simp: feed_fetch_def prod_eq_iff)
  let ?l = "e_seq (last (take n (pending_list ev)))" and ?h = "e_seq (hd (pending_list ev))"
  have l_in: "last (take n (pending_list ev)) \<in> set (pending_list ev)"
    using p n by (metis in_set_takeD last_in_set take_eq_Nil neq0_conv)
  have sorted: "sorted_wrt (\<lambda>a b. e_seq a < e_seq b) (pending_list ev)" by (rule pending_sorted [OF inv])
  have h_min: "?h \<le> e_seq x" if "x \<in> set (pending_list ev)" for x
    using sorted that p by (cases "pending_list ev") auto
  have h_gt: "db_sent db < ?h" using db p hd_in_set [OF p] by (simp add: pending_list_def)
  have sent: "db_sent (sql_ack ?l db) = ?l"
    using h_gt h_min [OF l_in] by (simp add: sql_ack_def)
  have rows: "db_rows (sql_ack ?l db) = db_rows db" by (simp add: sql_ack_def)
  have acked: "snd (poll_once feed_fetch feed_ack n ev) = ev\<lparr> ev_db := Some (sql_ack ?l db) \<rparr>"
    using fetched p n db pending_pos [OF inv l_in] by (simp add: poll_once_def feed_ack_def events_ack_def)
  have "filter (\<lambda>e. ?h - 1 < e_seq e) (db_rows db) = pending_list ev"
  proof -
    have "(?h - 1 < e_seq x) = (db_sent db < e_seq x)" if "x \<in> set (db_rows db)" for x
    proof
      assume "db_sent db < e_seq x"
      then have "x \<in> set (pending_list ev)" using that db by (simp add: pending_list_def)
      from h_min [OF this] h_gt show "?h - 1 < e_seq x" by simp
    qed (use h_gt in simp)
    then show ?thesis using db by (simp add: pending_list_def cong: filter_cong)
  qed
  moreover have "?h - 1 < ?l" using h_min [OF l_in] h_gt by simp
  ultimately show ?thesis
    using acked sent rows h_gt
    by (simp add: events_rewind_to_seq_def Let_def set_sent_seq_def pending_list_def)
qed

text \<open>A small store for the concrete instances: events 4 and 5 are stored, \<open>sent\<close> is the read position.\<close>

definition demo_event :: "nat \<Rightarrow> int \<Rightarrow> acu_event" where
  "demo_event n t = zero_event\<lparr> e_seq := n, e_ts := t \<rparr>"

definition demo_db :: "nat \<Rightarrow> events_db" where
  "demo_db sent = \<lparr> db_rows = [demo_event 4 100, demo_event 5 200], db_autoinc = 5, db_sent = sent \<rparr>"

definition demo_store :: "nat \<Rightarrow> acu_events" where
  "demo_store sent = \<lparr> ev_db = Some (demo_db sent), ev_capacity = 10, ev_next_trim = 1010,
     ev_mem = (\<lambda>_. zero_event), ev_mem_head = 0, ev_mem_count = 0, ev_mem_next_seq = 1 \<rparr>"

lemma length_demo_id: "length (e_id (demo_event n t)) = 8"
  by (simp add: demo_event_def zero_event_def)

lemma demo_db_inv: "db_inv (demo_db sent)"
  by (simp add: db_inv_def demo_db_def demo_event_def zero_event_def)

lemma demo_inv: "ev_inv (demo_store sent)"
  by (simp add: ev_inv_def demo_store_def demo_db_inv)

lemmas demo_simps = demo_store_def demo_db_def demo_event_def zero_event_def

section \<open>Properties\<close>

text \<open>
  C3. Polling a store with any number of pending events: \<open>r\<close> rounds of fetching up to
  \<open>n\<close> and acknowledging the last one deliver exactly the first \<open>r * n\<close> pending events, in
  order and each once, and leave the rest pending (\<open>events_fetch\<close>, \<open>events_ack\<close>).
\<close>

theorem polling_exactly_once:
  assumes "ev_inv ev"
  shows "fst (poll_rounds feed_fetch feed_ack n r ev) = take (r * n) (pending_list ev)
    \<and> pending_list (snd (poll_rounds feed_fetch feed_ack n r ev)) = drop (r * n) (pending_list ev)
    \<and> ev_inv (snd (poll_rounds feed_fetch feed_ack n r ev))"
  using feed.poll_rounds_pend [OF assms] by blast

theorem polling_exactly_once_witness:
  "map e_seq (fst (poll_rounds feed_fetch feed_ack 1 2 (demo_store 3))) = [4, 5]
    \<and> pending_list (snd (poll_rounds feed_fetch feed_ack 1 2 (demo_store 3))) = []"
  using polling_exactly_once [OF demo_inv, of 1 2 3]
  by (simp add: pending_list_def demo_simps)



text \<open>
  The two counters computed from \<open>MIN(seq)\<close>, \<open>MAX(seq)\<close> and the read position equal the
  real numbers of stored and of pending events, in both modes.
\<close>

theorem counts_exact:
  assumes "ev_inv ev"
  shows "events_total all_ok ev = int (length (stored_list ev))
    \<and> events_pending all_ok ev = int (length (pending_list ev))"
proof (cases "ev_db ev")
  case None
  then show ?thesis by (simp add: events_total_def events_pending_def stored_list_def pending_list_def)
next
  case (Some db)
  have inv: "db_inv db" using assms Some by (simp add: ev_inv_def)
  have n: "length (db_rows db) \<le> db_autoinc db" using inv by (simp add: db_inv_def)
  have "events_pending all_ok ev = int (length (filter (\<lambda>e. db_sent db < e_seq e) (db_rows db)))"
  proof (cases "db_rows db = []")
    case True
    then show ?thesis using Some by (simp add: events_pending_def sql_max_inv [OF inv])
  next
    case False
    then have wp: "write_pos db = db_autoinc db" by (simp add: write_pos_def sql_max_inv [OF inv])
    have pos: "0 < length (db_rows db)" "0 < db_autoinc db" using False n by (cases "db_rows db"; auto)+
    then have "events_pending all_ok ev
        = int (min (length (db_rows db)) (db_autoinc db - db_sent db))"
      using Some False n pos
      by (simp add: events_pending_def Let_def sql_max_inv [OF inv] sql_min_inv [OF inv] min_def of_nat_diff
            del: length_greater_0_conv)
         linarith
    also have "\<dots> = int (length (filter (\<lambda>e. db_sent db < e_seq e) (db_rows db)))"
    proof (cases "db_sent db \<le> write_pos db")
      case True
      then show ?thesis by (simp only: pending_suffix [OF inv True] wp)
    next
      case False
      then have "filter (\<lambda>e. db_sent db < e_seq e) (db_rows db) = []"
        using rows_le_write_pos [OF inv] by (fastforce simp: filter_empty_conv)
      with False wp show ?thesis by simp
    qed
    finally show ?thesis .
  qed
  then show ?thesis using total_db [OF Some inv] Some by (simp add: stored_list_def pending_list_def)
qed

theorem counts_exact_witness:
  "events_total all_ok (demo_store 4) = 2 \<and> events_pending all_ok (demo_store 4) = 1"
  using counts_exact [OF demo_inv, of 4]
  by (simp add: stored_list_def pending_list_def demo_simps)

text \<open>
  C25. The file stays bounded: once a store opened on any well-formed tables has taken one
  event, it never holds \<open>capacity + 1000\<close> rows or more, whatever it held before.
\<close>

theorem store_bounded:
  assumes "path \<noteq> []" "0 < capacity" "db_inv db" "es \<noteq> []" "\<forall>e \<in> set es. length (e_id e) = 8"
  shows "length (stored_list (foldl feed_append (events_open all_ok path capacity (Opened db)) es))
    < nat capacity + EVENTS_TRIM_SLACK"
  using appends_slack [OF open_db(1,2) [OF assms(1-3)] assms(5,4)] open_db(3) [OF assms(1-3)] by simp

theorem store_bounded_witness:
  "length (stored_list (foldl feed_append (events_open all_ok ''e.db'' 10 (Opened (demo_db 3))) [demo_event 0 300])) < 1010"
  using store_bounded [of "''e.db''" 10 "demo_db 3" "[demo_event 0 300]"]
  by (simp add: demo_db_inv length_demo_id)

text \<open>
  When sending a batch failed after it was acknowledged, \<open>events_rewind_to_seq\<close> on its
  first event makes exactly the events pending before the batch pending again.
\<close>

theorem rewind_restores_batch:
  assumes inv: "ev_inv ev" and db: "ev_db ev = Some db" and n: "0 < n" and p: "pending_list ev \<noteq> []"
  shows "pending_list (snd (events_rewind_to_seq all_ok
            (snd (poll_once feed_fetch feed_ack n ev)) (e_seq (hd (pending_list ev))))) = pending_list ev"
  by (rule rewind_batch [OF inv db n p])

theorem rewind_restores_batch_witness:
  "map e_seq (pending_list (snd (events_rewind_to_seq all_ok
      (snd (poll_once feed_fetch feed_ack 2 (demo_store 3))) 4))) = [4, 5]"
proof -
  have p: "pending_list (demo_store 3) = [demo_event 4 100, demo_event 5 200]"
    by (simp add: pending_list_def demo_simps)
  have "ev_db (demo_store 3) = Some (demo_db 3)" by (simp add: demo_store_def)
  from rewind_restores_batch [OF demo_inv this, of 2] show ?thesis
    by (simp add: p) (simp add: demo_event_def)
qed

text \<open>Cutting rows with rising numbers at the first one that satisfies \<open>P\<close>.\<close>

lemma cut_at_first:
  assumes "sorted_wrt (\<lambda>a b. e_seq a < e_seq b) rows" "dropWhile (\<lambda>e. \<not> P e) rows = x # xs"
  shows "Min (set (map e_seq (filter P rows))) = e_seq x" "filter P rows \<noteq> []" "x \<in> set rows"
    and "0 < e_seq x \<Longrightarrow> filter (\<lambda>e. e_seq x - 1 < e_seq e) rows = x # xs"
proof -
  define pre where "pre = takeWhile (\<lambda>e. \<not> P e) rows"
  have parts: "rows = pre @ x # xs" unfolding pre_def using assms(2) takeWhile_dropWhile_id by metis
  have x: "P x" using assms(2) by (metis dropWhile_eq_Cons_conv)
  have after: "e_seq x < e_seq y" if "y \<in> set xs" for y
    using assms(1) that by (simp add: parts sorted_wrt_append)
  have before: "e_seq y < e_seq x" if "y \<in> set pre" for y
    using assms(1) that by (simp add: parts sorted_wrt_append)
  have "filter P pre = []" by (auto simp: pre_def filter_empty_conv dest: set_takeWhileD)
  then have flt: "filter P rows = x # filter P xs" using x by (simp add: parts)
  show "Min (set (map e_seq (filter P rows))) = e_seq x"
    unfolding flt by (rule Min_eqI) (auto dest: after)
  show "filter P rows \<noteq> []" "x \<in> set rows" using flt by (simp_all add: parts)
  assume "0 < e_seq x"
  moreover have "filter (\<lambda>e. e_seq x - 1 < e_seq e) pre = []"
    using before by (fastforce simp: filter_empty_conv not_less)
  moreover have "filter (\<lambda>e. e_seq x - 1 < e_seq e) xs = xs"
    using after by (fastforce simp: filter_id_conv)
  ultimately show "filter (\<lambda>e. e_seq x - 1 < e_seq e) rows = x # xs" by (simp add: parts)
qed

text \<open>The position a rewind by time goes to: the row before the first one late enough, or the end.\<close>

lemma rewind_target:
  fixes from_t :: int
  assumes "db_inv db"
  defines "m \<equiv> (case sql_min_ts from_t db of None \<Rightarrow> 0 | Some v \<Rightarrow> v)"
  defines "tgt \<equiv> (if 0 < m then m - 1 else write_pos db)"
  shows "filter (\<lambda>e. tgt < e_seq e) (db_rows db) = dropWhile (\<lambda>e. e_ts e < from_t) (db_rows db)
    \<and> tgt \<le> write_pos db \<and> write_pos db - tgt \<le> length (db_rows db)"
proof (cases "dropWhile (\<lambda>e. e_ts e < from_t) (db_rows db)")
  case Nil
  then have "filter (\<lambda>e. from_t \<le> e_ts e) (db_rows db) = []" by (auto simp: dropWhile_eq_Nil_conv filter_empty_conv)
  then have "tgt = write_pos db" by (simp add: sql_min_ts_def tgt_def m_def)
  moreover from this have "filter (\<lambda>e. tgt < e_seq e) (db_rows db) = []"
    using rows_le_write_pos [OF assms(1)] by (auto simp: filter_empty_conv not_less)
  ultimately show ?thesis unfolding Nil by simp
next
  case (Cons x xs)
  have srt: "sorted_wrt (\<lambda>a b. e_seq a < e_seq b) (db_rows db)"
    using db_inv_sorted [OF assms(1)] by (simp add: sorted_wrt_map)
  have "dropWhile (\<lambda>e. \<not> from_t \<le> e_ts e) (db_rows db) = x # xs" using Cons by (simp add: not_le)
  note first = cut_at_first [OF srt this]
  have pos: "0 < e_seq x" using db_inv_seq [OF assms(1) first(3)] by simp
  have "sql_min_ts from_t db = Some (e_seq x)" using first(1,2) by (simp add: sql_min_ts_def Let_def)
  then have tgt: "tgt = e_seq x - 1" using pos by (simp add: tgt_def m_def)
  have "e_seq x \<in> {Suc (db_autoinc db) - length (db_rows db) ..< Suc (db_autoinc db)}"
    using first(3) seq_set [OF assms(1)] by blast
  then have "write_pos db - tgt \<le> length (db_rows db)"
    unfolding tgt using write_pos_le_autoinc [OF assms(1)] by (auto simp: le_diff_conv)
  then show ?thesis
    using first(4) [OF pos] Cons tgt rows_le_write_pos [OF assms(1) first(3)] by simp
qed

text \<open>
  \<open>events_rewind_to_time\<close> makes pending every stored event from the first one at or
  after the given time (none when there is no such event), and returns their number.
\<close>

theorem rewind_to_time_exact:
  assumes inv: "ev_inv ev" and db: "ev_db ev = Some db"
  shows "pending_list (snd (events_rewind_to_time all_ok ev from_t))
        = dropWhile (\<lambda>e. e_ts e < from_t) (stored_list ev)
    \<and> fst (events_rewind_to_time all_ok ev from_t)
        = int (length (dropWhile (\<lambda>e. e_ts e < from_t) (stored_list ev)))"
proof -
  have dbi: "db_inv db" using inv db by (simp add: ev_inv_def)
  define m where "m = (case sql_min_ts from_t db of None \<Rightarrow> 0 | Some v \<Rightarrow> v)"
  define tgt where "tgt = (if 0 < m then m - 1 else write_pos db)"
  have rew: "events_rewind_to_time all_ok ev from_t
      = (int (write_pos db) - int tgt, ev\<lparr> ev_db := Some (db\<lparr> db_sent := tgt \<rparr>) \<rparr>)"
    using db by (simp add: events_rewind_to_time_def Let_def set_sent_seq_def write_pos_def scalar_with_def tgt_def m_def)
  note split = rewind_target [OF dbi, of from_t, folded m_def, folded tgt_def]
  have "length (filter (\<lambda>e. tgt < e_seq e) (db_rows db)) = write_pos db - tgt"
    using pending_suffix [OF dbi, of tgt] split by simp
  then show ?thesis
    using rew split db by (simp add: pending_list_def stored_list_def of_nat_diff)
qed

theorem rewind_to_time_exact_witness:
  "map e_seq (pending_list (snd (events_rewind_to_time all_ok (demo_store 5) 150))) = [5]
    \<and> fst (events_rewind_to_time all_ok (demo_store 5) 150) = 1"
proof -
  have "ev_db (demo_store 5) = Some (demo_db 5)" by (simp add: demo_store_def)
  from rewind_to_time_exact [OF demo_inv this, of 150]
  show ?thesis by (simp add: stored_list_def demo_simps)
qed

text \<open>
  In memory mode the ring is a bounded FIFO: after any sequence of appends to a store
  opened without a path, the pending events are the last 512 of the sequence, in order.
\<close>

theorem memory_ring_is_fifo:
  "map (\<lambda>e. e\<lparr> e_seq := 0 \<rparr>) (pending_list (foldl feed_append (events_open ok [] capacity oc) es))
    = map (\<lambda>e. e\<lparr> e_seq := 0 \<rparr>) (drop (length es - EVENTS_MEMORY_CAP) es)"
proof -
  let ?ev = "\<lambda>es. foldl feed_append (events_open ok [] capacity oc) es"
  have "ev_db (?ev es) = None \<and> ev_mem_count (?ev es) \<le> EVENTS_MEMORY_CAP
    \<and> ev_mem_count (?ev es) = min (length es) EVENTS_MEMORY_CAP
    \<and> map (\<lambda>e. e\<lparr> e_seq := 0 \<rparr>) (mem_view (?ev es))
      = map (\<lambda>e. e\<lparr> e_seq := 0 \<rparr>) (drop (length es - EVENTS_MEMORY_CAP) es)"
  proof (induction es rule: rev_induct)
    case Nil
    then show ?case by (simp add: events_open_def Let_def switch_to_memory_def mem_view_def)
  next
    case (snoc e es)
    then have "?ev (es @ [e]) = mem_push (?ev es) e"
      by (simp add: feed_append_def [of "?ev es" e] append_mem)
    moreover have "ev_mem_count (mem_push (?ev es) e)
        = (if ev_mem_count (?ev es) = EVENTS_MEMORY_CAP then EVENTS_MEMORY_CAP else Suc (ev_mem_count (?ev es)))"
      by (simp add: mem_push_def Let_def)
    moreover have "tl (drop (length es - EVENTS_MEMORY_CAP) es) = drop (Suc (length es) - EVENTS_MEMORY_CAP) es"
      if "EVENTS_MEMORY_CAP \<le> length es"
      by (simp only: Suc_diff_le [OF that] drop_Suc tl_drop)
    moreover have "map (\<lambda>e. e\<lparr> e_seq := 0 \<rparr>) (tl (mem_view (?ev es)))
        = map (\<lambda>e. e\<lparr> e_seq := 0 \<rparr>) (tl (drop (length es - EVENTS_MEMORY_CAP) es))"
      using snoc by (simp only: map_tl)
    ultimately show ?case
      using snoc by (auto simp: mem_view_push min_def)
  qed
  then show ?thesis by (simp add: pending_list_def)
qed

text \<open>
  Failed statements lose nothing: an append that reports failure leaves the stored rows
  as they were, and a failed acknowledgement or position update leaves the whole store
  unchanged, whichever statements failed.
\<close>

theorem failed_statements_lose_nothing:
  "(\<not> fst (events_append ok ev e) \<longrightarrow> stored_list (snd (events_append ok ev e)) = stored_list ev)
    \<and> (\<not> fst (events_ack ok ev v) \<longrightarrow> snd (events_ack ok ev v) = ev)
    \<and> (\<not> fst (events_rewind_to_seq ok ev v) \<longrightarrow> snd (events_rewind_to_seq ok ev v) = ev)
    \<and> (\<not> fst (events_mark_all_sent ok ev) \<longrightarrow> snd (events_mark_all_sent ok ev) = ev)
    \<and> (fst (events_rewind_to_time ok ev t) = -1 \<and> \<not> ok Sql_set_sent \<longrightarrow> snd (events_rewind_to_time ok ev t) = ev)"
proof -
  have repair: "stored_list (snd (events_repair_index ok ev)) = stored_list ev"
    by (auto simp: events_repair_index_def set_sent_seq_def stored_list_def Let_def split: option.splits)
  have "\<not> fst (events_append ok ev e) \<Longrightarrow>
      snd (events_append ok ev e) = snd (events_repair_index ok ev)"
    by (auto simp: events_append_def Let_def split: option.splits if_splits)
  with repair have "\<not> fst (events_append ok ev e) \<Longrightarrow> stored_list (snd (events_append ok ev e)) = stored_list ev"
    by simp
  moreover have "\<not> fst (events_ack ok ev v) \<Longrightarrow> snd (events_ack ok ev v) = ev"
    by (auto simp: events_ack_def Let_def split: option.splits if_splits)
  moreover have "\<not> fst (events_rewind_to_seq ok ev v) \<Longrightarrow> snd (events_rewind_to_seq ok ev v) = ev"
    by (auto simp: events_rewind_to_seq_def set_sent_seq_def Let_def split: option.splits if_splits)
  moreover have "\<not> fst (events_mark_all_sent ok ev) \<Longrightarrow> snd (events_mark_all_sent ok ev) = ev"
    by (auto simp: events_mark_all_sent_def set_sent_seq_def Let_def split: option.splits if_splits)
  moreover have "\<not> ok Sql_set_sent \<Longrightarrow> snd (events_rewind_to_time ok ev t) = ev"
    by (auto simp: events_rewind_to_time_def set_sent_seq_def Let_def split: option.splits if_splits)
  ultimately show ?thesis by blast
qed

theorem failed_statements_lose_nothing_witness:
  "events_append (\<lambda>_. False) (demo_store 3) (demo_event 0 300) = (False, demo_store 3)
    \<and> stored_list (snd (events_append (\<lambda>_. False) (demo_store 3) (demo_event 0 300))) = stored_list (demo_store 3)
    \<and> snd (events_ack (\<lambda>_. False) (demo_store 3) 4) = demo_store 3
    \<and> snd (events_rewind_to_seq (\<lambda>_. False) (demo_store 3) 4) = demo_store 3"
proof -
  let ?bad = "\<lambda>_. False" and ?ev = "demo_store 3" and ?e = "demo_event 0 300"
  have app: "events_append ?bad ?ev ?e = (False, ?ev)"
    by (simp add: events_append_def events_repair_index_def scalar_with_def demo_simps)
  moreover have "\<not> fst (events_ack ?bad ?ev 4)" by (simp add: events_ack_def demo_simps)
  ultimately show ?thesis
    using failed_statements_lose_nothing [of ?bad ?ev ?e 4 0]
    by (auto simp: events_rewind_to_seq_def scalar_with_def demo_simps)
qed

text \<open>
  A read of \<open>MAX(seq)\<close> that fails is taken for an empty table: the index repair before
  the next append then moves the read position to 0, and every stored event, already
  acknowledged, becomes pending again.
\<close>

theorem failed_max_resends_everything:
  "(\<exists>ok. pending_list (demo_store 5) = []
      \<and> map e_seq (pending_list (snd (events_append ok (demo_store 5) (demo_event 0 300)))) = [4, 5, 6])"
proof (rule exI)
  show "pending_list (demo_store 5) = []
      \<and> map e_seq (pending_list (snd (events_append (\<lambda>st. st \<noteq> St_max) (demo_store 5) (demo_event 0 300)))) = [4, 5, 6]"
    by (simp add: pending_list_def events_append_def events_repair_index_def set_sent_seq_def Let_def
        scalar_with_def sql_insert_event_def sql_next_seq_def demo_simps)
qed

end
