(* ===== verification/User_Rows.thy ===== *)
theory User_Rows
  imports Sql_Rows
begin

text \<open>
  The records of the user directory (\<open>acud/users.h\<close>) and their rows in the tables
  \<open>users\<close> and \<open>user_cards\<close> (\<open>acud/users.c\<close>): the columns a statement lists, the values
  \<open>bind_record\<close> binds to them and what \<open>read_record\<close> takes from a row. Shown: both lists of
  columns agree, a stored record is read back as it was, and the statements of the source on
  the rows are the operations on lists of records that \<open>Users_Store\<close> uses.
\<close>

abbreviation (input) ACU_USER_ID_LEN :: nat where "ACU_USER_ID_LEN \<equiv> 8"
abbreviation (input) ACU_USER_NAME_LEN :: nat where "ACU_USER_NAME_LEN \<equiv> 16"
abbreviation (input) ACU_USER_GROUP_LEN :: nat where "ACU_USER_GROUP_LEN \<equiv> 16"
abbreviation (input) ACU_USER_PROX_LEN :: nat where "ACU_USER_PROX_LEN \<equiv> 32"
abbreviation (input) ACU_USER_CARD_LEN :: nat where "ACU_USER_CARD_LEN \<equiv> 8"

section \<open>Data\<close>

record user_record =
  ur_user_id :: "byte list"
  ur_general_group :: byte
  ur_revision_id :: u16
  ur_access_option :: u32
  ur_level :: byte
  ur_validation_code :: u16
  ur_timezone_code :: u16
  ur_expired_date :: u32
  ur_prox_type :: byte
  ur_prox_wiegand :: byte
  ur_bio_type :: byte
  ur_bio_type_sub :: byte
  ur_template_count :: byte
  ur_access_password :: u16
  ur_canteen_code :: byte
  ur_lcd_name :: "byte list"
  ur_restrict_type :: byte
  ur_restrict_limit_type :: byte
  ur_restrict_limit_count :: byte
  ur_group_codes :: "byte list"

record user_card =
  uc_card_id :: "byte list"
  uc_user_id :: "byte list"
  uc_prox_raw :: "byte list"

text \<open>\<open>memset(\&r, 0, sizeof(r))\<close>\<close>

definition zero_user :: user_record where
  "zero_user = \<lparr> ur_user_id = zeros 8, ur_general_group = 0, ur_revision_id = 0, ur_access_option = 0,
     ur_level = 0, ur_validation_code = 0, ur_timezone_code = 0, ur_expired_date = 0,
     ur_prox_type = 0, ur_prox_wiegand = 0, ur_bio_type = 0, ur_bio_type_sub = 0,
     ur_template_count = 0, ur_access_password = 0, ur_canteen_code = 0, ur_lcd_name = zeros 16,
     ur_restrict_type = 0, ur_restrict_limit_type = 0, ur_restrict_limit_count = 0,
     ur_group_codes = zeros 16 \<rparr>"

definition zero_card :: user_card where
  "zero_card = \<lparr> uc_card_id = zeros 8, uc_user_id = zeros 8, uc_prox_raw = zeros 32 \<rparr>"

text \<open>What the C types guarantee: the arrays have their length.\<close>

definition wf_user :: "user_record \<Rightarrow> bool" where
  "wf_user r \<longleftrightarrow> length (ur_user_id r) = 8 \<and> length (ur_lcd_name r) = 16 \<and> length (ur_group_codes r) = 16"

definition wf_card :: "user_card \<Rightarrow> bool" where
  "wf_card c \<longleftrightarrow> length (uc_card_id c) = 8 \<and> length (uc_user_id c) = 8 \<and> length (uc_prox_raw c) = 32"

section \<open>Columns\<close>

definition USERS_COLUMNS :: "string list" where
  "USERS_COLUMNS =
    [''user_id'', ''general_group'', ''revision_id'', ''access_option'', ''level'',
     ''validation_code'', ''timezone_code'', ''expired_date'', ''prox_type'', ''prox_wiegand'',
     ''bio_type'', ''bio_type_sub'', ''template_count'', ''access_password'', ''canteen_code'',
     ''lcd_name'', ''restrict_type'', ''restrict_limit_type'', ''restrict_limit_count'', ''group_codes'']"

definition USERS_COLUMNS_Q :: "string list" where
  "USERS_COLUMNS_Q =
    [''users.user_id'', ''users.general_group'', ''users.revision_id'', ''users.access_option'',
     ''users.level'', ''users.validation_code'', ''users.timezone_code'', ''users.expired_date'',
     ''users.prox_type'', ''users.prox_wiegand'', ''users.bio_type'', ''users.bio_type_sub'',
     ''users.template_count'', ''users.access_password'', ''users.canteen_code'', ''users.lcd_name'',
     ''users.restrict_type'', ''users.restrict_limit_type'', ''users.restrict_limit_count'', ''users.group_codes'']"

definition bind_record :: "user_record \<Rightarrow> sql_value list" where
  "bind_record r =
    [Sql_blob (ur_user_id r), Sql_int (uint (ur_general_group r)), Sql_int (uint (ur_revision_id r)),
     Sql_int (uint (ur_access_option r)), Sql_int (uint (ur_level r)), Sql_int (uint (ur_validation_code r)),
     Sql_int (uint (ur_timezone_code r)), Sql_int (uint (ur_expired_date r)), Sql_int (uint (ur_prox_type r)),
     Sql_int (uint (ur_prox_wiegand r)), Sql_int (uint (ur_bio_type r)), Sql_int (uint (ur_bio_type_sub r)),
     Sql_int (uint (ur_template_count r)), Sql_int (uint (ur_access_password r)), Sql_int (uint (ur_canteen_code r)),
     Sql_blob (ur_lcd_name r), Sql_int (uint (ur_restrict_type r)), Sql_int (uint (ur_restrict_limit_type r)),
     Sql_int (uint (ur_restrict_limit_count r)), Sql_blob (ur_group_codes r)]"

definition read_record :: "sql_value list \<Rightarrow> user_record" where
  "read_record st =
    \<lparr> ur_user_id = column_blob_fixed st 0 ACU_USER_ID_LEN, ur_general_group = ucast (column_int st 1),
     ur_revision_id = ucast (column_int st 2), ur_access_option = word_of_int (column_int64 st 3),
     ur_level = ucast (column_int st 4), ur_validation_code = ucast (column_int st 5),
     ur_timezone_code = ucast (column_int st 6), ur_expired_date = word_of_int (column_int64 st 7),
     ur_prox_type = ucast (column_int st 8), ur_prox_wiegand = ucast (column_int st 9),
     ur_bio_type = ucast (column_int st 10), ur_bio_type_sub = ucast (column_int st 11),
     ur_template_count = ucast (column_int st 12), ur_access_password = ucast (column_int st 13),
     ur_canteen_code = ucast (column_int st 14), ur_lcd_name = column_blob_fixed st 15 ACU_USER_NAME_LEN,
     ur_restrict_type = ucast (column_int st 16), ur_restrict_limit_type = ucast (column_int st 17),
     ur_restrict_limit_count = ucast (column_int st 18), ur_group_codes = column_blob_fixed st 19 ACU_USER_GROUP_LEN \<rparr>"

text \<open>\<open>user_cards(card_id, user_id, prox_raw)\<close>\<close>

definition CARDS_COLUMNS :: "string list" where
  "CARDS_COLUMNS = [''card_id'', ''user_id'', ''prox_raw'']"

definition bind_card :: "user_card \<Rightarrow> sql_value list" where
  "bind_card c = [Sql_blob (uc_card_id c), Sql_blob (uc_user_id c), Sql_blob (uc_prox_raw c)]"

definition read_card :: "sql_value list \<Rightarrow> user_card" where
  "read_card st = \<lparr> uc_card_id = column_blob_fixed st 0 ACU_USER_CARD_LEN,
     uc_user_id = column_blob_fixed st 1 ACU_USER_ID_LEN, uc_prox_raw = column_blob_fixed st 2 ACU_USER_PROX_LEN \<rparr>"

section \<open>Rows\<close>

definition user_row :: "user_record \<Rightarrow> sql_row" where
  "user_row r = sql_values USERS_COLUMNS (bind_record r)"

definition card_row :: "user_card \<Rightarrow> sql_row" where
  "card_row c = sql_values CARDS_COLUMNS (bind_card c)"

text \<open>The columns of \<open>users LEFT JOIN user_cards c\<close> that the reading statements list.\<close>

definition joined_columns :: "user_record \<times> user_card option \<Rightarrow> sql_value list" where
  "joined_columns rc =
    sql_select (USERS_COLUMNS_Q @ [''c.card_id'', ''c.prox_raw''])
      (sql_qualify ''users'' (user_row (fst rc)) ++
        (case snd rc of None \<Rightarrow> Map.empty | Some c \<Rightarrow> sql_qualify ''c'' (card_row c)))"

text \<open>One row as \<open>read_rows\<close> writes it: no card leaves the card and its raw data zero.\<close>

definition read_joined :: "sql_value list \<Rightarrow> user_record \<times> user_card" where
  "read_joined st =
    (let r = read_record st
     in (r, \<lparr> uc_card_id = column_blob_fixed st 20 ACU_USER_CARD_LEN, uc_user_id = ur_user_id r,
              uc_prox_raw = column_blob_fixed st 21 ACU_USER_PROX_LEN \<rparr>))"

definition read_row :: "user_record \<times> user_card option \<Rightarrow> user_record \<times> user_card" where
  "read_row rc = read_joined (joined_columns rc)"

text \<open>What is read back from a stored record.\<close>

definition stored_record :: "user_record \<Rightarrow> user_record" where
  "stored_record r = read_record (sql_select USERS_COLUMNS (user_row r))"

definition stored_card :: "user_card \<Rightarrow> user_card" where
  "stored_card c = read_card (sql_select CARDS_COLUMNS (card_row c))"

section \<open>The columns fit\<close>

lemma length_columns: "length USERS_COLUMNS = 20" "length (bind_record r) = 20" "length USERS_COLUMNS_Q = 20"
  by (simp_all add: USERS_COLUMNS_def bind_record_def USERS_COLUMNS_Q_def)

lemma distinct_columns: "distinct USERS_COLUMNS"
  by (simp add: USERS_COLUMNS_def)

lemma columns_qualified: "USERS_COLUMNS_Q = map (\<lambda>c. ''users.'' @ c) USERS_COLUMNS"
  by (simp add: USERS_COLUMNS_Q_def USERS_COLUMNS_def)

lemma user_row_columns: "sql_select USERS_COLUMNS (user_row r) = bind_record r"
  unfolding user_row_def by (rule sql_select_values) (simp_all add: distinct_columns length_columns)

lemma card_row_columns: "sql_select CARDS_COLUMNS (card_row c) = bind_card c"
  unfolding card_row_def by (rule sql_select_values) (simp_all add: CARDS_COLUMNS_def bind_card_def)

lemma read_bound_record:
  "read_record (bind_record r @ vs) = r\<lparr> ur_user_id := blob_fixed ACU_USER_ID_LEN (ur_user_id r),
     ur_lcd_name := blob_fixed ACU_USER_NAME_LEN (ur_lcd_name r),
     ur_group_codes := blob_fixed ACU_USER_GROUP_LEN (ur_group_codes r) \<rparr>"
  by (cases r) (simp add: read_record_def bind_record_def column_int_def column_blob_fixed_def)

lemma read_bound_card:
  "read_card (bind_card c) = \<lparr> uc_card_id = blob_fixed ACU_USER_CARD_LEN (uc_card_id c),
     uc_user_id = blob_fixed ACU_USER_ID_LEN (uc_user_id c),
     uc_prox_raw = blob_fixed ACU_USER_PROX_LEN (uc_prox_raw c) \<rparr>"
  by (simp add: read_card_def bind_card_def column_blob_fixed_def)

lemma stored_record_eq:
  "stored_record r = r\<lparr> ur_user_id := blob_fixed ACU_USER_ID_LEN (ur_user_id r),
     ur_lcd_name := blob_fixed ACU_USER_NAME_LEN (ur_lcd_name r),
     ur_group_codes := blob_fixed ACU_USER_GROUP_LEN (ur_group_codes r) \<rparr>"
  using read_bound_record [of r "[]"] by (simp add: stored_record_def user_row_columns)

lemma stored_record_wf [simp]: "wf_user r \<Longrightarrow> stored_record r = r"
  by (cases r) (simp add: wf_user_def stored_record_eq)

lemma stored_card_wf [simp]: "wf_card c \<Longrightarrow> stored_card c = c"
  by (cases c) (simp add: wf_card_def stored_card_def card_row_columns read_bound_card)

text \<open>The join: the qualified columns are those of the user, followed by the card or by NULLs.\<close>

lemma joined_user_part:
  assumes "\<And>c. other (''users.'' @ c) = None"
  shows "sql_select USERS_COLUMNS_Q (sql_qualify ''users'' (user_row r) ++ other) = bind_record r"
proof -
  have "sql_column (sql_qualify ''users'' (user_row r) ++ other) (''users.'' @ c) = sql_column (user_row r) c" for c
    using assms [of c] by (simp add: sql_column_def map_add_def sql_qualify_def)
  then have "sql_select USERS_COLUMNS_Q (sql_qualify ''users'' (user_row r) ++ other) = sql_select USERS_COLUMNS (user_row r)"
    by (simp add: sql_select_def columns_qualified)
  then show ?thesis by (simp add: user_row_columns)
qed

lemma card_part:
  "sql_column (sql_qualify ''users'' ur ++ sql_qualify ''c'' (card_row c)) ''c.card_id'' = Sql_blob (uc_card_id c)"
  "sql_column (sql_qualify ''users'' ur ++ sql_qualify ''c'' (card_row c)) ''c.prox_raw'' = Sql_blob (uc_prox_raw c)"
  "sql_column (sql_qualify ''users'' ur ++ Map.empty) ''c.card_id'' = Sql_null"
  "sql_column (sql_qualify ''users'' ur ++ Map.empty) ''c.prox_raw'' = Sql_null"
  by (simp_all add: sql_column_def sql_qualify_def map_add_def card_row_def sql_values_def CARDS_COLUMNS_def bind_card_def)

lemma joined_columns_eq:
  "joined_columns (r, oc) = bind_record r @
    (case oc of None \<Rightarrow> [Sql_null, Sql_null] | Some c \<Rightarrow> [Sql_blob (uc_card_id c), Sql_blob (uc_prox_raw c)])"
proof -
  define other where "other = (case oc of None \<Rightarrow> Map.empty | Some c \<Rightarrow> sql_qualify ''c'' (card_row c))"
  have "other (''users.'' @ c) = None" for c by (simp add: other_def sql_qualify_def split: option.split)
  from joined_user_part [of other r, OF this] have
    "joined_columns (r, oc) = bind_record r @
      [sql_column (sql_qualify ''users'' (user_row r) ++ other) ''c.card_id'',
       sql_column (sql_qualify ''users'' (user_row r) ++ other) ''c.prox_raw'']"
    by (simp add: joined_columns_def other_def [symmetric] sql_select_def)
  then show ?thesis by (cases oc) (simp_all add: other_def card_part card_part [simplified])
qed

lemma read_row_eq:
  "read_row rc =
    (let r = stored_record (fst rc)
     in (r, case snd rc of
              None \<Rightarrow> \<lparr> uc_card_id = zeros 8, uc_user_id = ur_user_id r, uc_prox_raw = zeros 32 \<rparr>
            | Some c \<Rightarrow> \<lparr> uc_card_id = blob_fixed ACU_USER_CARD_LEN (uc_card_id c), uc_user_id = ur_user_id r,
                         uc_prox_raw = blob_fixed ACU_USER_PROX_LEN (uc_prox_raw c) \<rparr>))"
proof -
  have "(bind_record r @ [x, y]) ! 20 = x" "(bind_record r @ [x, y]) ! 21 = y" for r x y
    by (simp_all add: nth_append length_columns)
  then show ?thesis
    by (cases rc; cases "snd rc") (simp_all add: read_row_def read_joined_def joined_columns_eq read_bound_record
        stored_record_eq Let_def column_blob_fixed_def blob_fixed_def zeros_def)
qed

section \<open>Tables\<close>

interpretation user_table: keyed_table USERS_COLUMNS bind_record read_record wf_user "''user_id''" ur_user_id Sql_blob
proof unfold_locales
  show "distinct USERS_COLUMNS" by (rule distinct_columns)
  show "length (bind_record r) = length USERS_COLUMNS" for r by (simp add: length_columns)
  show "wf_user r \<Longrightarrow> read_record (bind_record r) = r" for r
    using stored_record_wf [of r] by (simp add: stored_record_def user_row_columns)
  show "sql_column (sql_values USERS_COLUMNS (bind_record r)) ''user_id'' = Sql_blob (ur_user_id r)" for r
    by (simp add: sql_column_def sql_values_def USERS_COLUMNS_def bind_record_def)
qed simp

interpretation card_table: keyed_table CARDS_COLUMNS bind_card read_card wf_card "''card_id''" uc_card_id Sql_blob
proof unfold_locales
  show "wf_card c \<Longrightarrow> read_card (bind_card c) = c" for c
    using stored_card_wf [of c] by (simp add: stored_card_def card_row_columns)
qed (simp_all add: sql_column_def sql_values_def CARDS_COLUMNS_def bind_card_def)

lemma row_is_user_row: "sql_values USERS_COLUMNS (bind_record r) = user_row r" "sql_values CARDS_COLUMNS (bind_card c) = card_row c"
  by (simp_all add: user_row_def card_row_def)

lemmas user_statements = user_table.replace_rows [unfolded row_is_user_row] user_table.delete_rows [unfolded row_is_user_row]
  card_table.replace_rows [unfolded row_is_user_row]

text \<open>\<open>DELETE FROM user_cards WHERE user_id = ?\<close> goes by a column that is not the key.\<close>

lemma delete_cards_rows:
  "sql_delete_where ''user_id'' (Sql_blob i) (map card_row cs) = map card_row (filter (\<lambda>c. uc_user_id c \<noteq> i) cs)"
proof -
  have "sql_column (card_row c) ''user_id'' = Sql_blob (uc_user_id c)" for c
    by (simp add: sql_column_def card_row_def sql_values_def CARDS_COLUMNS_def bind_card_def)
  then show ?thesis by (simp add: sql_delete_where_def filter_map comp_def)
qed

lemma select_user_rows:
  "map read_record (sql_select_where USERS_COLUMNS ''user_id'' (Sql_blob i) (map user_row us)) =
    map stored_record (filter (\<lambda>r. ur_user_id r = i) us)"
  using user_table.key_column
  by (induction us) (simp_all add: sql_select_where_def row_is_user_row stored_record_def)

section \<open>What is stored comes back\<close>

text \<open>
  C31. A user and a card come back from their rows exactly as they were stored: column by column
  from the statement of one user, and from the qualified columns of the join the list is read by.
\<close>

theorem stored_rows_come_back:
  assumes "wf_user r" "wf_card c"
  shows "read_record (sql_select USERS_COLUMNS (user_row r)) = r
    \<and> read_card (sql_select CARDS_COLUMNS (card_row c)) = c
    \<and> read_joined (joined_columns (r, Some c)) = (r, c\<lparr> uc_user_id := ur_user_id r \<rparr>)
    \<and> read_joined (joined_columns (r, None)) = (r, zero_card\<lparr> uc_user_id := ur_user_id r \<rparr>)"
proof -
  have "read_joined (joined_columns rc) = read_row rc" for rc by (simp add: read_row_def)
  moreover have "read_row (r, Some c) = (r, c\<lparr> uc_user_id := ur_user_id r \<rparr>)"
    using assms by (cases c) (simp add: read_row_eq wf_card_def)
  moreover have "read_row (r, None) = (r, zero_card\<lparr> uc_user_id := ur_user_id r \<rparr>)"
    using assms(1) by (simp add: read_row_eq zero_card_def)
  ultimately show ?thesis
    using stored_record_wf [OF assms(1)] stored_card_wf [OF assms(2)]
    by (simp add: stored_record_def stored_card_def)
qed

theorem stored_rows_come_back_witness:
  "read_record (sql_select USERS_COLUMNS (user_row (zero_user\<lparr> ur_level := 200, ur_expired_date := 0xFFFFFFFF \<rparr>))) =
     zero_user\<lparr> ur_level := 200, ur_expired_date := 0xFFFFFFFF \<rparr>"
  using stored_rows_come_back [of "zero_user\<lparr> ur_level := 200, ur_expired_date := 0xFFFFFFFF \<rparr>" zero_card]
  by (simp add: wf_user_def wf_card_def zero_user_def zero_card_def zeros_def)

end
