(* ===== verification/Users_Store.thy ===== *)
theory Users_Store
  imports User_Rows
begin

text \<open>
  The user directory of \<open>acud/users.c\<close>: the tables \<open>users\<close> and \<open>user_cards\<close>, the two
  tables a full download is received into, SQLite's open transaction (the tables as they were
  at \<open>BEGIN\<close>), and the fields of \<open>struct AcuUsers\<close>. A table is the list of its rows in row
  order; \<open>INSERT OR REPLACE\<close> removes the row with the same key and adds the new one at the
  end. Which calls into SQLite succeed is an argument (\<open>ok\<close>); a failing call changes nothing,
  and \<open>BEGIN\<close> also fails inside an open transaction, \<open>COMMIT\<close> outside one. Log lines are not
  modelled.
\<close>

abbreviation (input) USERS_LOAD_COMMIT_EVERY :: nat where "USERS_LOAD_COMMIT_EVERY \<equiv> 5000"
abbreviation (input) ACU_USER_OPT_ENABLE :: u32 where "ACU_USER_OPT_ENABLE \<equiv> 0x80000000"

section \<open>Data\<close>

record user_tables =
  ut_users :: "user_record list"
  ut_cards :: "user_card list"
  ut_users_load :: "user_record list option"
  ut_cards_load :: "user_card list option"

datatype us_stmt =
  St_by_card | St_by_id | St_count | St_put | St_put_card | St_delete
| St_card_by_user | St_read_after | St_read_at | St_load_put | St_load_put_card

datatype us_call =
  Us_schema | Us_prepare us_stmt | Us_step us_stmt | Us_delete_cards | Us_begin | Us_commit
| Us_drop_load | Us_create_load | Us_swap

type_synonym us_ok = "us_call \<Rightarrow> bool"

record acu_users =
  us_tables :: user_tables
  us_saved :: "user_tables option"
  us_stmts :: "us_stmt list"
  us_loading :: bool
  us_in_txn :: bool
  us_load_rows :: nat
  us_load_total :: nat

text \<open>The three answers of a lookup: -1, 0 and 1.\<close>

datatype 'a lookup = Lookup_error | Not_found | Found 'a

section \<open>Rows\<close>

definition replace_user :: "user_record \<Rightarrow> user_record list \<Rightarrow> user_record list" where
  "replace_user r us = filter (\<lambda>x. ur_user_id x \<noteq> ur_user_id r) us @ [r]"

definition replace_card :: "user_card \<Rightarrow> user_card list \<Rightarrow> user_card list" where
  "replace_card c cs = filter (\<lambda>x. uc_card_id x \<noteq> uc_card_id c) cs @ [c]"

section \<open>Statements and transactions\<close>

text \<open>Stepping a statement that was not prepared is an error.\<close>

definition us_step :: "us_ok \<Rightarrow> acu_users \<Rightarrow> us_stmt \<Rightarrow> bool" where
  "us_step ok u st = (st \<in> set (us_stmts u) \<and> ok (Us_step st))"

text \<open>The chain of \<open>prepare_one\<close> calls joined by \<open>||\<close>: it stops at the first failure.\<close>

definition prepare_chain :: "us_ok \<Rightarrow> us_stmt list \<Rightarrow> us_stmt list" where
  "prepare_chain ok sts = takeWhile (\<lambda>st. ok (Us_prepare st)) sts"

definition main_stmts :: "us_stmt list" where
  "main_stmts = [St_by_card, St_by_id, St_count, St_put, St_put_card, St_delete,
     St_card_by_user, St_read_after, St_read_at]"

definition load_stmts :: "us_stmt list" where
  "load_stmts = [St_load_put, St_load_put_card]"

definition us_rollback :: "acu_users \<Rightarrow> acu_users" where
  "us_rollback u = (case us_saved u of None \<Rightarrow> u | Some t \<Rightarrow> u\<lparr> us_tables := t, us_saved := None \<rparr>)"

definition txn_begin :: "us_ok \<Rightarrow> acu_users \<Rightarrow> bool \<times> acu_users" where
  "txn_begin ok u =
    (if us_in_txn u then (True, u)
     else if \<not> (ok Us_begin \<and> us_saved u = None) then (False, u)
     else (True, u\<lparr> us_saved := Some (us_tables u), us_in_txn := True, us_load_rows := 0 \<rparr>))"

definition txn_commit :: "us_ok \<Rightarrow> acu_users \<Rightarrow> bool \<times> acu_users" where
  "txn_commit ok u =
    (if \<not> us_in_txn u then (True, u)
     else
       let u1 = u\<lparr> us_in_txn := False \<rparr>
       in if ok Us_commit \<and> us_saved u \<noteq> None then (True, u1\<lparr> us_saved := None \<rparr>) else (False, u1))"

section \<open>Lookups\<close>

definition first_row :: "'a list \<Rightarrow> 'a lookup" where
  "first_row rs = (case rs of [] \<Rightarrow> Not_found | r # _ \<Rightarrow> Found r)"

definition lookup_with :: "us_ok \<Rightarrow> acu_users \<Rightarrow> us_stmt \<Rightarrow> user_record list \<Rightarrow> user_record lookup" where
  "lookup_with ok u st rows = (if us_step ok u st then first_row (map stored_record rows) else Lookup_error)"

text \<open>\<open>WHERE user_id = (SELECT user_id FROM user_cards WHERE card_id = ?)\<close>\<close>

definition sql_by_card :: "byte list \<Rightarrow> user_tables \<Rightarrow> user_record list" where
  "sql_by_card cid t =
    (case filter (\<lambda>c. uc_card_id c = cid) (ut_cards t) of
       [] \<Rightarrow> []
     | c # _ \<Rightarrow> filter (\<lambda>r. ur_user_id r = uc_user_id c) (ut_users t))"

definition users_lookup_by_card :: "us_ok \<Rightarrow> acu_users \<Rightarrow> byte list \<Rightarrow> user_record lookup" where
  "users_lookup_by_card ok u cid = lookup_with ok u St_by_card (sql_by_card cid (us_tables u))"

definition users_lookup_by_id :: "us_ok \<Rightarrow> acu_users \<Rightarrow> byte list \<Rightarrow> user_record lookup" where
  "users_lookup_by_id ok u uid =
    lookup_with ok u St_by_id (filter (\<lambda>r. ur_user_id r = uid) (ut_users (us_tables u)))"

definition users_lookup_card_by_user :: "us_ok \<Rightarrow> acu_users \<Rightarrow> byte list \<Rightarrow> user_card lookup" where
  "users_lookup_card_by_user ok u uid =
    (if us_step ok u St_card_by_user
     then first_row (map stored_card (filter (\<lambda>c. uc_user_id c = uid) (ut_cards (us_tables u))))
     else Lookup_error)"

text \<open>\<open>users LEFT JOIN user_cards ... ORDER BY users.user_id\<close>; BLOBs compare lexicographically.\<close>

definition join_row :: "user_card list \<Rightarrow> user_record \<Rightarrow> (user_record \<times> user_card option) list" where
  "join_row cs r =
    (case filter (\<lambda>c. uc_user_id c = ur_user_id r) cs of
       [] \<Rightarrow> [(r, None)]
     | ms \<Rightarrow> map (\<lambda>c. (r, Some c)) ms)"

definition join_rows :: "user_tables \<Rightarrow> (user_record \<times> user_card option) list" where
  "join_rows t = concat (map (join_row (ut_cards t)) (sort_key ur_user_id (ut_users t)))"

definition read_rows :: "us_ok \<Rightarrow> us_stmt \<Rightarrow> int \<Rightarrow> (user_record \<times> user_card option) list \<Rightarrow> (user_record \<times> user_card) list" where
  "read_rows ok st mx rows = (if ok (Us_step st) then map read_row (take (nat mx) rows) else [])"

text \<open>\<open>None\<close> is the return value -1.\<close>

definition users_read_after ::
  "us_ok \<Rightarrow> acu_users \<Rightarrow> byte list option \<Rightarrow> int \<Rightarrow> (user_record \<times> user_card) list option" where
  "users_read_after ok u after_id mx =
    (if St_read_after \<notin> set (us_stmts u) \<or> mx \<le> 0 then None
     else
       let key = (case after_id of None \<Rightarrow> zeros 8 | Some i \<Rightarrow> i)
       in Some (read_rows ok St_read_after mx
            (filter (\<lambda>rc. key < ur_user_id (fst rc)) (join_rows (us_tables u)))))"

definition users_read_at ::
  "us_ok \<Rightarrow> acu_users \<Rightarrow> int \<Rightarrow> int \<Rightarrow> (user_record \<times> user_card) list option" where
  "users_read_at ok u offset mx =
    (if St_read_at \<notin> set (us_stmts u) \<or> mx \<le> 0 \<or> offset < 0 then None
     else Some (read_rows ok St_read_at mx (drop (nat offset) (join_rows (us_tables u)))))"

definition users_count :: "us_ok \<Rightarrow> acu_users \<Rightarrow> int" where
  "users_count ok u = (if us_step ok u St_count then int (length (ut_users (us_tables u))) else -1)"

section \<open>Single changes\<close>

definition on_tables :: "(user_tables \<Rightarrow> user_tables) \<Rightarrow> acu_users \<Rightarrow> acu_users" where
  "on_tables f u = u\<lparr> us_tables := f (us_tables u) \<rparr>"

text \<open>The boolean is the return value 0 (True) or -1 (False).\<close>

definition users_put :: "us_ok \<Rightarrow> acu_users \<Rightarrow> user_record \<Rightarrow> bool \<times> acu_users" where
  "users_put ok u rec =
    (if us_step ok u St_put then (True, on_tables (\<lambda>t. t\<lparr> ut_users := replace_user rec (ut_users t) \<rparr>) u)
     else (False, u))"

definition users_put_card :: "us_ok \<Rightarrow> acu_users \<Rightarrow> user_card \<Rightarrow> bool \<times> acu_users" where
  "users_put_card ok u cd =
    (if us_step ok u St_put_card then (True, on_tables (\<lambda>t. t\<lparr> ut_cards := replace_card cd (ut_cards t) \<rparr>) u)
     else (False, u))"

text \<open>A failure to delete the cards is not reported.\<close>

definition users_delete :: "us_ok \<Rightarrow> acu_users \<Rightarrow> byte list \<Rightarrow> bool \<times> acu_users" where
  "users_delete ok u uid =
    (let u1 = (if ok Us_delete_cards
               then on_tables (\<lambda>t. t\<lparr> ut_cards := filter (\<lambda>c. uc_user_id c \<noteq> uid) (ut_cards t) \<rparr>) u else u)
     in if us_step ok u1 St_delete
        then (True, on_tables (\<lambda>t. t\<lparr> ut_users := filter (\<lambda>r. ur_user_id r \<noteq> uid) (ut_users t) \<rparr>) u1)
        else (False, u1))"

section \<open>The full download\<close>

definition users_load_in_progress :: "acu_users \<Rightarrow> bool" where
  "users_load_in_progress u = us_loading u"

definition users_load_abort :: "us_ok \<Rightarrow> acu_users \<Rightarrow> acu_users" where
  "users_load_abort ok u =
    (let u1 = (if us_in_txn u then (us_rollback u)\<lparr> us_in_txn := False \<rparr> else u);
         u2 = u1\<lparr> us_stmts := filter (\<lambda>st. st \<notin> set load_stmts) (us_stmts u1) \<rparr>;
         u3 = (if ok Us_drop_load
               then on_tables (\<lambda>t. t\<lparr> ut_users_load := None, ut_cards_load := None \<rparr>) u2 else u2)
     in u3\<lparr> us_loading := False, us_load_total := 0 \<rparr>)"

definition users_load_begin :: "us_ok \<Rightarrow> acu_users \<Rightarrow> bool \<times> acu_users" where
  "users_load_begin ok u =
    (let u0 = (if us_loading u then users_load_abort ok u else u)
     in if \<not> ok Us_create_load then (False, u0)
        else
          let u1 = on_tables (\<lambda>t. t\<lparr> ut_users_load := Some [], ut_cards_load := Some [] \<rparr>) u0;
              ps = prepare_chain ok load_stmts;
              u2 = u1\<lparr> us_stmts := us_stmts u1 @ ps \<rparr>
          in if length ps < length load_stmts then (False, u2)
             else case txn_begin ok (u2\<lparr> us_loading := True, us_load_total := 0 \<rparr>) of
                    (False, u3) \<Rightarrow> (False, u3\<lparr> us_loading := False \<rparr>)
                  | (True, u3) \<Rightarrow> (True, u3))"

definition rotate_txn_if_needed :: "us_ok \<Rightarrow> acu_users \<Rightarrow> bool \<times> acu_users" where
  "rotate_txn_if_needed ok u =
    (if us_load_rows u < USERS_LOAD_COMMIT_EVERY then (True, u)
     else case txn_commit ok u of
            (False, u1) \<Rightarrow> (False, u1)
          | (True, u1) \<Rightarrow> txn_begin ok u1)"

definition users_load_put :: "us_ok \<Rightarrow> acu_users \<Rightarrow> user_record \<Rightarrow> bool \<times> acu_users" where
  "users_load_put ok u rec =
    (if \<not> us_loading u then (False, u)
     else case ut_users_load (us_tables u) of
            None \<Rightarrow> (False, u)
          | Some rows \<Rightarrow>
              if \<not> us_step ok u St_load_put then (False, u)
              else rotate_txn_if_needed ok
                ((on_tables (\<lambda>t. t\<lparr> ut_users_load := Some (replace_user rec rows) \<rparr>) u)
                  \<lparr> us_load_rows := us_load_rows u + 1, us_load_total := us_load_total u + 1 \<rparr>))"

definition users_load_put_card :: "us_ok \<Rightarrow> acu_users \<Rightarrow> user_card \<Rightarrow> bool \<times> acu_users" where
  "users_load_put_card ok u cd =
    (if \<not> us_loading u then (False, u)
     else case ut_cards_load (us_tables u) of
            None \<Rightarrow> (False, u)
          | Some rows \<Rightarrow>
              if \<not> us_step ok u St_load_put_card then (False, u)
              else rotate_txn_if_needed ok
                ((on_tables (\<lambda>t. t\<lparr> ut_cards_load := Some (replace_card cd rows) \<rparr>) u)
                  \<lparr> us_load_rows := us_load_rows u + 1 \<rparr>))"

text \<open>
  The exchange is one transaction: \<open>BEGIN\<close>, drop the old tables, rename the received ones,
  \<open>COMMIT\<close>. When it fails the code issues \<open>ROLLBACK\<close>. The statements are prepared again
  in both cases.
\<close>

definition swap_tables :: "user_tables \<Rightarrow> user_tables option" where
  "swap_tables t =
    (case (ut_users_load t, ut_cards_load t) of
       (Some us, Some cs) \<Rightarrow>
         Some \<lparr> ut_users = us, ut_cards = cs, ut_users_load = None, ut_cards_load = None \<rparr>
     | _ \<Rightarrow> None)"

definition users_load_commit :: "us_ok \<Rightarrow> acu_users \<Rightarrow> bool \<times> acu_users" where
  "users_load_commit ok u =
    (if \<not> us_loading u then (False, u)
     else case txn_commit ok u of
            (False, u1) \<Rightarrow> (False, users_load_abort ok u1)
          | (True, u1) \<Rightarrow>
              let swapped = (if ok Us_swap \<and> us_saved u1 = None then swap_tables (us_tables u1) else None);
                  u2 = (case swapped of
                          Some t \<Rightarrow> u1\<lparr> us_tables := t \<rparr>
                        | None \<Rightarrow> us_rollback u1);
                  ps = prepare_chain ok main_stmts;
                  u3 = u2\<lparr> us_loading := False, us_load_total := 0, us_stmts := ps \<rparr>
              in (swapped \<noteq> None \<and> length ps = length main_stmts, u3))"

section \<open>Opening and closing\<close>

text \<open>\<open>file = None\<close>: \<open>sqlite3_open\<close> failed; otherwise the tables found in the file.\<close>

definition users_open :: "us_ok \<Rightarrow> string \<Rightarrow> user_tables option \<Rightarrow> acu_users option" where
  "users_open ok path file =
    (if path = [] then None
     else case file of
            None \<Rightarrow> None
          | Some t \<Rightarrow>
              if \<not> ok Us_schema then None
              else
                let t1 = (if ok Us_drop_load then t\<lparr> ut_users_load := None, ut_cards_load := None \<rparr> else t);
                    ps = prepare_chain ok main_stmts
                in if length ps < length main_stmts then None
                   else Some \<lparr> us_tables = t1, us_saved = None, us_stmts = ps, us_loading = False,
                              us_in_txn = False, us_load_rows = 0, us_load_total = 0 \<rparr>)"

text \<open>
  What the file holds after \<open>users_close\<close>, and equally after a crash or a power cut: an open
  transaction is undone.
\<close>

definition users_file :: "acu_users \<Rightarrow> user_tables" where
  "users_file u = (case us_saved u of None \<Rightarrow> us_tables u | Some t \<Rightarrow> t)"

definition users_close :: "acu_users \<Rightarrow> user_tables" where
  "users_close u = users_file (if us_in_txn u then us_rollback u else u)"

section \<open>The five test users\<close>

record seed_row =
  sd_card :: "byte list"
  sd_user_no :: byte
  sd_enabled :: bool
  sd_validation :: u16
  sd_timezone :: u16

definition seed_rows :: "seed_row list" where
  "seed_rows =
    [\<lparr> sd_card = [0x04, 0xA1, 0xB2, 0xC3, 0xD4, 0xE5, 0xF6, 0x00], sd_user_no = 1, sd_enabled = True,
       sd_validation = 0, sd_timezone = 0 \<rparr>,
     \<lparr> sd_card = [0xAA, 0xBB, 0xCC, 0xDD, 0x11, 0x22, 0x33, 0x00], sd_user_no = 2, sd_enabled = False,
       sd_validation = 0, sd_timezone = 0 \<rparr>,
     \<lparr> sd_card = [0x11, 0x22, 0x33, 0x44, 0x55, 0x66, 0x77, 0x00], sd_user_no = 3, sd_enabled = True,
       sd_validation = 1, sd_timezone = 0 \<rparr>,
     \<lparr> sd_card = [0x22, 0x33, 0x44, 0x55, 0x66, 0x77, 0x88, 0x00], sd_user_no = 4, sd_enabled = True,
       sd_validation = 2, sd_timezone = 1 \<rparr>,
     \<lparr> sd_card = [0x33, 0x44, 0x55, 0x66, 0x77, 0x88, 0x99, 0x00], sd_user_no = 5, sd_enabled = True,
       sd_validation = 0, sd_timezone = 2 \<rparr>]"

definition seed_record :: "seed_row \<Rightarrow> user_record" where
  "seed_record s = zero_user\<lparr> ur_user_id := zeros 7 @ [sd_user_no s],
     ur_access_option := (if sd_enabled s then ACU_USER_OPT_ENABLE else 0), ur_level := 1,
     ur_validation_code := sd_validation s, ur_timezone_code := sd_timezone s,
     ur_expired_date := 0xFFFFFF, ur_revision_id := 1, ur_lcd_name := replicate 16 0x20 \<rparr>"

definition seed_card :: "seed_row \<Rightarrow> user_card" where
  "seed_card s = zero_card\<lparr> uc_card_id := sd_card s, uc_user_id := zeros 7 @ [sd_user_no s] \<rparr>"

primrec seed_all :: "us_ok \<Rightarrow> seed_row list \<Rightarrow> acu_users \<Rightarrow> acu_users" where
  "seed_all ok [] u = u"
| "seed_all ok (s # ss) u =
    (let (r1, u1) = users_put ok u (seed_record s)
     in if \<not> r1 then u1
        else let (r2, u2) = users_put_card ok u1 (seed_card s)
             in if \<not> r2 then u2 else seed_all ok ss u2)"

definition users_seed_dummy :: "us_ok \<Rightarrow> acu_users \<Rightarrow> acu_users" where
  "users_seed_dummy ok u = (if users_count ok u > 0 then u else seed_all ok seed_rows u)"

section \<open>The directory as two maps\<close>

definition rows_ok :: "user_record list \<Rightarrow> user_card list \<Rightarrow> bool" where
  "rows_ok us cs \<longleftrightarrow> (\<forall>r \<in> set us. wf_user r) \<and> distinct (map ur_user_id us)
     \<and> (\<forall>c \<in> set cs. wf_card c) \<and> distinct (map uc_card_id cs)"

definition users_inv :: "acu_users \<Rightarrow> bool" where
  "users_inv u \<longleftrightarrow> set main_stmts \<subseteq> set (us_stmts u) \<and> rows_ok (ut_users (us_tables u)) (ut_cards (us_tables u))"

definition users_map :: "acu_users \<Rightarrow> byte list \<Rightarrow> user_record option" where
  "users_map u = map_of (map (\<lambda>r. (ur_user_id r, r)) (ut_users (us_tables u)))"

definition cards_map :: "acu_users \<Rightarrow> byte list \<Rightarrow> byte list option" where
  "cards_map u = map_of (map (\<lambda>c. (uc_card_id c, uc_user_id c)) (ut_cards (us_tables u)))"

definition us_all_ok :: us_ok where
  "us_all_ok c = True"

lemma us_all_ok_True [simp]:
  "us_all_ok Us_schema" "us_all_ok (Us_prepare st)" "us_all_ok (Us_step st)" "us_all_ok Us_delete_cards"
  "us_all_ok Us_begin" "us_all_ok Us_commit" "us_all_ok Us_drop_load" "us_all_ok Us_create_load"
  "us_all_ok Us_swap"
  by (simp_all add: us_all_ok_def)

lemma us_all_ok_chain [simp]: "prepare_chain us_all_ok sts = sts"
  by (simp add: prepare_chain_def takeWhile_eq_all_conv)

lemma main_step [simp]: "users_inv u \<Longrightarrow> st \<in> set main_stmts \<Longrightarrow> us_step us_all_ok u st"
  by (auto simp: users_inv_def us_step_def)

lemma on_tables_fields [simp, frame_simps]:
  "us_tables (on_tables f u) = f (us_tables u)" "us_stmts (on_tables f u) = us_stmts u"
  "us_saved (on_tables f u) = us_saved u" "us_loading (on_tables f u) = us_loading u"
  "us_in_txn (on_tables f u) = us_in_txn u" "us_load_rows (on_tables f u) = us_load_rows u"
  "us_load_total (on_tables f u) = us_load_total u"
  by (simp_all add: on_tables_def)

lemma us_step_on_tables [simp]: "us_step ok (on_tables f u) st = us_step ok u st"
  by (simp add: us_step_def)

definition opt_lookup :: "'a option \<Rightarrow> 'a lookup" where
  "opt_lookup r = (case r of None \<Rightarrow> Not_found | Some x \<Rightarrow> Found x)"

lemma first_row_map_of:
  assumes "\<forall>x \<in> set xs. f x = x"
  shows "first_row (map f (filter (\<lambda>x. k x = a) xs)) = opt_lookup (map_of (map (\<lambda>x. (k x, x)) xs) a)"
proof (cases "filter (\<lambda>x. k x = a) xs")
  case Nil
  then have "map_of (map (\<lambda>x. (k x, x)) xs) a = None"
    by (simp only: filter_key_map_of(1) [where v = "\<lambda>x. x"])
  with Nil show ?thesis by (simp add: first_row_def opt_lookup_def)
next
  case (Cons y ys)
  then have "y \<in> set xs" by (metis filter_eq_ConsD in_set_conv_decomp)
  with Cons assms filter_key_map_of(2) [OF Cons, of "\<lambda>x. x"] show ?thesis
    by (simp add: first_row_def opt_lookup_def)
qed

lemma lookup_by_id_map:
  assumes "users_inv u"
  shows "users_lookup_by_id us_all_ok u i = opt_lookup (users_map u i)"
proof -
  have "\<forall>r \<in> set (ut_users (us_tables u)). stored_record r = r"
    using assms by (simp add: users_inv_def rows_ok_def)
  from first_row_map_of [OF this] show ?thesis
    using assms by (simp add: users_lookup_by_id_def lookup_with_def users_map_def main_stmts_def)
qed

lemma sql_by_card_map:
  "sql_by_card cid (us_tables u) = (case cards_map u cid of
      None \<Rightarrow> [] | Some i \<Rightarrow> filter (\<lambda>r. ur_user_id r = i) (ut_users (us_tables u)))"
proof (cases "filter (\<lambda>c. uc_card_id c = cid) (ut_cards (us_tables u))")
  case Nil
  then have "cards_map u cid = None"
    by (simp only: cards_map_def filter_key_map_of(1) [where v = uc_user_id])
  with Nil show ?thesis by (simp add: sql_by_card_def)
next
  case (Cons y ys)
  with filter_key_map_of(2) [OF Cons, of uc_user_id] show ?thesis
    by (simp add: sql_by_card_def cards_map_def)
qed

lemma lookup_by_card_map:
  assumes "users_inv u"
  shows "users_lookup_by_card us_all_ok u cid = opt_lookup (Option.bind (cards_map u cid) (users_map u))"
proof -
  have "\<forall>r \<in> set (ut_users (us_tables u)). stored_record r = r"
    using assms by (simp add: users_inv_def rows_ok_def)
  then have row: "first_row (map stored_record (filter (\<lambda>r. ur_user_id r = i) (ut_users (us_tables u))))
      = opt_lookup (users_map u i)" for i
    unfolding users_map_def by (rule first_row_map_of)
  show ?thesis
    using assms row
    by (cases "cards_map u cid") (auto simp: users_lookup_by_card_def lookup_with_def sql_by_card_map
        main_stmts_def first_row_def opt_lookup_def)
qed

lemma put_maps:
  "users_inv u \<Longrightarrow> wf_user r \<Longrightarrow> users_inv (snd (users_put us_all_ok u r))
    \<and> users_map (snd (users_put us_all_ok u r)) = (users_map u)(ur_user_id r \<mapsto> r)
    \<and> cards_map (snd (users_put us_all_ok u r)) = cards_map u"
  by (auto simp: users_put_def main_stmts_def replace_user_def users_map_def cards_map_def
      users_inv_def rows_ok_def us_step_def distinct_replace map_of_replace [where v = "\<lambda>r. r"]
      simp del: map_append filter_append)

lemma put_card_maps:
  "users_inv u \<Longrightarrow> wf_card c \<Longrightarrow> users_inv (snd (users_put_card us_all_ok u c))
    \<and> users_map (snd (users_put_card us_all_ok u c)) = users_map u
    \<and> cards_map (snd (users_put_card us_all_ok u c)) = (cards_map u)(uc_card_id c \<mapsto> uc_user_id c)"
  by (auto simp: users_put_card_def main_stmts_def replace_card_def users_map_def cards_map_def
      users_inv_def rows_ok_def us_step_def distinct_replace map_of_replace [where v = uc_user_id]
      simp del: map_append filter_append)

lemma distinct_map_filter_key: "distinct (map k xs) \<Longrightarrow> distinct (map k (filter P xs))"
  by (auto simp: distinct_map intro: inj_on_subset)

lemma delete_maps:
  assumes "users_inv u"
  shows "users_inv (snd (users_delete us_all_ok u i))
    \<and> users_map (snd (users_delete us_all_ok u i)) = (users_map u)(i := None)
    \<and> cards_map (snd (users_delete us_all_ok u i)) c
        = (case cards_map u c of None \<Rightarrow> None | Some j \<Rightarrow> if j = i then None else Some j)"
  using assms
  by (auto simp: users_delete_def Let_def users_map_def cards_map_def main_stmts_def
      users_inv_def rows_ok_def us_step_def map_of_delete [where v = "\<lambda>r. r"] map_of_filter_val
      distinct_map_filter_key)

section \<open>The contract of a user directory\<close>

text \<open>
  What the access judgement and the single-user commands rely on: a directory is a map from
  user ids to records and a map from card numbers to user ids; finding a user by card
  composes the two, and each change updates one place of a map.
\<close>

locale user_directory =
  fixes dir_inv :: "'s \<Rightarrow> bool"
    and um :: "'s \<Rightarrow> byte list \<Rightarrow> user_record option"
    and cm :: "'s \<Rightarrow> byte list \<Rightarrow> byte list option"
    and by_card :: "'s \<Rightarrow> byte list \<Rightarrow> user_record lookup"
    and put :: "'s \<Rightarrow> user_record \<Rightarrow> 's"
    and put_card :: "'s \<Rightarrow> user_card \<Rightarrow> 's"
    and del :: "'s \<Rightarrow> byte list \<Rightarrow> 's"
  assumes by_card: "dir_inv s \<Longrightarrow> by_card s c = opt_lookup (Option.bind (cm s c) (um s))"
    and um_key: "dir_inv s \<Longrightarrow> um s i = Some r \<Longrightarrow> ur_user_id r = i"
    and put: "dir_inv s \<Longrightarrow> wf_user r \<Longrightarrow>
          dir_inv (put s r) \<and> um (put s r) = (um s)(ur_user_id r \<mapsto> r) \<and> cm (put s r) = cm s"
    and put_card: "dir_inv s \<Longrightarrow> wf_card cd \<Longrightarrow>
          dir_inv (put_card s cd) \<and> um (put_card s cd) = um s
          \<and> cm (put_card s cd) = (cm s)(uc_card_id cd \<mapsto> uc_user_id cd)"
    and del: "dir_inv s \<Longrightarrow> dir_inv (del s i) \<and> um (del s i) = (um s)(i := None)
          \<and> cm (del s i) c = (case cm s c of None \<Rightarrow> None | Some j \<Rightarrow> if j = i then None else Some j)"
begin

lemma enrol:
  assumes "dir_inv s" "wf_user r" "wf_card cd" "uc_user_id cd = ur_user_id r"
  shows "by_card (put_card (put s r) cd) (uc_card_id cd) = Found r"
    and "dir_inv (put_card (put s r) cd)"
proof -
  have s1: "dir_inv (put s r)" "um (put s r) = (um s)(ur_user_id r \<mapsto> r)"
    using put [OF assms(1,2)] by auto
  have s2: "dir_inv (put_card (put s r) cd)" "um (put_card (put s r) cd) = um (put s r)"
    "cm (put_card (put s r) cd) = (cm (put s r))(uc_card_id cd \<mapsto> uc_user_id cd)"
    using put_card [OF s1(1) assms(3)] by auto
  show "by_card (put_card (put s r) cd) (uc_card_id cd) = Found r"
    using s1 s2 assms(4) by (simp add: by_card opt_lookup_def)
  show "dir_inv (put_card (put s r) cd)" by (rule s2(1))
qed

lemma enrol_others:
  assumes "dir_inv s" "wf_user r" "wf_card cd" "c \<noteq> uc_card_id cd" "cm s c \<noteq> Some (ur_user_id r)"
  shows "by_card (put_card (put s r) cd) c = by_card s c"
proof -
  have s1: "dir_inv (put s r)" "um (put s r) = (um s)(ur_user_id r \<mapsto> r)" "cm (put s r) = cm s"
    using put [OF assms(1,2)] by auto
  have s2: "dir_inv (put_card (put s r) cd)" "um (put_card (put s r) cd) = um (put s r)"
    "cm (put_card (put s r) cd) = (cm (put s r))(uc_card_id cd \<mapsto> uc_user_id cd)"
    using put_card [OF s1(1) assms(3)] by auto
  show ?thesis
    using s1 s2 assms by (cases "cm s c") (auto simp: by_card opt_lookup_def)
qed

lemma delete_revokes:
  assumes "dir_inv s"
  shows "by_card (del s i) c \<noteq> Found r \<or> ur_user_id r \<noteq> i"
    and "cm s c \<noteq> Some i \<Longrightarrow> by_card (del s i) c = by_card s c"
proof -
  have d: "dir_inv (del s i)" "um (del s i) = (um s)(i := None)"
    "cm (del s i) c = (case cm s c of None \<Rightarrow> None | Some j \<Rightarrow> if j = i then None else Some j)"
    using del [OF assms, of i c] by auto
  show "by_card (del s i) c \<noteq> Found r \<or> ur_user_id r \<noteq> i"
    using d um_key [OF assms] by (auto simp: by_card opt_lookup_def split: option.splits)
  show "cm s c \<noteq> Some i \<Longrightarrow> by_card (del s i) c = by_card s c"
    using d assms by (cases "cm s c") (auto simp: by_card opt_lookup_def)
qed

text \<open>A user registered again after a deletion is not reached by the cards held before.\<close>

lemma reenrol_old_card:
  assumes "dir_inv s" "wf_user r" "wf_card cd" "uc_user_id cd = ur_user_id r"
    and "cm s c = Some (ur_user_id r)" "c \<noteq> uc_card_id cd"
  shows "by_card (put_card (put (del s (ur_user_id r)) r) cd) c = Not_found"
proof -
  let ?i = "ur_user_id r"
  have d: "dir_inv (del s ?i)" "cm (del s ?i) c = None"
    using del [OF assms(1), of ?i c] assms(5) by auto
  then have "cm (del s ?i) c \<noteq> Some ?i" by simp
  from enrol_others [OF d(1) assms(2,3,6) this] show ?thesis
    using d by (simp add: by_card opt_lookup_def)
qed

end

definition dir_put :: "acu_users \<Rightarrow> user_record \<Rightarrow> acu_users" where
  "dir_put u r = snd (users_put us_all_ok u r)"

definition dir_put_card :: "acu_users \<Rightarrow> user_card \<Rightarrow> acu_users" where
  "dir_put_card u c = snd (users_put_card us_all_ok u c)"

definition dir_delete :: "acu_users \<Rightarrow> byte list \<Rightarrow> acu_users" where
  "dir_delete u i = snd (users_delete us_all_ok u i)"

lemma users_map_key: "users_map u i = Some r \<Longrightarrow> ur_user_id r = i"
  by (auto simp: users_map_def dest!: map_of_SomeD)

interpretation dir: user_directory users_inv users_map cards_map "users_lookup_by_card us_all_ok"
  dir_put dir_put_card dir_delete
  by unfold_locales
     (simp_all add: lookup_by_card_map users_map_key dir_put_def dir_put_card_def dir_delete_def
        put_maps put_card_maps delete_maps)

section \<open>The full download: frame and exchange\<close>

text \<open>The list that judgements use, in a set of tables.\<close>

definition live_rows :: "user_tables \<Rightarrow> user_record list \<times> user_card list" where
  "live_rows t = (ut_users t, ut_cards t)"

text \<open>The current and the stored (on a crash) live rows are both \<open>x\<close>.\<close>

definition live_is :: "user_record list \<times> user_card list \<Rightarrow> acu_users \<Rightarrow> bool" where
  "live_is x u \<longleftrightarrow> live_rows (us_tables u) = x \<and> (case us_saved u of None \<Rightarrow> True | Some t \<Rightarrow> live_rows t = x)"

lemma live_is_file: "live_is x u \<Longrightarrow> live_rows (users_file u) = x"
  by (auto simp: live_is_def users_file_def split: option.splits)

lemma live_rows_load [simp]:
  "live_rows (t\<lparr> ut_users_load := a \<rparr>) = live_rows t" "live_rows (t\<lparr> ut_cards_load := b \<rparr>) = live_rows t"
  by (simp_all add: live_rows_def)

lemma live_is_fields [simp]:
  "live_is x (u\<lparr> us_stmts := a \<rparr>) = live_is x u" "live_is x (u\<lparr> us_loading := b \<rparr>) = live_is x u"
  "live_is x (u\<lparr> us_load_total := n \<rparr>) = live_is x u" "live_is x (u\<lparr> us_load_rows := n \<rparr>) = live_is x u"
  "live_is x (u\<lparr> us_in_txn := b \<rparr>) = live_is x u"
  by (simp_all add: live_is_def)

lemma live_is_on_tables:
  "(\<And>t. live_rows (f t) = live_rows t) \<Longrightarrow> live_is x (on_tables f u) = live_is x u"
  by (simp add: live_is_def)

lemma live_is_rollback: "live_is x u \<Longrightarrow> live_is x (us_rollback u)"
  by (auto simp: us_rollback_def live_is_def split: option.splits)

lemma live_is_abort: "live_is x u \<Longrightarrow> live_is x (users_load_abort ok u)"
  by (simp add: users_load_abort_def Let_def live_is_on_tables live_is_rollback)

lemma live_is_txn_begin: "live_is x u \<Longrightarrow> live_is x (snd (txn_begin ok u))"
  by (auto simp: txn_begin_def live_is_def)

lemma live_is_txn_commit: "live_is x u \<Longrightarrow> live_is x (snd (txn_commit ok u))"
  by (auto simp: txn_commit_def live_is_def Let_def)

lemma live_is_begin:
  assumes "live_is x u"
  shows "live_is x (snd (users_load_begin ok u))"
proof -
  let ?u0 = "if us_loading u then users_load_abort ok u else u"
  let ?u1 = "on_tables (\<lambda>t. t\<lparr> ut_users_load := Some [], ut_cards_load := Some [] \<rparr>) ?u0"
  let ?u2 = "?u1\<lparr> us_stmts := us_stmts ?u1 @ prepare_chain ok load_stmts \<rparr>"
  have l0: "live_is x ?u0" using assms by (simp add: live_is_abort)
  have l2: "live_is x ?u2" using l0 by (simp add: live_is_on_tables)
  obtain r u3 where t: "txn_begin ok (?u2\<lparr> us_loading := True, us_load_total := 0 \<rparr>) = (r, u3)"
    by (metis prod.exhaust)
  have "live_is x (snd (txn_begin ok (?u2\<lparr> us_loading := True, us_load_total := 0 \<rparr>)))"
    by (rule live_is_txn_begin) (use l2 in simp)
  then have l3: "live_is x u3" using t by simp
  show ?thesis
    unfolding users_load_begin_def Let_def t using l0 l2 l3 by (cases r) simp_all
qed

lemma live_is_rotate: "live_is x u \<Longrightarrow> live_is x (snd (rotate_txn_if_needed ok u))"
  using live_is_txn_commit [of x u ok]
  by (auto simp: rotate_txn_if_needed_def live_is_txn_begin split: prod.splits bool.splits)

lemma live_is_load_put: "live_is x u \<Longrightarrow> live_is x (snd (users_load_put ok u r))"
  by (auto simp: users_load_put_def live_is_on_tables intro!: live_is_rotate split: option.splits)

lemma live_is_load_put_card: "live_is x u \<Longrightarrow> live_is x (snd (users_load_put_card ok u c))"
  by (auto simp: users_load_put_card_def live_is_on_tables intro!: live_is_rotate split: option.splits)

text \<open>The operations of a download before its commit, each with its own outcome of SQLite calls.\<close>

datatype load_op = Op_begin us_ok | Op_put us_ok user_record | Op_put_card us_ok user_card | Op_abort us_ok

primrec load_op_step :: "acu_users \<Rightarrow> load_op \<Rightarrow> acu_users" where
  "load_op_step u (Op_begin ok) = snd (users_load_begin ok u)"
| "load_op_step u (Op_put ok r) = snd (users_load_put ok u r)"
| "load_op_step u (Op_put_card ok c) = snd (users_load_put_card ok u c)"
| "load_op_step u (Op_abort ok) = users_load_abort ok u"

lemma live_is_op: "live_is x u \<Longrightarrow> live_is x (load_op_step u op)"
  by (cases op) (simp_all add: live_is_begin live_is_load_put live_is_load_put_card live_is_abort)

lemma live_is_ops: "live_is x u \<Longrightarrow> live_is x (foldl load_op_step u ops)"
  by (induction ops arbitrary: u) (simp_all add: live_is_op)

text \<open>The commit leaves the old rows or exactly the received ones, in memory and in the file.\<close>

lemma commit_old_or_new:
  assumes "live_is x u"
  shows "live_is x (snd (users_load_commit ok u))
    \<or> (\<exists>us cs. ut_users_load (us_tables u) = Some us \<and> ut_cards_load (us_tables u) = Some cs
          \<and> live_is (us, cs) (snd (users_load_commit ok u)))"
proof (cases "us_loading u")
  case False
  then show ?thesis using assms by (simp add: users_load_commit_def)
next
  case True
  obtain r u1 where t: "txn_commit ok u = (r, u1)" by (metis prod.exhaust)
  have l1: "live_is x u1" using live_is_txn_commit [OF assms, of ok] t by simp
  have tab: "us_tables u1 = us_tables u"
    using t by (auto simp: txn_commit_def Let_def split: if_splits)
  show ?thesis
  proof (cases r)
    case False
    then show ?thesis using True t l1 by (simp add: users_load_commit_def live_is_abort)
  next
    case r: True
    let ?sw = "if ok Us_swap \<and> us_saved u1 = None then swap_tables (us_tables u1) else None"
    show ?thesis
    proof (cases ?sw)
      case None
      then have "live_is x (snd (users_load_commit ok u))"
        using True t r l1 by (simp add: users_load_commit_def Let_def live_is_rollback)
      then show ?thesis ..
    next
      case (Some t')
      then have sv: "us_saved u1 = None" and sw: "swap_tables (us_tables u) = Some t'"
        using tab by (auto split: if_splits)
      obtain us cs where "ut_users_load (us_tables u) = Some us" "ut_cards_load (us_tables u) = Some cs"
        "t' = \<lparr> ut_users = us, ut_cards = cs, ut_users_load = None, ut_cards_load = None \<rparr>"
        using sw by (auto simp: swap_tables_def split: option.splits)
      moreover from this have "live_is (us, cs) (snd (users_load_commit ok u))"
        using True t r Some sv by (simp add: users_load_commit_def Let_def live_is_def live_rows_def)
      ultimately show ?thesis by blast
    qed
  qed
qed

section \<open>The full download: what arrives\<close>

text \<open>A received list: records (\<open>Inl\<close>) and cards (\<open>Inr\<close>) in the order they arrive.\<close>

type_synonym load_item = "user_record + user_card"

definition wf_item :: "load_item \<Rightarrow> bool" where
  "wf_item it = (case it of Inl r \<Rightarrow> wf_user r | Inr c \<Rightarrow> wf_card c)"

definition load_item_step :: "acu_users \<Rightarrow> load_item \<Rightarrow> acu_users" where
  "load_item_step u it = (case it of
      Inl r \<Rightarrow> snd (users_load_put us_all_ok u r)
    | Inr c \<Rightarrow> snd (users_load_put_card us_all_ok u c))"

text \<open>What a list means: the last record of each id, the last owner of each card.\<close>

definition item_users :: "load_item list \<Rightarrow> byte list \<Rightarrow> user_record option" where
  "item_users its = foldl (\<lambda>m it. case it of Inl r \<Rightarrow> m(ur_user_id r \<mapsto> r) | Inr c \<Rightarrow> m) Map.empty its"

definition item_cards :: "load_item list \<Rightarrow> byte list \<Rightarrow> byte list option" where
  "item_cards its = foldl (\<lambda>m it. case it of Inl r \<Rightarrow> m | Inr c \<Rightarrow> m(uc_card_id c \<mapsto> uc_user_id c)) Map.empty its"

definition receiving :: "(byte list \<Rightarrow> user_record option) \<Rightarrow> (byte list \<Rightarrow> byte list option) \<Rightarrow> acu_users \<Rightarrow> bool" where
  "receiving m1 m2 u \<longleftrightarrow> us_loading u \<and> us_in_txn u \<and> us_saved u \<noteq> None
     \<and> set load_stmts \<subseteq> set (us_stmts u) \<and> set main_stmts \<subseteq> set (us_stmts u)
     \<and> (\<exists>us cs. ut_users_load (us_tables u) = Some us \<and> ut_cards_load (us_tables u) = Some cs
          \<and> rows_ok us cs \<and> map_of (map (\<lambda>r. (ur_user_id r, r)) us) = m1
          \<and> map_of (map (\<lambda>c. (uc_card_id c, uc_user_id c)) cs) = m2)"

lemma receiving_rotate:
  assumes "receiving m1 m2 u"
  shows "receiving m1 m2 (snd (rotate_txn_if_needed us_all_ok u))"
  using assms
  by (auto simp: receiving_def rotate_txn_if_needed_def txn_commit_def txn_begin_def Let_def)

lemma receiving_put:
  assumes u: "receiving m1 m2 u" and r: "wf_user r"
  shows "receiving (m1(ur_user_id r \<mapsto> r)) m2 (snd (users_load_put us_all_ok u r))"
proof -
  obtain us cs where t: "ut_users_load (us_tables u) = Some us" "ut_cards_load (us_tables u) = Some cs"
    and ok: "rows_ok us cs" and m: "map_of (map (\<lambda>r. (ur_user_id r, r)) us) = m1"
      "map_of (map (\<lambda>c. (uc_card_id c, uc_user_id c)) cs) = m2"
    using u by (auto simp: receiving_def)
  let ?u1 = "(on_tables (\<lambda>t. t\<lparr> ut_users_load := Some (replace_user r us) \<rparr>) u)
      \<lparr> us_load_rows := us_load_rows u + 1, us_load_total := us_load_total u + 1 \<rparr>"
  have "rows_ok (replace_user r us) cs"
    using ok r distinct_replace [of ur_user_id us r] by (auto simp: rows_ok_def replace_user_def)
  moreover have "map_of (map (\<lambda>r. (ur_user_id r, r)) (replace_user r us)) = m1(ur_user_id r \<mapsto> r)"
    unfolding replace_user_def m(1) [symmetric] by (rule map_of_replace) simp
  ultimately have "receiving (m1(ur_user_id r \<mapsto> r)) m2 ?u1"
    using u t m by (simp add: receiving_def)
  moreover have "users_load_put us_all_ok u r = rotate_txn_if_needed us_all_ok ?u1"
    using u t by (simp add: users_load_put_def receiving_def us_step_def load_stmts_def)
  ultimately show ?thesis by (simp only: receiving_rotate)
qed

lemma receiving_put_card:
  assumes u: "receiving m1 m2 u" and c: "wf_card c"
  shows "receiving m1 (m2(uc_card_id c \<mapsto> uc_user_id c)) (snd (users_load_put_card us_all_ok u c))"
proof -
  obtain us cs where t: "ut_users_load (us_tables u) = Some us" "ut_cards_load (us_tables u) = Some cs"
    and ok: "rows_ok us cs" and m: "map_of (map (\<lambda>r. (ur_user_id r, r)) us) = m1"
      "map_of (map (\<lambda>c. (uc_card_id c, uc_user_id c)) cs) = m2"
    using u by (auto simp: receiving_def)
  let ?u1 = "(on_tables (\<lambda>t. t\<lparr> ut_cards_load := Some (replace_card c cs) \<rparr>) u)
      \<lparr> us_load_rows := us_load_rows u + 1 \<rparr>"
  have "rows_ok us (replace_card c cs)"
    using ok c distinct_replace [of uc_card_id cs c] by (auto simp: rows_ok_def replace_card_def)
  moreover have "map_of (map (\<lambda>c. (uc_card_id c, uc_user_id c)) (replace_card c cs)) = m2(uc_card_id c \<mapsto> uc_user_id c)"
    unfolding replace_card_def m(2) [symmetric] by (rule map_of_replace) simp
  ultimately have "receiving m1 (m2(uc_card_id c \<mapsto> uc_user_id c)) ?u1"
    using u t m by (simp add: receiving_def)
  moreover have "users_load_put_card us_all_ok u c = rotate_txn_if_needed us_all_ok ?u1"
    using u t by (simp add: users_load_put_card_def receiving_def us_step_def load_stmts_def)
  ultimately show ?thesis by (simp only: receiving_rotate)
qed

lemma rotate_succeeds: "receiving m1 m2 u \<Longrightarrow> fst (rotate_txn_if_needed us_all_ok u)"
  by (auto simp: receiving_def rotate_txn_if_needed_def txn_commit_def txn_begin_def Let_def)

lemma load_put_succeeds: "receiving m1 m2 u \<Longrightarrow> fst (users_load_put us_all_ok u r)"
  by (auto simp: receiving_def users_load_put_def us_step_def load_stmts_def rotate_txn_if_needed_def
      txn_commit_def txn_begin_def Let_def)

lemma load_put_card_succeeds: "receiving m1 m2 u \<Longrightarrow> fst (users_load_put_card us_all_ok u c)"
  by (auto simp: receiving_def users_load_put_card_def us_step_def load_stmts_def rotate_txn_if_needed_def
      txn_commit_def txn_begin_def Let_def)

lemma load_item_step_simps [simp]:
  "load_item_step u (Inl r) = snd (users_load_put us_all_ok u r)"
  "load_item_step u (Inr c) = snd (users_load_put_card us_all_ok u c)"
  by (simp_all add: load_item_step_def)

lemma item_maps_snoc:
  "item_users (its @ [Inl r]) = (item_users its)(ur_user_id r \<mapsto> r)"
  "item_cards (its @ [Inl r]) = item_cards its"
  "item_users (its @ [Inr c]) = item_users its"
  "item_cards (its @ [Inr c]) = (item_cards its)(uc_card_id c \<mapsto> uc_user_id c)"
  by (simp_all add: item_users_def item_cards_def)

lemma receiving_item:
  "receiving (item_users its) (item_cards its) u \<Longrightarrow> wf_item it \<Longrightarrow>
    receiving (item_users (its @ [it])) (item_cards (its @ [it])) (load_item_step u it)"
  by (cases it) (simp_all add: wf_item_def item_maps_snoc receiving_put receiving_put_card del: fun_upd_apply)

lemma receiving_items:
  "receiving Map.empty Map.empty u \<Longrightarrow> \<forall>it \<in> set its. wf_item it \<Longrightarrow>
    receiving (item_users its) (item_cards its) (foldl load_item_step u its)"
proof (induction its rule: rev_induct)
  case Nil
  then show ?case by (simp add: item_users_def item_cards_def)
next
  case (snoc it its)
  let ?u = "foldl load_item_step u its"
  have rec: "receiving (item_users its) (item_cards its) ?u" using snoc by simp
  show ?case
  proof (cases it)
    case (Inl r)
    with snoc.prems have "wf_user r" by (simp add: wf_item_def)
    from receiving_put [OF rec this] Inl show ?thesis
      by (simp only: item_maps_snoc foldl_append foldl.simps load_item_step_simps)
  next
    case (Inr c)
    with snoc.prems have "wf_card c" by (simp add: wf_item_def)
    from receiving_put_card [OF rec this] Inr show ?thesis
      by (simp only: item_maps_snoc foldl_append foldl.simps load_item_step_simps)
  qed
qed

text \<open>Idle: no download and no open transaction.\<close>

definition users_idle :: "acu_users \<Rightarrow> bool" where
  "users_idle u \<longleftrightarrow> users_inv u \<and> \<not> us_loading u \<and> \<not> us_in_txn u \<and> us_saved u = None"

lemma begin_receiving:
  assumes "users_idle u"
  shows "fst (users_load_begin us_all_ok u)
    \<and> receiving Map.empty Map.empty (snd (users_load_begin us_all_ok u))"
  using assms
  by (auto simp: users_idle_def users_load_begin_def Let_def txn_begin_def receiving_def users_inv_def
      rows_ok_def)

lemma commit_received:
  assumes "receiving m1 m2 u"
  shows "fst (users_load_commit us_all_ok u) \<and> users_idle (snd (users_load_commit us_all_ok u))
    \<and> users_map (snd (users_load_commit us_all_ok u)) = m1
    \<and> cards_map (snd (users_load_commit us_all_ok u)) = m2"
  using assms
  by (auto simp: receiving_def users_load_commit_def txn_commit_def Let_def swap_tables_def
      users_idle_def users_inv_def users_map_def cards_map_def)

section \<open>Reading the list page by page\<close>

text \<open>The reader of \<open>net.c\<close>: each page continues after the last user of the page before.\<close>

primrec read_pages :: "us_ok \<Rightarrow> acu_users \<Rightarrow> int \<Rightarrow> nat \<Rightarrow> byte list option \<Rightarrow> (user_record \<times> user_card) list" where
  "read_pages ok u n 0 after_id = []"
| "read_pages ok u n (Suc k) after_id =
    (case users_read_after ok u after_id n of
       None \<Rightarrow> []
     | Some [] \<Rightarrow> []
     | Some (p # ps) \<Rightarrow> (p # ps) @ read_pages ok u n k (Some (ur_user_id (fst (last (p # ps))))))"

definition one_card_each :: "user_tables \<Rightarrow> bool" where
  "one_card_each t = (\<forall>r \<in> set (ut_users t). length (filter (\<lambda>c. uc_user_id c = ur_user_id r) (ut_cards t)) \<le> 1)"

definition row_of :: "user_card list \<Rightarrow> user_record \<Rightarrow> user_record \<times> user_card option" where
  "row_of cs r = (r, find (\<lambda>c. uc_user_id c = ur_user_id r) cs)"

lemma find_filter: "find P xs = (case filter P xs of [] \<Rightarrow> None | x # _ \<Rightarrow> Some x)"
  by (induction xs) auto

lemma join_rows_one_card:
  assumes "one_card_each t"
  shows "join_rows t = map (row_of (ut_cards t)) (sort_key ur_user_id (ut_users t))"
proof -
  have "join_row (ut_cards t) r = [row_of (ut_cards t) r]" if "r \<in> set (ut_users t)" for r
    using assms that
    by (cases "filter (\<lambda>c. uc_user_id c = ur_user_id r) (ut_cards t)")
       (auto simp: one_card_each_def join_row_def row_of_def find_filter)
  then have "map (join_row (ut_cards t)) (sort_key ur_user_id (ut_users t))
      = map (\<lambda>r. [row_of (ut_cards t) r]) (sort_key ur_user_id (ut_users t))"
    by simp
  then show ?thesis by (simp only: join_rows_def concat_map_singleton)
qed

lemma join_rows_strict:
  assumes "one_card_each t" "distinct (map ur_user_id (ut_users t))"
  shows "sorted_wrt (\<lambda>a b. ur_user_id (fst a) < ur_user_id (fst b)) (join_rows t)"
proof -
  let ?s = "sort_key ur_user_id (ut_users t)"
  have "distinct (map ur_user_id ?s)" using assms(2) by (simp add: distinct_map)
  then have "sorted_wrt (<) (map ur_user_id ?s)" by (simp add: strict_sorted_iff)
  then show ?thesis
    unfolding join_rows_one_card [OF assms(1)] by (simp add: sorted_wrt_map row_of_def)
qed

lemma read_row_id: "wf_user (fst x) \<Longrightarrow> ur_user_id (fst (read_row x)) = ur_user_id (fst x)"
  by (simp add: read_row_eq Let_def)

definition page_key :: "acu_users \<Rightarrow> nat \<Rightarrow> byte list option" where
  "page_key u m = (if m = 0 then None else Some (ur_user_id (fst (join_rows (us_tables u) ! (m - 1)))))"

definition page_list :: "acu_users \<Rightarrow> bool" where
  "page_list u \<longleftrightarrow> users_inv u \<and> one_card_each (us_tables u)
     \<and> (\<forall>r \<in> set (ut_users (us_tables u)). zeros 8 < ur_user_id r)"

lemma join_rows_users:
  "page_list u \<Longrightarrow> x \<in> set (join_rows (us_tables u)) \<Longrightarrow> fst x \<in> set (ut_users (us_tables u)) \<and> wf_user (fst x)"
  by (auto simp: page_list_def join_rows_one_card row_of_def users_inv_def rows_ok_def)

lemma read_page:
  assumes pl: "page_list u" and n: "0 < n" and m: "m \<le> length (join_rows (us_tables u))"
  shows "users_read_after us_all_ok u (page_key u m) (int n)
    = Some (map read_row (take n (drop m (join_rows (us_tables u)))))"
proof -
  let ?J = "join_rows (us_tables u)"
  have inv: "users_inv u" and one: "one_card_each (us_tables u)" using pl by (auto simp: page_list_def)
  have strict: "sorted_wrt (\<lambda>a b. ur_user_id (fst a) < ur_user_id (fst b)) ?J"
    using join_rows_strict [OF one] inv by (simp add: users_inv_def rows_ok_def)
  have "filter (\<lambda>rc. (case page_key u m of None \<Rightarrow> zeros 8 | Some i \<Rightarrow> i) < ur_user_id (fst rc)) ?J = drop m ?J"
  proof (cases "m = 0")
    case True
    then show ?thesis using pl join_rows_users [OF pl] by (simp add: filter_id_conv page_key_def page_list_def)
  next
    case False
    then show ?thesis
      using filter_greater_sorted [OF strict, of "m - 1"] m by (simp add: page_key_def)
  qed
  then show ?thesis
    using inv n by (simp add: users_read_after_def read_rows_def Let_def users_inv_def main_stmts_def)
qed

lemma last_of_page:
  assumes pl: "page_list u" and m: "m \<le> length (join_rows (us_tables u))"
    and p: "take n (drop m (join_rows (us_tables u))) \<noteq> []"
  shows "Some (ur_user_id (fst (last (map read_row (take n (drop m (join_rows (us_tables u))))))))
    = page_key u (min (m + n) (length (join_rows (us_tables u))))"
proof -
  let ?J = "join_rows (us_tables u)" and ?m' = "min (m + n) (length (join_rows (us_tables u)))"
  let ?p = "take n (drop m ?J)"
  have n: "0 < n" using p by auto
  have m': "?m' \<noteq> 0" "?m' \<le> length ?J" using n p by (auto simp: min_def)
  have len: "length ?p = ?m' - m" using m by auto
  have pos_len: "0 < length ?p" using p by simp
  have "last ?p = ?p ! (length ?p - 1)" using pos_len by (intro last_conv_nth) simp
  also have "\<dots> = drop m ?J ! (length ?p - 1)" using pos_len n by (intro nth_take) auto
  also have "\<dots> = ?J ! (m + (length ?p - 1))" using m by (rule nth_drop)
  also have "m + (length ?p - 1) = ?m' - 1" using pos_len unfolding len by simp
  finally have l: "last ?p = ?J ! (?m' - 1)" .
  have "?J ! (?m' - 1) \<in> set ?J" using m' by (intro nth_mem) linarith
  then have "wf_user (fst (last ?p))" using join_rows_users [OF pl] l by simp
  from read_row_id [OF this] show ?thesis
    using pos_len l m'(1)
    by (simp only: last_map length_greater_0_conv not_False_eq_True page_key_def if_False)
qed

lemma read_pages_from:
  assumes pl: "page_list u" and n: "0 < n"
  shows "m \<le> length (join_rows (us_tables u)) \<Longrightarrow>
    read_pages us_all_ok u (int n) k (page_key u m)
      = map read_row (take (k * n) (drop m (join_rows (us_tables u))))"
proof (induction k arbitrary: m)
  case 0
  then show ?case by simp
next
  case (Suc k)
  let ?J = "join_rows (us_tables u)"
  let ?p = "take n (drop m ?J)"
  have page: "users_read_after us_all_ok u (page_key u m) (int n) = Some (map read_row ?p)"
    by (rule read_page [OF pl n Suc.prems])
  show ?case
  proof (cases "?p")
    case Nil
    then have "drop m ?J = []" using n by auto
    with page show ?thesis by simp
  next
    case (Cons p ps)
    let ?m' = "min (m + n) (length ?J)"
    have "read_pages us_all_ok u (int n) (Suc k) (page_key u m)
        = map read_row ?p @ read_pages us_all_ok u (int n) k (page_key u ?m')"
      using page Cons last_of_page [OF pl Suc.prems, of n] by simp
    also have "read_pages us_all_ok u (int n) k (page_key u ?m') = map read_row (take (k * n) (drop ?m' ?J))"
      by (rule Suc.IH) simp
    also have "map read_row ?p @ map read_row (take (k * n) (drop ?m' ?J))
        = map read_row (take (Suc k * n) (drop m ?J))"
      by (cases "m + n \<le> length ?J")
         (simp_all add: take_add add.commute flip: map_append)
    finally show ?thesis .
  qed
qed

section \<open>Properties\<close>

text \<open>A directory with one user and one card, for the concrete instances.\<close>

definition demo_user :: "byte \<Rightarrow> user_record" where
  "demo_user k = zero_user\<lparr> ur_user_id := zeros 7 @ [k] \<rparr>"

definition demo_card :: "byte \<Rightarrow> byte \<Rightarrow> user_card" where
  "demo_card c k = zero_card\<lparr> uc_card_id := zeros 7 @ [c], uc_user_id := zeros 7 @ [k] \<rparr>"

definition demo_users :: acu_users where
  "demo_users = \<lparr> us_tables = \<lparr> ut_users = [demo_user 2, demo_user 1], ut_cards = [demo_card 9 2],
       ut_users_load = None, ut_cards_load = None \<rparr>,
     us_saved = None, us_stmts = main_stmts, us_loading = False, us_in_txn = False,
     us_load_rows = 0, us_load_total = 0 \<rparr>"

lemmas demo_user_simps = demo_users_def demo_user_def demo_card_def zero_user_def zero_card_def

lemma snoc_le_snoc: "(zs @ [a] \<le> zs @ [b]) = (a \<le> b)" for a b :: "'a :: linorder"
  by (induction zs) auto

lemma snoc_less_snoc: "(zs @ [a] < zs @ [b]) = (a < b)" for a b :: "'a :: linorder"
  using snoc_le_snoc [of zs b a] by (simp flip: not_le)

lemma demo_wf: "wf_user (demo_user k)" "wf_card (demo_card c k)"
  by (simp_all add: wf_user_def wf_card_def demo_user_simps)

lemma demo_users_inv: "users_inv demo_users"
  by (simp add: users_inv_def rows_ok_def demo_users_def demo_wf)
     (simp add: demo_user_simps)

lemma demo_users_idle: "users_idle demo_users"
  by (simp add: users_idle_def demo_users_inv) (simp add: demo_users_def)

text \<open>
  Registering a user and a card of that user makes the card find exactly that record;
  every card that is not the new one and did not belong to the user finds what it found before.
\<close>

theorem enrolled_card_finds_user:
  assumes "users_inv u" "wf_user r" "wf_card cd" "uc_user_id cd = ur_user_id r"
  shows "users_lookup_by_card us_all_ok
            (snd (users_put_card us_all_ok (snd (users_put us_all_ok u r)) cd)) (uc_card_id cd) = Found r
    \<and> (\<forall>c. c \<noteq> uc_card_id cd \<and> cards_map u c \<noteq> Some (ur_user_id r) \<longrightarrow>
         users_lookup_by_card us_all_ok (snd (users_put_card us_all_ok (snd (users_put us_all_ok u r)) cd)) c
           = users_lookup_by_card us_all_ok u c)"
  using dir.enrol(1) [OF assms] dir.enrol_others [OF assms(1-3)]
  by (simp add: dir_put_def dir_put_card_def)

theorem enrolled_card_finds_user_witness:
  "users_lookup_by_card us_all_ok (snd (users_put_card us_all_ok
      (snd (users_put us_all_ok demo_users (demo_user 5))) (demo_card 7 5))) (zeros 7 @ [7]) = Found (demo_user 5)"
proof -
  have "uc_user_id (demo_card 7 5) = ur_user_id (demo_user 5)" "uc_card_id (demo_card 7 5) = zeros 7 @ [7]"
    by (simp_all add: demo_user_def demo_card_def)
  with enrolled_card_finds_user [OF demo_users_inv demo_wf(1) [of 5] demo_wf(2) [of 7 5]]
  show ?thesis by simp
qed



text \<open>
  C17. A full download on an idle directory: while any list of records and cards arrives, the
  live tables stay those from before; the commit succeeds and then the directory is exactly
  the received list (the last record of each id, the last owner of each card).
\<close>

theorem download_replaces_list:
  assumes idle: "users_idle u" and wf: "\<forall>it \<in> set its. wf_item it"
  shows "live_rows (us_tables (foldl load_item_step (snd (users_load_begin us_all_ok u)) its))
        = live_rows (us_tables u)
    \<and> fst (users_load_commit us_all_ok (foldl load_item_step (snd (users_load_begin us_all_ok u)) its))
    \<and> users_map (snd (users_load_commit us_all_ok (foldl load_item_step (snd (users_load_begin us_all_ok u)) its)))
        = item_users its
    \<and> cards_map (snd (users_load_commit us_all_ok (foldl load_item_step (snd (users_load_begin us_all_ok u)) its)))
        = item_cards its"
proof -
  let ?x = "live_rows (us_tables u)"
  have live0: "live_is ?x (snd (users_load_begin us_all_ok u))"
    by (rule live_is_begin) (use idle in \<open>simp add: live_is_def users_idle_def\<close>)
  have "live_is ?x (foldl load_item_step (snd (users_load_begin us_all_ok u)) its)"
  proof (induction its rule: rev_induct)
    case Nil
    then show ?case using live0 by simp
  next
    case (snoc it its)
    then show ?case by (cases it) (simp_all add: live_is_load_put live_is_load_put_card)
  qed
  moreover have "receiving (item_users its) (item_cards its)
      (foldl load_item_step (snd (users_load_begin us_all_ok u)) its)"
    using receiving_items begin_receiving [OF idle] wf by blast
  ultimately show ?thesis using commit_received by (simp add: live_is_def)
qed

theorem download_replaces_list_witness:
  "users_map (snd (users_load_commit us_all_ok (foldl load_item_step
      (snd (users_load_begin us_all_ok demo_users)) [Inl (demo_user 3), Inr (demo_card 9 3)])))
    = [zeros 7 @ [3] \<mapsto> demo_user 3]"
proof -
  have "\<forall>it \<in> set [Inl (demo_user 3), Inr (demo_card 9 3)]. wf_item it"
    by (simp add: wf_item_def demo_wf)
  from download_replaces_list [OF demo_users_idle this] show ?thesis
    by (simp add: item_users_def) (simp add: demo_user_def)
qed

text \<open>
  C6. The list is never half replaced: whatever sequence of starts, records, cards and
  aborts comes, and whichever SQLite calls fail, the live tables and the tables in the file
  stay as they were; a commit, successful or not, leaves either those or exactly the received
  tables.
\<close>

theorem download_never_half:
  assumes "live_is x u"
  shows "live_rows (us_tables (foldl load_op_step u ops)) = x
    \<and> live_rows (users_file (foldl load_op_step u ops)) = x
    \<and> (let v = foldl load_op_step u ops; w = snd (users_load_commit ok v)
       in (live_rows (us_tables w) = x \<and> live_rows (users_file w) = x)
        \<or> (\<exists>us cs. ut_users_load (us_tables v) = Some us \<and> ut_cards_load (us_tables v) = Some cs
             \<and> live_rows (us_tables w) = (us, cs) \<and> live_rows (users_file w) = (us, cs)))"
proof -
  let ?v = "foldl load_op_step u ops"
  have v: "live_is x ?v" by (rule live_is_ops [OF assms])
  then have "live_rows (us_tables ?v) = x" "live_rows (users_file ?v) = x"
    by (simp add: live_is_def, rule live_is_file)
  then show ?thesis
    using commit_old_or_new [OF v, of ok] live_is_file unfolding Let_def live_is_def by blast
qed

theorem download_never_half_witness:
  "live_rows (us_tables (foldl load_op_step demo_users
      [Op_begin us_all_ok, Op_put us_all_ok (demo_user 3), Op_begin (\<lambda>c. c \<noteq> Us_begin)]))
    = ([demo_user 2, demo_user 1], [demo_card 9 2])"
proof -
  have "live_is ([demo_user 2, demo_user 1], [demo_card 9 2]) demo_users"
    by (simp add: live_is_def live_rows_def demo_users_def)
  from download_never_half [OF this, of "[Op_begin us_all_ok, Op_put us_all_ok (demo_user 3), Op_begin (\<lambda>c. c \<noteq> Us_begin)]"]
  show ?thesis by blast
qed

text \<open>
  A change of a single user made while a download is running reports success and is
  visible, and is undone again when the download is aborted: it was made inside the
  download's transaction.
\<close>

theorem abort_undoes_single_change:
  assumes idle: "users_idle u" and r: "wf_user r"
  shows "fst (users_put us_all_ok (snd (users_load_begin us_all_ok u)) r)
    \<and> users_map (snd (users_put us_all_ok (snd (users_load_begin us_all_ok u)) r)) (ur_user_id r) = Some r
    \<and> users_map (users_load_abort us_all_ok (snd (users_put us_all_ok (snd (users_load_begin us_all_ok u)) r)))
        = users_map u"
proof -
  let ?u1 = "snd (users_load_begin us_all_ok u)"
  have u1: "users_inv ?u1" "us_in_txn ?u1" "\<exists>t. us_saved ?u1 = Some t \<and> ut_users t = ut_users (us_tables u)"
    using idle by (auto simp: users_idle_def users_inv_def users_load_begin_def txn_begin_def Let_def)
  have put: "users_put us_all_ok ?u1 r
      = (True, on_tables (\<lambda>t. t\<lparr> ut_users := replace_user r (ut_users t) \<rparr>) ?u1)"
    using main_step [OF u1(1), of St_put] by (simp add: users_put_def main_stmts_def)
  then have "users_map (snd (users_put us_all_ok ?u1 r)) (ur_user_id r) = Some r"
    using put_maps [OF u1(1) r] by simp
  moreover have "ut_users (us_tables (users_load_abort us_all_ok (snd (users_put us_all_ok ?u1 r))))
      = ut_users (us_tables u)"
    using put u1 by (auto simp: users_load_abort_def Let_def us_rollback_def)
  ultimately show ?thesis using put by (simp add: users_map_def)
qed

theorem abort_undoes_single_change_witness:
  "users_map (users_load_abort us_all_ok (snd (users_put us_all_ok
      (snd (users_load_begin us_all_ok demo_users)) (demo_user 5)))) (zeros 7 @ [5]) = None"
  using abort_undoes_single_change [OF demo_users_idle demo_wf(1), of 5]
  by (simp add: users_map_def) (simp add: demo_user_simps)

text \<open>
  A \<open>COMMIT\<close> that fails at the end of a download leaves SQLite's transaction open, since
  \<open>in_txn\<close> was already cleared: no later download can be started.
\<close>

theorem failed_commit_blocks_downloads:
  assumes "us_loading u" "us_in_txn u" "us_saved u \<noteq> None" "\<not> ok Us_commit"
  shows "\<not> fst (users_load_commit ok u) \<and> \<not> fst (users_load_begin ok' (snd (users_load_commit ok u)))"
proof -
  let ?u' = "snd (users_load_commit ok u)"
  have c: "users_load_commit ok u = (False, users_load_abort ok (u\<lparr> us_in_txn := False \<rparr>))"
    using assms by (simp add: users_load_commit_def txn_commit_def Let_def)
  have u': "\<not> us_loading ?u'" "\<not> us_in_txn ?u'" "us_saved ?u' \<noteq> None"
    using assms(3) unfolding c by (simp_all add: users_load_abort_def Let_def)
  then have "\<not> fst (users_load_begin ok' ?u')"
    by (auto simp: users_load_begin_def Let_def txn_begin_def)
  then show ?thesis by (simp add: c)
qed

theorem failed_commit_blocks_downloads_witness:
  "\<not> fst (users_load_begin us_all_ok (snd (users_load_commit (\<lambda>c. c \<noteq> Us_commit)
      (snd (users_load_begin us_all_ok demo_users)))))"
proof -
  have "receiving Map.empty Map.empty (snd (users_load_begin us_all_ok demo_users))"
    using begin_receiving [OF demo_users_idle] by simp
  then show ?thesis
    using failed_commit_blocks_downloads [of "snd (users_load_begin us_all_ok demo_users)"
        "\<lambda>c. c \<noteq> Us_commit" us_all_ok]
    by (simp add: receiving_def)
qed

text \<open>
  Reading the list page by page with \<open>users_read_after\<close>, each page continuing after the
  last user of the one before, gives every user exactly once, in the order of the ids, when
  no user has two cards and no id is all zero.
\<close>

theorem pages_read_every_user_once:
  assumes "users_inv u" "one_card_each (us_tables u)" "0 < n" "length (ut_users (us_tables u)) \<le> k * n"
    "\<forall>r \<in> set (ut_users (us_tables u)). zeros 8 < ur_user_id r"
  shows "map fst (read_pages us_all_ok u (int n) k None) = sort_key ur_user_id (ut_users (us_tables u))
    \<and> users_count us_all_ok u = int (length (read_pages us_all_ok u (int n) k None))"
proof -
  have pages: "read_pages us_all_ok u (int n) k None = map read_row (join_rows (us_tables u))"
    using read_pages_from [of u n 0 k] assms
    by (simp add: page_list_def page_key_def join_rows_one_card [OF assms(2)])
  have "map (fst \<circ> read_row \<circ> row_of (ut_cards (us_tables u))) (sort_key ur_user_id (ut_users (us_tables u)))
      = map id (sort_key ur_user_id (ut_users (us_tables u)))"
    using assms(1) by (intro map_cong) (auto simp: read_row_eq row_of_def Let_def users_inv_def rows_ok_def)
  moreover have "us_step us_all_ok u St_count"
    using main_step [OF assms(1)] by (simp add: main_stmts_def)
  ultimately show ?thesis
    using pages by (simp add: join_rows_one_card [OF assms(2)] users_count_def comp_assoc)
qed

theorem pages_read_every_user_once_witness:
  "map (\<lambda>p. ur_user_id (fst p)) (read_pages us_all_ok demo_users 1 2 None) = [zeros 7 @ [1], zeros 7 @ [2]]"
proof -
  have z: "zeros 8 = zeros 7 @ [0]" by (simp add: zeros_def replicate_append_same flip: replicate_Suc)
  have one: "one_card_each (us_tables demo_users)"
    by (simp add: one_card_each_def demo_user_simps)
  have srt: "sort_key ur_user_id (ut_users (us_tables demo_users)) = [demo_user 1, demo_user 2]"
    by (simp add: demo_user_simps snoc_le_snoc word_le_nat_alt)
  have "map fst (read_pages us_all_ok demo_users (int 1) 2 None)
      = sort_key ur_user_id (ut_users (us_tables demo_users))"
  proof -
    have len: "length (ut_users (us_tables demo_users)) \<le> 2 * 1" by (simp add: demo_users_def)
    have pos: "\<forall>r \<in> set (ut_users (us_tables demo_users)). zeros 8 < ur_user_id r"
      by (simp add: demo_user_simps z snoc_less_snoc word_less_nat_alt)
    from pages_read_every_user_once [OF demo_users_inv one _ len pos] show ?thesis by simp
  qed
  then have "map (ur_user_id \<circ> fst) (read_pages us_all_ok demo_users 1 2 None) = map ur_user_id [demo_user 1, demo_user 2]"
    unfolding srt map_map [symmetric] by simp
  then show ?thesis by (simp add: comp_def) (simp add: demo_user_def)
qed

section \<open>The statements on rows\<close>



end
