(* ===== verification/Settings.thy ===== *)
theory Settings
  imports Prelude "HOL-Library.Char_ord"
begin

text \<open>
  The settings database \<open>acud.db\<close>: validity periods and time zones (\<open>acud/db.c\<close>) and the
  stored device settings (\<open>acud/devset.c\<close>). Today's local date (as SQLite's \<open>date\<close>
  prints it), the local time and the outcome of the SQLite calls are arguments. Text compares
  byte by byte.
\<close>

section \<open>Data\<close>

record validation_row =
  vr_id :: int
  vr_start :: string
  vr_end :: string

record timezone_row =
  tr_id :: int
  tr_slot :: int
  tr_start_hour :: int
  tr_start_min :: int
  tr_end_hour :: int
  tr_end_min :: int
  tr_week_select :: int

record setting_row =
  sr_object :: byte
  sr_module :: int
  sr_slot :: int
  sr_data :: "byte list"

record settings_db =
  st_validations :: "validation_row list"
  st_timezones :: "timezone_row list"
  st_settings :: "setting_row list"

text \<open>\<open>struct tm\<close>, the fields the daemon reads and writes; months and years as the C library counts them.\<close>

record tm =
  tm_year :: int
  tm_mon :: int
  tm_mday :: int
  tm_hour :: int
  tm_min :: int
  tm_sec :: int
  tm_wday :: int

datatype db_call =
  Db_open | Db_schema | Db_prepare_validation | Db_step_validation
| Db_prepare_timezone | Db_step_timezone
| Ds_init | Ds_prepare_get | Ds_step_get | Ds_prepare_put | Ds_step_put | Db_seed

type_synonym db_ok = "db_call \<Rightarrow> bool"

section \<open>db.c\<close>

text \<open>\<open>file\<close> holds what the file contained, its missing tables being created empty.\<close>

definition db_open :: "db_ok \<Rightarrow> settings_db \<Rightarrow> settings_db option" where
  "db_open ok file = (if \<not> ok Db_open then None else if \<not> ok Db_schema then None else Some file)"

definition insert_validation :: "validation_row \<Rightarrow> validation_row list \<Rightarrow> validation_row list" where
  "insert_validation v vs = (if vr_id v \<in> vr_id ` set vs then vs else vs @ [v])"

definition insert_timezone :: "timezone_row \<Rightarrow> timezone_row list \<Rightarrow> timezone_row list" where
  "insert_timezone z zs =
    (if (tr_id z, tr_slot z) \<in> (\<lambda>y. (tr_id y, tr_slot y)) ` set zs then zs else zs @ [z])"

definition db_seed_dummy_data :: "db_ok \<Rightarrow> string \<Rightarrow> string \<Rightarrow> settings_db \<Rightarrow> settings_db" where
  "db_seed_dummy_data ok year_ago year_ahead db =
    (if \<not> ok Db_seed then db
     else db\<lparr> st_validations :=
            insert_validation \<lparr> vr_id = 2, vr_start = year_ago, vr_end = year_ahead \<rparr>
             (insert_validation \<lparr> vr_id = 1, vr_start = ''2020-01-01'', vr_end = ''2020-12-31'' \<rparr>
               (st_validations db)),
          st_timezones :=
            insert_timezone \<lparr> tr_id = 2, tr_slot = 0, tr_start_hour = 0, tr_start_min = 0,
                tr_end_hour = 23, tr_end_min = 59, tr_week_select = 0x0000 \<rparr>
             (insert_timezone \<lparr> tr_id = 1, tr_slot = 0, tr_start_hour = 0, tr_start_min = 0,
                tr_end_hour = 23, tr_end_min = 59, tr_week_select = 0xFFFF \<rparr>
               (st_timezones db)) \<rparr>)"

text \<open>1 valid, 0 invalid, -1 error.\<close>

definition db_check_validation :: "db_ok \<Rightarrow> settings_db \<Rightarrow> string \<Rightarrow> int \<Rightarrow> int" where
  "db_check_validation ok db today code =
    (if code = 0 then 1
     else if \<not> ok Db_prepare_validation then -1
     else if \<not> ok Db_step_validation then -1
     else if \<exists>v \<in> set (st_validations db). vr_id v = code \<and> vr_start v \<le> today \<and> today \<le> vr_end v
          then 1 else 0)"

definition slot_matches :: "tm \<Rightarrow> timezone_row \<Rightarrow> bool" where
  "slot_matches now z =
    (let cur_minutes = tm_hour now * 60 + tm_min now;
         week_bit = 15 - tm_wday now;
         start_minutes = tr_start_hour z * 60 + tr_start_min z;
         end_minutes = tr_end_hour z * 60 + tr_end_min z;
         week_ok = bit (tr_week_select z) (nat week_bit);
         time_ok = (cur_minutes \<ge> start_minutes \<and> cur_minutes \<le> end_minutes)
     in week_ok \<and> time_ok)"

text \<open>
  The row loop; the result is (matched, last step was a row or the end). With
  \<open>ok Db_step_timezone\<close> false the step after the readable rows fails instead of ending;
  \<open>readable\<close> is how many rows come before.
\<close>

fun tz_scan :: "tm \<Rightarrow> bool \<Rightarrow> timezone_row list \<Rightarrow> bool \<times> bool" where
  "tz_scan now end_ok [] = (False, end_ok)"
| "tz_scan now end_ok (z # zs) = (if slot_matches now z then (True, True) else tz_scan now end_ok zs)"

definition db_check_timezone :: "db_ok \<Rightarrow> nat \<Rightarrow> settings_db \<Rightarrow> tm \<Rightarrow> int \<Rightarrow> int" where
  "db_check_timezone ok readable db now code =
    (if code = 0 then 1
     else if \<not> ok Db_prepare_timezone then -1
     else
       let rows = filter (\<lambda>z. tr_id z = code) (st_timezones db);
           rows = (if ok Db_step_timezone then rows else take readable rows);
           (matched, rc_ok) = tz_scan now (ok Db_step_timezone) rows
       in if \<not> rc_ok then -1 else if matched then 1 else 0)"

section \<open>devset.c\<close>

definition setting_key :: "setting_row \<Rightarrow> byte \<times> int \<times> int" where
  "setting_key s = (sr_object s, sr_module s, sr_slot s)"

definition devset_init :: "db_ok \<Rightarrow> settings_db \<Rightarrow> bool" where
  "devset_init ok db = ok Ds_init"

text \<open>1 with the data, 0 (not stored) or -1; a step that fails is taken for no row.\<close>

definition devset_get :: "db_ok \<Rightarrow> settings_db option \<Rightarrow> byte \<Rightarrow> int \<Rightarrow> int \<Rightarrow> nat \<Rightarrow> int \<times> byte list" where
  "devset_get ok db obj module slot out_len =
    (case db of
       None \<Rightarrow> (-1, [])
     | Some d \<Rightarrow>
         if \<not> ok Ds_prepare_get then (-1, [])
         else if \<not> ok Ds_step_get then (0, [])
         else case find (\<lambda>s. setting_key s = (obj, module, slot)) (st_settings d) of
                None \<Rightarrow> (0, [])
              | Some s \<Rightarrow> if sr_data s \<noteq> [] \<and> length (sr_data s) = out_len then (1, sr_data s) else (-1, []))"

definition devset_put ::
  "db_ok \<Rightarrow> settings_db option \<Rightarrow> byte \<Rightarrow> int \<Rightarrow> int \<Rightarrow> byte list \<Rightarrow> bool \<times> settings_db option" where
  "devset_put ok db obj module slot data =
    (case db of
       None \<Rightarrow> (False, db)
     | Some d \<Rightarrow>
         if data = [] then (False, db)
         else if \<not> ok Ds_prepare_put \<or> \<not> ok Ds_step_put then (False, db)
         else (True, Some (d\<lparr> st_settings :=
            filter (\<lambda>s. setting_key s \<noteq> (obj, module, slot)) (st_settings d)
              @ [\<lparr> sr_object = obj, sr_module = module, sr_slot = slot, sr_data = data \<rparr>] \<rparr>)))"

section \<open>Stored settings behave as a map\<close>

definition db_all_ok :: db_ok where
  "db_all_ok = (\<lambda>_. True)"

definition settings_map :: "settings_db \<Rightarrow> byte \<times> int \<times> int \<Rightarrow> byte list option" where
  "settings_map d = map_of (map (\<lambda>s. (setting_key s, sr_data s)) (st_settings d))"

lemma find_map_of: "map_option v (find (\<lambda>x. k x = a) xs) = map_of (map (\<lambda>x. (k x, v x)) xs) a"
  by (induction xs) auto

lemma devset_get_map:
  "devset_get db_all_ok (Some d) obj md slot n =
    (case settings_map d (obj, md, slot) of
       None \<Rightarrow> (0, [])
     | Some data \<Rightarrow> if data \<noteq> [] \<and> length data = n then (1, data) else (-1, []))"
proof -
  have "map_option sr_data (find (\<lambda>s. setting_key s = (obj, md, slot)) (st_settings d))
      = settings_map d (obj, md, slot)"
    by (simp add: find_map_of settings_map_def)
  then show ?thesis
    by (cases "find (\<lambda>s. setting_key s = (obj, md, slot)) (st_settings d)")
       (simp_all add: devset_get_def db_all_ok_def flip: \<open>map_option sr_data _ = _\<close>)
qed

lemma devset_put_map:
  "data \<noteq> [] \<Longrightarrow> devset_put db_all_ok (Some d) obj md slot data = (True, Some d') \<Longrightarrow>
    settings_map d' = (settings_map d)((obj, md, slot) \<mapsto> data)"
  using map_of_replace [where k = setting_key and v = sr_data and a = "(obj, md, slot)"
      and xs = "st_settings d" and y = "\<lparr> sr_object = obj, sr_module = md, sr_slot = slot, sr_data = data \<rparr>"]
  by (auto simp: devset_put_def db_all_ok_def settings_map_def setting_key_def)

text \<open>
  A stored setting reads back byte for byte with the length it was stored with, is
  refused (-1) with any other length, and storing it changes no other setting.
\<close>

theorem setting_roundtrip:
  assumes "data \<noteq> []"
  shows "\<exists>d'. devset_put db_all_ok (Some d) obj md slot data = (True, Some d')
    \<and> devset_get db_all_ok (Some d') obj md slot (length data) = (1, data)
    \<and> (\<forall>n. n \<noteq> length data \<longrightarrow> devset_get db_all_ok (Some d') obj md slot n = (-1, []))
    \<and> (\<forall>k n. k \<noteq> (obj, md, slot) \<longrightarrow>
         devset_get db_all_ok (Some d') (fst k) (fst (snd k)) (snd (snd k)) n
           = devset_get db_all_ok (Some d) (fst k) (fst (snd k)) (snd (snd k)) n)"
proof -
  obtain d' where d': "devset_put db_all_ok (Some d) obj md slot data = (True, Some d')"
    using assms by (simp add: devset_put_def db_all_ok_def)
  from devset_put_map [OF assms d'] assms d' show ?thesis
    by (auto simp: devset_get_map)
qed

theorem setting_roundtrip_witness:
  "\<exists>d'. devset_put db_all_ok (Some \<lparr> st_validations = [], st_timezones = [], st_settings = [] \<rparr>) 0x2B 1 2 [7, 8]
      = (True, Some d') \<and> devset_get db_all_ok (Some d') 0x2B 1 2 2 = (1, [7, 8])"
  using setting_roundtrip [of "[7, 8]" "\<lparr> st_validations = [], st_timezones = [], st_settings = [] \<rparr>" "0x2B" 1 2]
  by (auto simp: numeral_2_eq_2)

end
