(* ===== verification/Access.thy ===== *)
theory Access
  imports Users_Store Settings
begin

text \<open>
  The access judgement of \<open>acud/access.c\<close>: the user directory finds the record of a card,
  the settings database decides about its validity period and time zone. The properties say
  exactly when a card is let in, that a failing database never lets one in, and that the five
  seeded test users get the verdicts the comments of \<open>users.c\<close> and \<open>db.c\<close> give them.
\<close>

datatype access_result =
  ACCESS_GRANTED | ACCESS_DENIED_NOT_FOUND | ACCESS_DENIED_DISABLED
| ACCESS_DENIED_VALIDATION | ACCESS_DENIED_TIMEZONE | ACCESS_DENIED_DB_ERROR

text \<open>What a judgement reads from outside: outcomes of the SQLite calls, today's date, the local time.\<close>

record judge_env =
  je_users_ok :: us_ok
  je_db_ok :: db_ok
  je_readable :: nat
  je_today :: string
  je_now :: tm

text \<open>The second component is \<open>out_user\<close> when it was filled in.\<close>

definition access_judge ::
  "judge_env \<Rightarrow> acu_users \<Rightarrow> settings_db \<Rightarrow> byte list \<Rightarrow> access_result \<times> user_record option" where
  "access_judge env u db cid =
    (case users_lookup_by_card (je_users_ok env) u cid of
       Lookup_error \<Rightarrow> (ACCESS_DENIED_DB_ERROR, None)
     | Not_found \<Rightarrow> (ACCESS_DENIED_NOT_FOUND, None)
     | Found r \<Rightarrow>
         if ur_access_option r AND ACU_USER_OPT_ENABLE = 0 then (ACCESS_DENIED_DISABLED, Some r)
         else
           let valid = db_check_validation (je_db_ok env) db (je_today env) (uint (ur_validation_code r))
           in if valid < 0 then (ACCESS_DENIED_DB_ERROR, Some r)
              else if valid = 0 then (ACCESS_DENIED_VALIDATION, Some r)
              else
                let in_timezone = db_check_timezone (je_db_ok env) (je_readable env) db (je_now env)
                                    (uint (ur_timezone_code r))
                in if in_timezone < 0 then (ACCESS_DENIED_DB_ERROR, Some r)
                   else if in_timezone = 0 then (ACCESS_DENIED_TIMEZONE, Some r)
                   else (ACCESS_GRANTED, Some r))"

text \<open>The specification: a period and a time zone that admit a moment.\<close>

definition period_admits :: "settings_db \<Rightarrow> string \<Rightarrow> u16 \<Rightarrow> bool" where
  "period_admits db today code \<longleftrightarrow> code = 0 \<or>
    (\<exists>v \<in> set (st_validations db). vr_id v = uint code \<and> vr_start v \<le> today \<and> today \<le> vr_end v)"

definition zone_admits :: "settings_db \<Rightarrow> tm \<Rightarrow> u16 \<Rightarrow> bool" where
  "zone_admits db now code \<longleftrightarrow> code = 0 \<or>
    (\<exists>z \<in> set (st_timezones db). tr_id z = uint code \<and> slot_matches now z)"

lemma tz_scan_ok: "tz_scan now True zs = ((\<exists>z \<in> set zs. slot_matches now z), True)"
  by (induction zs) auto

lemma tz_scan_error:
  "tz_scan now False zs = (b, c) \<Longrightarrow> c = b \<and> b = (\<exists>z \<in> set zs. slot_matches now z)"
  by (induction zs) (auto split: if_splits)

lemma check_validation_ok:
  "db_check_validation db_all_ok db today (uint code) = (if period_admits db today code then 1 else 0)"
  by (auto simp: db_check_validation_def db_all_ok_def period_admits_def uint_0_iff)

lemma check_timezone_ok:
  "db_check_timezone db_all_ok n db now (uint code) = (if zone_admits db now code then 1 else 0)"
  by (auto simp: db_check_timezone_def db_all_ok_def zone_admits_def tz_scan_ok uint_0_iff)

lemma check_timezone_sound:
  "db_check_timezone ok n db now (uint code) = 1 \<Longrightarrow> zone_admits db now code"
  using tz_scan_error [of now "take n (filter (\<lambda>z. tr_id z = uint code) (st_timezones db))"]
  by (auto simp: db_check_timezone_def zone_admits_def tz_scan_ok uint_0_iff Let_def
      split: if_splits prod.splits dest!: in_set_takeD)

lemma check_validation_sound:
  "db_check_validation ok db today (uint code) = 1 \<Longrightarrow> period_admits db today code"
  by (auto simp: db_check_validation_def period_admits_def uint_0_iff split: if_splits)

lemma check_results:
  "db_check_validation ok db today c \<in> {1, 0, -1}" "db_check_timezone ok n db now c \<in> {1, 0, -1}"
  by (auto simp: db_check_validation_def db_check_timezone_def Let_def split: prod.splits)

text \<open>
  C4. With the databases readable, a card is let in exactly when it belongs to a registered
  user whose enable bit is set, whose validity period contains today and whose time zone has
  a slot for this weekday and minute (group 0 admits always).
\<close>

theorem granted_iff_admitted:
  assumes "users_inv u" "je_users_ok env = us_all_ok" "je_db_ok env = db_all_ok"
  shows "fst (access_judge env u db cid) = ACCESS_GRANTED \<longleftrightarrow>
    (\<exists>i r. cards_map u cid = Some i \<and> users_map u i = Some r
       \<and> ur_access_option r AND ACU_USER_OPT_ENABLE \<noteq> 0
       \<and> period_admits db (je_today env) (ur_validation_code r)
       \<and> zone_admits db (je_now env) (ur_timezone_code r))"
  using assms
  by (cases "cards_map u cid"; cases "Option.bind (cards_map u cid) (users_map u)")
     (auto simp: access_judge_def lookup_by_card_map opt_lookup_def check_validation_ok check_timezone_ok Let_def)

text \<open>
  C19. The judgement fails closed: whatever SQLite calls fail, a card that is let in belongs to
  a record found with the enable bit set and admitted by the stored period and time zone, and
  a directory that cannot be read lets nobody in.
\<close>

theorem judge_fails_closed:
  "(fst (access_judge env u db cid) = ACCESS_GRANTED \<longrightarrow>
      (\<exists>r. users_lookup_by_card (je_users_ok env) u cid = Found r
         \<and> snd (access_judge env u db cid) = Some r
         \<and> ur_access_option r AND ACU_USER_OPT_ENABLE \<noteq> 0
         \<and> period_admits db (je_today env) (ur_validation_code r)
         \<and> zone_admits db (je_now env) (ur_timezone_code r)))
    \<and> (\<not> us_step (je_users_ok env) u St_by_card \<longrightarrow>
         fst (access_judge env u db cid) = ACCESS_DENIED_DB_ERROR)"
proof -
  have "fst (access_judge env u db cid) = ACCESS_GRANTED \<Longrightarrow>
      (\<exists>r. users_lookup_by_card (je_users_ok env) u cid = Found r
         \<and> snd (access_judge env u db cid) = Some r
         \<and> ur_access_option r AND ACU_USER_OPT_ENABLE \<noteq> 0
         \<and> db_check_validation (je_db_ok env) db (je_today env) (uint (ur_validation_code r)) = 1
         \<and> db_check_timezone (je_db_ok env) (je_readable env) db (je_now env) (uint (ur_timezone_code r)) = 1)"
    using check_results(1) [of "je_db_ok env" db "je_today env"]
      check_results(2) [where ok = "je_db_ok env" and n = "je_readable env" and db = db and now = "je_now env"]
    by (fastforce simp: access_judge_def Let_def split: lookup.splits if_splits)
  moreover have "\<not> us_step (je_users_ok env) u St_by_card \<Longrightarrow>
      fst (access_judge env u db cid) = ACCESS_DENIED_DB_ERROR"
    by (simp add: access_judge_def users_lookup_by_card_def lookup_with_def)
  ultimately show ?thesis
    using check_validation_sound check_timezone_sound by blast
qed

section \<open>The seeded test installation\<close>

text \<open>A fresh directory and a fresh settings file, seeded, on a Wednesday in 2026.\<close>

definition seeded_users :: acu_users where
  "seeded_users = users_seed_dummy us_all_ok
     \<lparr> us_tables = \<lparr> ut_users = [], ut_cards = [], ut_users_load = None, ut_cards_load = None \<rparr>,
       us_saved = None, us_stmts = main_stmts, us_loading = False, us_in_txn = False,
       us_load_rows = 0, us_load_total = 0 \<rparr>"

definition seeded_settings :: settings_db where
  "seeded_settings = db_seed_dummy_data db_all_ok ''2025-09-16'' ''2027-09-16''
     \<lparr> st_validations = [], st_timezones = [], st_settings = [] \<rparr>"

definition seeded_env :: judge_env where
  "seeded_env = \<lparr> je_users_ok = us_all_ok, je_db_ok = db_all_ok, je_readable = 0,
     je_today = ''2026-09-16'',
     je_now = \<lparr> tm_year = 126, tm_mon = 8, tm_mday = 16, tm_hour = 14, tm_min = 5, tm_sec = 0, tm_wday = 3 \<rparr> \<rparr>"

lemma seed_all_put:
  "\<forall>st \<in> {St_put, St_put_card}. us_step us_all_ok u st \<Longrightarrow>
    seed_all us_all_ok ss u = on_tables (\<lambda>t. t\<lparr>
      ut_users := foldl (\<lambda>us s. replace_user (seed_record s) us) (ut_users t) ss,
      ut_cards := foldl (\<lambda>cs s. replace_card (seed_card s) cs) (ut_cards t) ss \<rparr>) u"
proof (induction ss arbitrary: u)
  case Nil
  then show ?case by (simp add: on_tables_def)
next
  case (Cons s ss)
  let ?u1 = "on_tables (\<lambda>t. t\<lparr> ut_users := replace_user (seed_record s) (ut_users t) \<rparr>) u"
  let ?u2 = "on_tables (\<lambda>t. t\<lparr> ut_cards := replace_card (seed_card s) (ut_cards t) \<rparr>) ?u1"
  have "seed_all us_all_ok (s # ss) u = seed_all us_all_ok ss ?u2"
    using Cons.prems by (simp add: users_put_def users_put_card_def)
  also have "\<dots> = on_tables (\<lambda>t. t\<lparr>
      ut_users := foldl (\<lambda>us s. replace_user (seed_record s) us) (ut_users t) ss,
      ut_cards := foldl (\<lambda>cs s. replace_card (seed_card s) cs) (ut_cards t) ss \<rparr>) ?u2"
    by (rule Cons.IH) (use Cons.prems in simp)
  finally show ?case by (simp add: on_tables_def)
qed

lemma seeded_users_eq:
  "us_stmts seeded_users = main_stmts"
  "ut_users (us_tables seeded_users) = foldl (\<lambda>us s. replace_user (seed_record s) us) [] seed_rows"
  "ut_cards (us_tables seeded_users) = foldl (\<lambda>cs s. replace_card (seed_card s) cs) [] seed_rows"
  by (simp_all add: seeded_users_def users_seed_dummy_def users_count_def us_step_def main_stmts_def seed_all_put)

lemma seeded_tables:
  "ut_users (us_tables seeded_users) = map seed_record seed_rows"
  "ut_cards (us_tables seeded_users) = map seed_card seed_rows"
  by (simp_all add: seeded_users_eq seed_rows_def replace_user_def replace_card_def
      seed_record_def seed_card_def)

lemma seeded_verdict_list:
  "map (\<lambda>s. fst (access_judge seeded_env seeded_users seeded_settings (sd_card s))) seed_rows
      = [ACCESS_GRANTED, ACCESS_DENIED_DISABLED, ACCESS_DENIED_VALIDATION, ACCESS_GRANTED, ACCESS_DENIED_TIMEZONE]
    \<and> fst (access_judge seeded_env seeded_users seeded_settings [1, 2, 3, 4, 5, 6, 7, 8]) = ACCESS_DENIED_NOT_FOUND"
proof -
  have step: "us_step us_all_ok seeded_users St_by_card"
    by (simp add: us_step_def main_stmts_def seeded_users_eq)
  have look: "users_lookup_by_card us_all_ok seeded_users cid
      = first_row (map stored_record (case filter (\<lambda>c. uc_card_id c = cid) (map seed_card seed_rows) of
          [] \<Rightarrow> [] | c # _ \<Rightarrow> filter (\<lambda>r. ur_user_id r = uc_user_id c) (map seed_record seed_rows)))" for cid
    unfolding users_lookup_by_card_def lookup_with_def sql_by_card_def seeded_tables using step by simp
  have env: "je_users_ok seeded_env = us_all_ok" "je_db_ok seeded_env = db_all_ok" "je_today seeded_env = ''2026-09-16''"
    "tm_hour (je_now seeded_env) = 14" "tm_min (je_now seeded_env) = 5" "tm_wday (je_now seeded_env) = 3"
    by (simp_all add: seeded_env_def)
  have period: "db_check_validation db_all_ok seeded_settings ''2026-09-16'' 0 = 1"
    "db_check_validation db_all_ok seeded_settings ''2026-09-16'' 1 = 0"
    "db_check_validation db_all_ok seeded_settings ''2026-09-16'' 2 = 1"
    by (simp_all add: db_check_validation_def seeded_settings_def db_seed_dummy_data_def db_all_ok_def
        insert_validation_def)
  have zone: "db_check_timezone db_all_ok n seeded_settings (je_now seeded_env) 0 = 1"
    "db_check_timezone db_all_ok n seeded_settings (je_now seeded_env) 1 = 1"
    "db_check_timezone db_all_ok n seeded_settings (je_now seeded_env) 2 = 0" for n
    by (simp_all add: db_check_timezone_def seeded_settings_def db_seed_dummy_data_def db_all_ok_def
        insert_timezone_def slot_matches_def env Let_def)
  show ?thesis
    by (simp add: access_judge_def env look Let_def seed_rows_def seed_record_def seed_card_def first_row_def
        stored_record_eq zero_user_def zero_card_def period zone zeros_def)
qed

lemma seeded_verdicts_first:
  "fst (access_judge seeded_env seeded_users seeded_settings [0x04, 0xA1, 0xB2, 0xC3, 0xD4, 0xE5, 0xF6, 0x00])
     = ACCESS_GRANTED"
  using seeded_verdict_list by (simp add: seed_rows_def)

text \<open>
  The five seeded users get the verdicts the source promises: granted, disabled, validity
  expired, granted, outside the time zone; an unknown card is not found.
\<close>

theorem seeded_verdicts:
  "map (\<lambda>s. fst (access_judge seeded_env seeded_users seeded_settings (sd_card s))) seed_rows
      = [ACCESS_GRANTED, ACCESS_DENIED_DISABLED, ACCESS_DENIED_VALIDATION, ACCESS_GRANTED, ACCESS_DENIED_TIMEZONE]
    \<and> fst (access_judge seeded_env seeded_users seeded_settings [1, 2, 3, 4, 5, 6, 7, 8]) = ACCESS_DENIED_NOT_FOUND"
  by (rule seeded_verdict_list)

lemma seeded_users_inv: "users_inv seeded_users"
  by (simp add: users_inv_def rows_ok_def seeded_users_eq(1) seeded_tables)
     (simp add: seed_rows_def seed_record_def seed_card_def wf_user_def wf_card_def zero_user_def zero_card_def)

theorem granted_iff_admitted_witness:
  "\<exists>i r. cards_map seeded_users [0x04, 0xA1, 0xB2, 0xC3, 0xD4, 0xE5, 0xF6, 0x00] = Some i
     \<and> users_map seeded_users i = Some r \<and> zone_admits seeded_settings (je_now seeded_env) (ur_timezone_code r)"
proof -
  have "fst (access_judge seeded_env seeded_users seeded_settings [0x04, 0xA1, 0xB2, 0xC3, 0xD4, 0xE5, 0xF6, 0x00])
      = ACCESS_GRANTED"
    using seeded_verdicts_first by simp
  then show ?thesis
    using granted_iff_admitted [OF seeded_users_inv, of seeded_env seeded_settings
        "[0x04, 0xA1, 0xB2, 0xC3, 0xD4, 0xE5, 0xF6, 0x00]"]
    by (auto simp: seeded_env_def)
qed

theorem judge_fails_closed_witness:
  "fst (access_judge (seeded_env\<lparr> je_users_ok := \<lambda>_. False \<rparr>) seeded_users seeded_settings
      [0x04, 0xA1, 0xB2, 0xC3, 0xD4, 0xE5, 0xF6, 0x00]) = ACCESS_DENIED_DB_ERROR"
  using judge_fails_closed [of "seeded_env\<lparr> je_users_ok := \<lambda>_. False \<rparr>" seeded_users seeded_settings
      "[0x04, 0xA1, 0xB2, 0xC3, 0xD4, 0xE5, 0xF6, 0x00]"]
  by (simp add: us_step_def)

end
