(* ===== verification/User_Binary.thy ===== *)
theory User_Binary
  imports Users_Store Protocol
begin

text \<open>
  The transfer of the whole user list (\<open>acud/userbin.c\<close>): the 32-byte User Info and the
  128-byte record, the receiver that cuts a stream of numbered pieces into records and stores
  them through the full download of \<open>Users_Store\<close>, and the sender that gives the list back
  in pieces of 113 records. The receiver and the directory are passed along together; \<open>ok\<close>
  is the outcome of the SQLite calls. Messages to the log are not modelled.
\<close>

abbreviation (input) IDTI_USERINFO_OFF_GENGROUP :: nat where "IDTI_USERINFO_OFF_GENGROUP \<equiv> 8"
abbreviation (input) IDTI_USERINFO_OFF_REVISION :: nat where "IDTI_USERINFO_OFF_REVISION \<equiv> 10"
abbreviation (input) IDTI_USERINFO_OFF_OPTION :: nat where "IDTI_USERINFO_OFF_OPTION \<equiv> 12"
abbreviation (input) IDTI_USERINFO_OFF_LEVEL :: nat where "IDTI_USERINFO_OFF_LEVEL \<equiv> 16"
abbreviation (input) IDTI_USERINFO_OFF_VALIDATION :: nat where "IDTI_USERINFO_OFF_VALIDATION \<equiv> 17"
abbreviation (input) IDTI_USERINFO_OFF_TIMEZONE :: nat where "IDTI_USERINFO_OFF_TIMEZONE \<equiv> 19"
abbreviation (input) IDTI_USERINFO_OFF_EXPIRED :: nat where "IDTI_USERINFO_OFF_EXPIRED \<equiv> 21"
abbreviation (input) IDTI_USERINFO_OFF_PROXTYPE :: nat where "IDTI_USERINFO_OFF_PROXTYPE \<equiv> 24"
abbreviation (input) IDTI_USERINFO_OFF_PROXWIEG :: nat where "IDTI_USERINFO_OFF_PROXWIEG \<equiv> 25"
abbreviation (input) IDTI_USERINFO_OFF_BIOTYPE :: nat where "IDTI_USERINFO_OFF_BIOTYPE \<equiv> 26"
abbreviation (input) IDTI_USERINFO_OFF_BIOSUB :: nat where "IDTI_USERINFO_OFF_BIOSUB \<equiv> 27"
abbreviation (input) IDTI_USERINFO_OFF_TMPLCOUNT :: nat where "IDTI_USERINFO_OFF_TMPLCOUNT \<equiv> 28"
abbreviation (input) IDTI_USERINFO_OFF_PASSWORD :: nat where "IDTI_USERINFO_OFF_PASSWORD \<equiv> 29"
abbreviation (input) IDTI_USERINFO_OFF_CANTEEN :: nat where "IDTI_USERINFO_OFF_CANTEEN \<equiv> 31"
abbreviation (input) IDTI_USERBIN_OFF_USER :: nat where "IDTI_USERBIN_OFF_USER \<equiv> 8"
abbreviation (input) IDTI_USERBIN_OFF_CARD :: nat where "IDTI_USERBIN_OFF_CARD \<equiv> 40"
abbreviation (input) IDTI_USERBIN_OFF_NAME :: nat where "IDTI_USERBIN_OFF_NAME \<equiv> 52"
abbreviation (input) IDTI_USERBIN_OFF_RESTRICT :: nat where "IDTI_USERBIN_OFF_RESTRICT \<equiv> 68"
abbreviation (input) IDTI_USERBIN_OFF_GROUP :: nat where "IDTI_USERBIN_OFF_GROUP \<equiv> 76"
abbreviation (input) IDTI_USERBIN_OFF_CRC_CALC :: nat where "IDTI_USERBIN_OFF_CRC_CALC \<equiv> 126"
abbreviation (input) IDTI_USERBIN_OFF_DATACRC :: nat where "IDTI_USERBIN_OFF_DATACRC \<equiv> 127"
abbreviation (input) USERBIN_SEND_CHUNK :: nat where "USERBIN_SEND_CHUNK \<equiv> 14464"
abbreviation (input) USERBIN_SEND_RECORDS :: nat where "USERBIN_SEND_RECORDS \<equiv> 113"

section \<open>User Info and records\<close>

definition userbin_all_zero :: "byte list \<Rightarrow> bool" where
  "userbin_all_zero p = list_all (\<lambda>b. b = 0) p"

definition be24 :: "byte list \<Rightarrow> u32" where
  "be24 p = push_bit 16 (ucast (p ! 0)) OR push_bit 8 (ucast (p ! 1)) OR ucast (p ! 2)"

definition put24 :: "u32 \<Rightarrow> byte list" where
  "put24 v = [ucast (drop_bit 16 v), ucast (drop_bit 8 v), ucast v]"

definition userbin_parse_user_info :: "byte list \<Rightarrow> user_record \<Rightarrow> user_record" where
  "userbin_parse_user_info info r = r\<lparr>
     ur_user_id := take ACU_USER_ID_LEN info,
     ur_general_group := info ! IDTI_USERINFO_OFF_GENGROUP,
     ur_revision_id := be16 (drop IDTI_USERINFO_OFF_REVISION info),
     ur_access_option := be32 (drop IDTI_USERINFO_OFF_OPTION info),
     ur_level := info ! IDTI_USERINFO_OFF_LEVEL,
     ur_validation_code := be16 (drop IDTI_USERINFO_OFF_VALIDATION info),
     ur_timezone_code := be16 (drop IDTI_USERINFO_OFF_TIMEZONE info),
     ur_expired_date := be24 (drop IDTI_USERINFO_OFF_EXPIRED info),
     ur_prox_type := info ! IDTI_USERINFO_OFF_PROXTYPE,
     ur_prox_wiegand := info ! IDTI_USERINFO_OFF_PROXWIEG,
     ur_bio_type := info ! IDTI_USERINFO_OFF_BIOTYPE,
     ur_bio_type_sub := info ! IDTI_USERINFO_OFF_BIOSUB,
     ur_template_count := info ! IDTI_USERINFO_OFF_TMPLCOUNT,
     ur_access_password := be16 (drop IDTI_USERINFO_OFF_PASSWORD info),
     ur_canteen_code := info ! IDTI_USERINFO_OFF_CANTEEN \<rparr>"

text \<open>The fields are adjacent from offset 0 to 31; offset 9 (reserved) stays 0.\<close>

definition userbin_build_user_info :: "user_record \<Rightarrow> byte list" where
  "userbin_build_user_info r =
     ur_user_id r @ [ur_general_group r, 0] @ put16 (ur_revision_id r) @ put32 (ur_access_option r)
     @ [ur_level r] @ put16 (ur_validation_code r) @ put16 (ur_timezone_code r)
     @ put24 (ur_expired_date r)
     @ [ur_prox_type r, ur_prox_wiegand r, ur_bio_type r, ur_bio_type_sub r, ur_template_count r]
     @ put16 (ur_access_password r) @ [ur_canteen_code r]"

definition record_crc_ok :: "byte list \<Rightarrow> bool" where
  "record_crc_ok rec =
    (xor_bytes (slice IDTI_USERBIN_OFF_USER (IDTI_USERBIN_OFF_CRC_CALC + 1 - IDTI_USERBIN_OFF_USER) rec)
       = rec ! IDTI_USERBIN_OFF_DATACRC)"

text \<open>
  The 128 bytes of \<open>_SSCUserInfo\<close>: index twice, User Info (8), card (40, 8 of 12 bytes), name
  (52), restriction (68, 3 of 8), groups (76), zeros (92), the constant 1 (126), check byte.
\<close>

definition record_body :: "user_record \<Rightarrow> byte list \<Rightarrow> byte list" where
  "record_body r cid =
     userbin_build_user_info r
     @ (if userbin_all_zero cid then zeros 8 else cid) @ zeros 4
     @ ur_lcd_name r
     @ [ur_restrict_type r, ur_restrict_limit_type r, ur_restrict_limit_count r] @ zeros 5
     @ ur_group_codes r @ zeros 34 @ [0x01]"

definition build_record :: "user_record \<Rightarrow> user_card \<Rightarrow> u32 \<Rightarrow> byte list" where
  "build_record r c index =
     put32 index @ put32 index @ record_body r (uc_card_id c) @ [xor_bytes (record_body r (uc_card_id c))]"

section \<open>State\<close>

record user_bin =
  ub_active :: bool
  ub_total_size :: u32
  ub_total_count :: u32
  ub_received :: u32
  ub_record_len :: nat
  ub_have_index :: bool
  ub_last_index :: u16
  ub_rec :: "byte list"
  ub_parsed_ok :: u32
  ub_parsed_bad :: u32
  ub_send_active :: bool
  ub_send_have_base :: bool
  ub_send_base_index :: u16
  ub_send_next_index :: u16
  ub_send_last_id :: "byte list"
  ub_send_have_last :: bool

datatype userbin_status = USERBIN_OK | USERBIN_COMPLETE | USERBIN_FAILED

definition userbin_create :: user_bin where
  "userbin_create = \<lparr> ub_active = False, ub_total_size = 0, ub_total_count = 0, ub_received = 0,
     ub_record_len = 0, ub_have_index = False, ub_last_index = 0, ub_rec = [], ub_parsed_ok = 0,
     ub_parsed_bad = 0, ub_send_active = False, ub_send_have_base = False, ub_send_base_index = 0,
     ub_send_next_index = 0, ub_send_last_id = zeros 8, ub_send_have_last = False \<rparr>"

definition userbin_in_progress :: "user_bin \<Rightarrow> bool" where
  "userbin_in_progress ub = ub_active ub"

definition userbin_abort :: "us_ok \<Rightarrow> user_bin \<Rightarrow> acu_users \<Rightarrow> user_bin \<times> acu_users" where
  "userbin_abort ok ub u =
    (if \<not> ub_active ub then (ub, u)
     else (ub\<lparr> ub_active := False, ub_rec := [], ub_received := 0, ub_have_index := False \<rparr>,
           users_load_abort ok u))"

section \<open>Receiving\<close>

definition userbin_start ::
  "us_ok \<Rightarrow> user_bin \<Rightarrow> acu_users \<Rightarrow> u32 \<Rightarrow> u32 \<Rightarrow> byte \<Rightarrow> bool \<times> user_bin \<times> acu_users" where
  "userbin_start ok ub u total_size total_count binary_obj =
    (let (ub, u) = (if ub_active ub then userbin_abort ok ub u else (ub, u));
         rec_len = (if binary_obj = IDTI_USERBIN_OBJ_INFO then Some IDTI_USERBIN_REC_INFO_LEN
                    else if binary_obj = IDTI_USERBIN_OBJ_INFO_FINGER then Some IDTI_USERBIN_REC_INFO_FINGER_LEN
                    else None)
     in case rec_len of
          None \<Rightarrow> (False, ub, u)
        | Some rl \<Rightarrow>
            if total_size = 0 \<or> unat total_size mod rl \<noteq> 0 then (False, ub, u)
            else case users_load_begin ok u of
                   (False, u1) \<Rightarrow> (False, ub, u1)
                 | (True, u1) \<Rightarrow>
                     (True, ub\<lparr> ub_active := True, ub_total_size := total_size, ub_total_count := total_count,
                        ub_record_len := rl, ub_received := 0, ub_rec := [], ub_have_index := False,
                        ub_last_index := 0, ub_parsed_ok := 0, ub_parsed_bad := 0 \<rparr>, u1))"

definition record_user :: "byte list \<Rightarrow> user_record" where
  "record_user rec =
    (userbin_parse_user_info (drop IDTI_USERBIN_OFF_USER rec) zero_user)\<lparr>
       ur_lcd_name := slice IDTI_USERBIN_OFF_NAME ACU_USER_NAME_LEN rec,
       ur_group_codes := slice IDTI_USERBIN_OFF_GROUP ACU_USER_GROUP_LEN rec,
       ur_restrict_type := rec ! IDTI_USERBIN_OFF_RESTRICT,
       ur_restrict_limit_type := rec ! (IDTI_USERBIN_OFF_RESTRICT + 1),
       ur_restrict_limit_count := rec ! (IDTI_USERBIN_OFF_RESTRICT + 2) \<rparr>"

definition record_card :: "byte list \<Rightarrow> user_card" where
  "record_card rec =
    (let bin_card = slice IDTI_USERBIN_OFF_CARD ACU_USER_CARD_LEN rec
     in \<lparr> uc_card_id = bin_card, uc_user_id = ur_user_id (record_user rec),
          uc_prox_raw = rev bin_card @ zeros 24 \<rparr>)"

text \<open>The boolean is the return value 0 (True) or -1 (False).\<close>

definition store_record :: "us_ok \<Rightarrow> acu_users \<Rightarrow> byte list \<Rightarrow> bool \<times> acu_users" where
  "store_record ok u rec =
    (if \<not> record_crc_ok rec then (False, u)
     else
       let r = record_user rec
       in if userbin_all_zero (ur_user_id r) then (False, u)
          else case users_load_put ok u r of
                 (False, u1) \<Rightarrow> (False, u1)
               | (True, u1) \<Rightarrow>
                   if userbin_all_zero (slice IDTI_USERBIN_OFF_CARD ACU_USER_CARD_LEN rec) then (True, u1)
                   else users_load_put_card ok u1 (record_card rec))"

text \<open>
  The loop that cuts the piece into records. With a full record buffer it would copy nothing
  and never end: that is the result \<open>None\<close>.
\<close>

function consume_bytes :: "us_ok \<Rightarrow> user_bin \<times> acu_users \<Rightarrow> byte list \<Rightarrow> (user_bin \<times> acu_users) option" where
  "consume_bytes ok s data =
    (if data = [] then Some s
     else
       let (ub, u) = s;
           need = ub_record_len ub - length (ub_rec ub);
           n = (if length data < need then length data else need)
       in if n = 0 then None
          else
            let rec' = ub_rec ub @ take n data
            in if length rec' = ub_record_len ub
               then
                 let (stored, u') = store_record ok u rec';
                     ub' = (if stored then ub\<lparr> ub_parsed_ok := ub_parsed_ok ub + 1 \<rparr>
                            else ub\<lparr> ub_parsed_bad := ub_parsed_bad ub + 1 \<rparr>)
                 in consume_bytes ok (ub'\<lparr> ub_rec := [] \<rparr>, u') (drop n data)
               else consume_bytes ok (ub\<lparr> ub_rec := rec' \<rparr>, u) (drop n data))"
  by pat_completeness auto
termination
  by (relation "measure (\<lambda>(ok, s, data). length data)") (auto split: if_splits)

declare consume_bytes.simps [simp del]

definition userbin_finish :: "us_ok \<Rightarrow> user_bin \<Rightarrow> acu_users \<Rightarrow> userbin_status \<times> user_bin \<times> acu_users" where
  "userbin_finish ok ub u =
    (let (rc, u1) = users_load_commit ok u;
         ub1 = ub\<lparr> ub_active := False, ub_rec := [] \<rparr>
     in if \<not> rc then (USERBIN_COMPLETE, ub1\<lparr> ub_parsed_ok := 0 \<rparr>, u1)
        else (USERBIN_COMPLETE, ub1, u1))"

definition userbin_continue ::
  "us_ok \<Rightarrow> user_bin \<Rightarrow> acu_users \<Rightarrow> u16 \<Rightarrow> byte list \<Rightarrow> (userbin_status \<times> user_bin \<times> acu_users) option" where
  "userbin_continue ok ub u index data =
    (if \<not> ub_active ub then Some (USERBIN_FAILED, ub, u)
     else if ub_have_index ub \<and> index = ub_last_index ub then Some (USERBIN_OK, ub, u)
     else if ub_have_index ub \<and> index \<noteq> ub_last_index ub + 1 then Some (USERBIN_FAILED, ub, u)
     else if unat (ub_received ub) + length data > unat (ub_total_size ub) then Some (USERBIN_FAILED, ub, u)
     else case consume_bytes ok (ub, u) data of
            None \<Rightarrow> None
          | Some (ub1, u1) \<Rightarrow>
              let ub2 = ub1\<lparr> ub_received := ub_received ub1 + of_nat (length data),
                            ub_last_index := index, ub_have_index := True \<rparr>
              in if ub_received ub2 \<ge> ub_total_size ub2 then Some (userbin_finish ok ub2 u1)
                 else Some (USERBIN_OK, ub2, u1))"

definition userbin_result_event :: "user_bin \<Rightarrow> u32" where
  "userbin_result_event ub =
    (if ub_parsed_ok ub = 0 then IDTI_EVENT_USERFILE_FAIL
     else if ub_parsed_bad ub > 0 then IDTI_EVENT_USERFILE_PARTIAL
     else IDTI_EVENT_USERFILE_SUCCESS)"

section \<open>Sending\<close>

text \<open>\<open>Some (size, count)\<close> are the two output parameters, \<open>None\<close> is -1.\<close>

definition userbin_receive_start ::
  "us_ok \<Rightarrow> user_bin \<Rightarrow> acu_users \<Rightarrow> byte \<Rightarrow> (u32 \<times> u32) option \<times> user_bin" where
  "userbin_receive_start ok ub u binary_obj =
    (if binary_obj \<noteq> IDTI_USERBIN_OBJ_INFO then (None, ub)
     else
       let count = users_count ok u
       in if count < 0 then (None, ub)
          else (Some (word_of_int (count * int IDTI_USERBIN_REC_INFO_LEN), word_of_int count),
                ub\<lparr> ub_send_active := True, ub_send_have_base := False, ub_send_next_index := 0,
                   ub_send_have_last := False, ub_send_last_id := zeros 8 \<rparr>))"

primrec build_records :: "(user_record \<times> user_card) list \<Rightarrow> nat \<Rightarrow> byte list" where
  "build_records [] i = []"
| "build_records (p # ps) i = build_record (fst p) (snd p) (of_nat i) @ build_records ps (Suc i)"

definition userbin_receive_chunk ::
  "us_ok \<Rightarrow> user_bin \<Rightarrow> acu_users \<Rightarrow> u16 \<Rightarrow> nat \<Rightarrow> byte list option \<times> user_bin" where
  "userbin_receive_chunk ok ub u index out_cap =
    (if out_cap < USERBIN_SEND_CHUNK \<or> \<not> ub_send_active ub then (None, ub)
     else
       let ub1 = (if \<not> ub_send_have_base ub
                  then ub\<lparr> ub_send_base_index := index, ub_send_next_index := index, ub_send_have_base := True \<rparr>
                  else ub);
           first = unat (index - ub_send_base_index ub1) * USERBIN_SEND_RECORDS;
           rows = (if index = ub_send_next_index ub1 \<and> ub_send_have_last ub1
                   then users_read_after ok u (Some (ub_send_last_id ub1)) (int USERBIN_SEND_RECORDS)
                   else if index = ub_send_base_index ub1
                   then users_read_after ok u None (int USERBIN_SEND_RECORDS)
                   else users_read_at ok u (int first) (int USERBIN_SEND_RECORDS))
       in case rows of
            None \<Rightarrow> (None, ub1)
          | Some rs \<Rightarrow>
              (Some (build_records rs first),
               if rs = [] then ub1
               else ub1\<lparr> ub_send_last_id := ur_user_id (fst (last rs)), ub_send_have_last := True,
                         ub_send_next_index := index + 1 \<rparr>))"

section \<open>User Info round trip\<close>

lemma length_put24 [simp]: "length (put24 v) = 3"
  by (simp add: put24_def)

lemma be24_put24 [simp]: "unat v < 2 ^ 24 \<Longrightarrow> be24 (put24 v @ ys) = v"
proof -
  assume "unat v < 2 ^ 24"
  then have small: "\<not> bit v n" if "24 \<le> n" for n
  proof -
    from \<open>unat v < 2 ^ 24\<close> have "take_bit 24 (unat v) = unat v" by (simp add: take_bit_nat_eq_self)
    then have "\<not> bit (unat v) n" using that by (metis bit_take_bit_iff not_le)
    then show ?thesis by (simp add: bit_unsigned_iff)
  qed
  show ?thesis
  proof (rule bit_word_eqI)
    fix n :: nat
    assume "n < LENGTH(32)"
    then show "bit (be24 (put24 v @ ys)) n \<longleftrightarrow> bit v n"
      using small [of n]
      by (cases "n < 8"; cases "n < 16"; cases "n < 24") (auto simp: be24_def put24_def bit_simps)
  qed
qed

lemma be16_put16_app [simp]: "be16 (put16 v @ ys) = v"
proof -
  have "be16 (put16 v @ ys) = be16 (put16 v)" by (simp add: be16_def put16_def)
  then show ?thesis by simp
qed

lemma be32_put32_app [simp]: "be32 (put32 v @ ys) = v"
proof -
  have "be32 (put32 v @ ys) = be32 (put32 v)" by (simp add: be32_def put32_def numeral_eq_Suc)
  then show ?thesis by simp
qed

lemma length_user_info [simp]: "length (ur_user_id r) = 8 \<Longrightarrow> length (userbin_build_user_info r) = 32"
  by (simp add: userbin_build_user_info_def)

text \<open>The bytes of User Info at its offsets.\<close>

lemma user_info_fields:
  assumes id: "length (ur_user_id r) = 8"
  shows "take 8 (userbin_build_user_info r @ ys) = ur_user_id r"
    "(userbin_build_user_info r @ ys) ! 8 = ur_general_group r"
    "be16 (drop 10 (userbin_build_user_info r @ ys)) = ur_revision_id r"
    "be32 (drop 12 (userbin_build_user_info r @ ys)) = ur_access_option r"
    "(userbin_build_user_info r @ ys) ! 16 = ur_level r"
    "be16 (drop 17 (userbin_build_user_info r @ ys)) = ur_validation_code r"
    "be16 (drop 19 (userbin_build_user_info r @ ys)) = ur_timezone_code r"
    "unat (ur_expired_date r) < 2 ^ 24 \<Longrightarrow> be24 (drop 21 (userbin_build_user_info r @ ys)) = ur_expired_date r"
    "(userbin_build_user_info r @ ys) ! 24 = ur_prox_type r"
    "(userbin_build_user_info r @ ys) ! 25 = ur_prox_wiegand r"
    "(userbin_build_user_info r @ ys) ! 26 = ur_bio_type r"
    "(userbin_build_user_info r @ ys) ! 27 = ur_bio_type_sub r"
    "(userbin_build_user_info r @ ys) ! 28 = ur_template_count r"
    "be16 (drop 29 (userbin_build_user_info r @ ys)) = ur_access_password r"
    "(userbin_build_user_info r @ ys) ! 31 = ur_canteen_code r"
  using id by (simp_all add: userbin_build_user_info_def nth_append)

lemma parse_build_user_info:
  assumes "length (ur_user_id r) = 8" "unat (ur_expired_date r) < 2 ^ 24"
  shows "userbin_parse_user_info (userbin_build_user_info r @ ys) s
    = r\<lparr> ur_lcd_name := ur_lcd_name s, ur_restrict_type := ur_restrict_type s,
         ur_restrict_limit_type := ur_restrict_limit_type s,
         ur_restrict_limit_count := ur_restrict_limit_count s, ur_group_codes := ur_group_codes s \<rparr>"
  using assms by (intro user_record.equality) (simp_all add: userbin_parse_user_info_def user_info_fields del: drop_append take_append)

text \<open>The parts of a built record.\<close>

lemma record_body_length [simp]:
  "wf_user r \<Longrightarrow> length cid = 8 \<Longrightarrow> length (record_body r cid) = 119"
  by (simp add: record_body_def wf_user_def)

lemma build_record_length [simp]:
  "wf_user r \<Longrightarrow> length (uc_card_id c) = 8 \<Longrightarrow> length (build_record r c i) = 128"
  by (simp add: build_record_def)

lemma build_record_crc:
  assumes "wf_user r" "length (uc_card_id c) = 8"
  shows "record_crc_ok (build_record r c i)"
  using assms by (simp add: record_crc_ok_def build_record_def slice_def nth_append)

lemma build_record_user:
  assumes wf: "wf_user r" and c: "length (uc_card_id c) = 8" and exp: "unat (ur_expired_date r) < 2 ^ 24"
  shows "record_user (build_record r c i) = r"
proof -
  let ?b = "build_record r c i" and ?cid = "if userbin_all_zero (uc_card_id c) then zeros 8 else uc_card_id c"
  have cid: "length ?cid = 8" using c by simp
  have lens: "length (ur_user_id r) = 8" "length (ur_lcd_name r) = 16" "length (ur_group_codes r) = 16"
    using wf by (simp_all add: wf_user_def)
  obtain ys where info: "drop 8 ?b = userbin_build_user_info r @ ys"
    by (simp add: build_record_def record_body_def)
  have "slice 52 16 ?b = ur_lcd_name r" "slice 76 16 ?b = ur_group_codes r"
    "?b ! 68 = ur_restrict_type r" "?b ! 69 = ur_restrict_limit_type r" "?b ! 70 = ur_restrict_limit_count r"
    using lens cid by (simp_all add: build_record_def record_body_def slice_def nth_append)
  then show ?thesis
    using parse_build_user_info [OF lens(1) exp, of ys zero_user]
    by (simp add: record_user_def info)
qed

lemma all_zero_zeros: "length p = n \<Longrightarrow> userbin_all_zero p \<longleftrightarrow> p = zeros n"
  unfolding userbin_all_zero_def zeros_def list_all_iff by (metis in_set_replicate replicate_eqI)

lemma build_record_card_slot:
  assumes wf: "wf_user r" and c: "length (uc_card_id c) = 8"
  shows "slice 40 8 (build_record r c i) = uc_card_id c"
  using wf c all_zero_zeros [OF c]
  by (simp add: build_record_def record_body_def slice_def wf_user_def)

section \<open>The byte stream does not depend on how it is cut\<close>

text \<open>One byte at a time: the reference for the copying loop.\<close>

definition close_rec :: "us_ok \<Rightarrow> user_bin \<times> acu_users \<Rightarrow> user_bin \<times> acu_users" where
  "close_rec ok s =
    (let (ub, u) = s
     in if length (ub_rec ub) = ub_record_len ub
        then
          let (stored, u') = store_record ok u (ub_rec ub);
              ub' = (if stored then ub\<lparr> ub_parsed_ok := ub_parsed_ok ub + 1 \<rparr>
                     else ub\<lparr> ub_parsed_bad := ub_parsed_bad ub + 1 \<rparr>)
          in (ub'\<lparr> ub_rec := [] \<rparr>, u')
        else (ub, u))"

definition push_byte :: "us_ok \<Rightarrow> user_bin \<times> acu_users \<Rightarrow> byte \<Rightarrow> user_bin \<times> acu_users" where
  "push_byte ok s b = close_rec ok ((fst s)\<lparr> ub_rec := ub_rec (fst s) @ [b] \<rparr>, snd s)"

definition rec_fits :: "user_bin \<Rightarrow> bool" where
  "rec_fits ub \<longleftrightarrow> length (ub_rec ub) < ub_record_len ub"

lemma push_byte_fits: "rec_fits (fst s) \<Longrightarrow> rec_fits (fst (push_byte ok s b))"
  by (auto simp: push_byte_def close_rec_def rec_fits_def Let_def split: prod.splits)

lemma consume_Nil [simp]: "consume_bytes ok s [] = Some s"
  by (subst consume_bytes.simps) simp

lemma consume_step:
  assumes "data \<noteq> []" "length (ub_rec ub) < ub_record_len ub"
    "n = min (length data) (ub_record_len ub - length (ub_rec ub))"
  shows "consume_bytes ok (ub, u) data
    = consume_bytes ok (close_rec ok (ub\<lparr> ub_rec := ub_rec ub @ take n data \<rparr>, u)) (drop n data)"
proof -
  have n: "(if length data < ub_record_len ub - length (ub_rec ub) then length data
      else ub_record_len ub - length (ub_rec ub)) = n" "n \<noteq> 0"
    using assms by auto
  show ?thesis
  proof (cases "length (ub_rec ub @ take n data) = ub_record_len ub")
    case True
    then show ?thesis
      by (subst consume_bytes.simps)
         (simp only: assms(1) if_False Let_def split_conv n if_True close_rec_def user_bin.simps
            split: prod.split, simp)
  next
    case False
    then show ?thesis
      by (subst consume_bytes.simps)
         (simp only: assms(1) if_False Let_def split_conv n close_rec_def user_bin.simps, simp)
  qed
qed

lemma consume_Cons:
  assumes fits: "rec_fits (fst s)"
  shows "consume_bytes ok s (b # d) = consume_bytes ok (push_byte ok s b) d"
proof -
  obtain ub u where s: "s = (ub, u)" by (cases s)
  have len: "length (ub_rec ub) < ub_record_len ub" using fits s by (simp add: rec_fits_def)
  let ?ub1 = "ub\<lparr> ub_rec := ub_rec ub @ [b] \<rparr>"
  show ?thesis
  proof (cases "Suc (length (ub_rec ub)) = ub_record_len ub \<or> d = []")
    case True
    then have "1 = min (length (b # d)) (ub_record_len ub - length (ub_rec ub))" using len by auto
    from consume_step [OF _ len this] s show ?thesis by (simp add: push_byte_def)
  next
    case False
    then have len1: "length (ub_rec ?ub1) < ub_record_len ?ub1" and d: "d \<noteq> []" using len by auto
    have push: "push_byte ok s b = (?ub1, u)" using False s by (simp add: push_byte_def close_rec_def)
    let ?n = "min (length d) (ub_record_len ?ub1 - length (ub_rec ?ub1))"
    have "Suc ?n = min (length (b # d)) (ub_record_len ub - length (ub_rec ub))" using len1 d by auto
    from consume_step [OF _ len this] s
    have "consume_bytes ok s (b # d)
        = consume_bytes ok (close_rec ok (ub\<lparr> ub_rec := ub_rec ub @ b # take ?n d \<rparr>, u)) (drop ?n d)"
      by simp
    also have "\<dots> = consume_bytes ok (?ub1, u) d"
      using consume_step [OF d len1 refl] by simp
    finally show ?thesis by (simp add: push)
  qed
qed

lemma consume_foldl:
  "rec_fits (fst s) \<Longrightarrow> consume_bytes ok s d = Some (foldl (push_byte ok) s d)"
  by (induction d arbitrary: s) (simp_all add: consume_Cons push_byte_fits)

lemma push_bytes_fits: "rec_fits (fst s) \<Longrightarrow> rec_fits (fst (foldl (push_byte ok) s d))"
  by (induction d arbitrary: s) (simp_all add: push_byte_fits)

lemma push_byte_frame:
  "push_byte ok (ub\<lparr> ub_received := n, ub_last_index := i, ub_have_index := h \<rparr>, u) b
    = map_prod (\<lambda>x. x\<lparr> ub_received := n, ub_last_index := i, ub_have_index := h \<rparr>) id (push_byte ok (ub, u) b)"
  by (simp add: push_byte_def close_rec_def Let_def split: prod.splits)

lemma push_bytes_frame:
  "foldl (push_byte ok) (ub\<lparr> ub_received := n, ub_last_index := i, ub_have_index := h \<rparr>, u) d
    = map_prod (\<lambda>x. x\<lparr> ub_received := n, ub_last_index := i, ub_have_index := h \<rparr>) id
        (foldl (push_byte ok) (ub, u) d)"
proof (induction d arbitrary: ub u)
  case Nil
  then show ?case by simp
next
  case (Cons b d)
  then show ?case by (cases "push_byte ok (ub, u) b") (simp add: push_byte_frame)
qed

lemma push_byte_keeps [simp]:
  "ub_active (fst (push_byte ok s b)) = ub_active (fst s)"
  "ub_total_size (fst (push_byte ok s b)) = ub_total_size (fst s)"
  "ub_received (fst (push_byte ok s b)) = ub_received (fst s)"
  "ub_record_len (fst (push_byte ok s b)) = ub_record_len (fst s)"
  by (simp_all add: push_byte_def close_rec_def Let_def split: prod.splits)

lemma push_bytes_keep [simp]:
  "ub_active (fst (foldl (push_byte ok) s d)) = ub_active (fst s)"
  "ub_total_size (fst (foldl (push_byte ok) s d)) = ub_total_size (fst s)"
  "ub_received (fst (foldl (push_byte ok) s d)) = ub_received (fst s)"
  "ub_record_len (fst (foldl (push_byte ok) s d)) = ub_record_len (fst s)"
  by (induction d arbitrary: s) simp_all

lemma consume_active:
  assumes "consume_bytes ok (ub, u) d = Some (ub', u')"
  shows "ub_active ub' = ub_active ub"
proof (cases "d = [] \<or> rec_fits ub")
  case True
  then show ?thesis
  proof (cases "d = []")
    case False
    with True have "foldl (push_byte ok) (ub, u) d = (ub', u')"
      using assms consume_foldl [of "(ub, u)" ok d] by simp
    then show ?thesis using push_bytes_keep(1) [of ok "(ub, u)" d] by simp
  qed (use assms in simp)
next
  case False
  then have "consume_bytes ok (ub, u) d = None"
    by (subst consume_bytes.simps) (simp add: rec_fits_def Let_def)
  then show ?thesis using assms by simp
qed

text \<open>The pieces of a transfer, sent with consecutive numbers from \<open>i\<close>.\<close>

primrec run_pieces ::
  "us_ok \<Rightarrow> u16 \<Rightarrow> byte list list \<Rightarrow> userbin_status \<times> user_bin \<times> acu_users
   \<Rightarrow> (userbin_status \<times> user_bin \<times> acu_users) option" where
  "run_pieces ok i [] s = Some s"
| "run_pieces ok i (d # ds) s =
    (case userbin_continue ok (fst (snd s)) (snd (snd s)) i d of
       None \<Rightarrow> None
     | Some s' \<Rightarrow> run_pieces ok (i + 1) ds s')"

lemma next_index_differs: "(i :: u16) + 1 \<noteq> i"
  by simp

lemma run_pieces_stream:
  "ub_active ub \<Longrightarrow> rec_fits ub \<Longrightarrow> ds \<noteq> [] \<Longrightarrow> \<forall>d \<in> set ds. d \<noteq> [] \<Longrightarrow>
   (ub_have_index ub \<longrightarrow> ub_last_index ub + 1 = i) \<Longrightarrow>
   unat (ub_received ub) + length (concat ds) = unat (ub_total_size ub) \<Longrightarrow>
   \<exists>n j. run_pieces ok i ds (st, ub, u)
     = Some (userbin_finish ok ((fst (foldl (push_byte ok) (ub, u) (concat ds)))
               \<lparr> ub_received := n, ub_last_index := j, ub_have_index := True \<rparr>)
             (snd (foldl (push_byte ok) (ub, u) (concat ds))))"
proof (induction ds arbitrary: i ub u st)
  case Nil
  then show ?case by simp
next
  case (Cons d ds)
  let ?s1 = "foldl (push_byte ok) (ub, u) d"
  obtain ub1 u1 where s1: "?s1 = (ub1, u1)" by (cases ?s1)
  have keep: "ub_active ub1" "ub_total_size ub1 = ub_total_size ub" "ub_received ub1 = ub_received ub"
    "rec_fits ub1"
    using Cons.prems(1,2) push_bytes_keep [of ok "(ub, u)" d] push_bytes_fits [of "(ub, u)" ok d] s1
    by simp_all
  let ?n = "ub_received ub + of_nat (length d)"
  let ?upd = "\<lambda>x. x\<lparr> ub_received := ?n, ub_last_index := i, ub_have_index := True \<rparr>"
  have small: "unat (ub_received ub) + length d < 2 ^ 32"
    using Cons.prems(6) unat_u32_bound [of "ub_total_size ub"] by simp
  then have n: "unat ?n = unat (ub_received ub) + length d"
    by (simp add: unat_word_ariths unat_of_nat)
  have fits: "\<not> unat (ub_received ub) + length d > unat (ub_total_size ub)" using Cons.prems(6) by simp
  have idx: "\<not> (ub_have_index ub \<and> i = ub_last_index ub)" "\<not> (ub_have_index ub \<and> i \<noteq> ub_last_index ub + 1)"
    using Cons.prems(5) next_index_differs [of "ub_last_index ub"] by auto
  have consumed: "consume_bytes ok (ub, u) d = Some (ub1, u1)"
    using consume_foldl [of "(ub, u)" ok d] Cons.prems(2) s1 by simp
  have cont: "userbin_continue ok ub u i d = (if ?n \<ge> ub_total_size ub then Some (userbin_finish ok (?upd ub1) u1)
      else Some (USERBIN_OK, ?upd ub1, u1))"
    using Cons.prems(1) fits idx consumed keep by (auto simp: userbin_continue_def Let_def)
  show ?case
  proof (cases "ds = []")
    case True
    then have "unat ?n = unat (ub_total_size ub)" using n Cons.prems(6) by simp
    then have "?n \<ge> ub_total_size ub" by (simp add: word_le_nat_alt)
    then show ?thesis using True cont s1 by auto
  next
    case False
    then have "concat ds \<noteq> []" using Cons.prems(4) by auto
    then have "0 < length (concat ds)" by (rule length_greater_0_conv [THEN iffD2])
    moreover have "length (concat (d # ds)) = length d + length (concat ds)" by simp
    ultimately have "unat ?n < unat (ub_total_size ub)" using n Cons.prems(6) by linarith
    then have "\<not> ?n \<ge> ub_total_size ub" by (simp add: word_le_nat_alt)
    then have step: "run_pieces ok i (d # ds) (st, ub, u) = run_pieces ok (i + 1) ds (USERBIN_OK, ?upd ub1, u1)"
      using cont by simp
    have "\<exists>n j. run_pieces ok (i + 1) ds (USERBIN_OK, ?upd ub1, u1)
      = Some (userbin_finish ok ((fst (foldl (push_byte ok) (?upd ub1, u1) (concat ds)))
               \<lparr> ub_received := n, ub_last_index := j, ub_have_index := True \<rparr>)
             (snd (foldl (push_byte ok) (?upd ub1, u1) (concat ds))))"
      by (rule Cons.IH) (use False Cons.prems(4,6) keep n in \<open>auto simp: rec_fits_def\<close>)
    then show ?thesis
      unfolding step by (auto simp: push_bytes_frame s1)
  qed
qed

section \<open>Records stored one by one\<close>

text \<open>What one record contributes to the received list.\<close>

definition rec_items :: "byte list \<Rightarrow> load_item list" where
  "rec_items rec =
    (if record_crc_ok rec \<and> \<not> userbin_all_zero (ur_user_id (record_user rec))
     then Inl (record_user rec)
       # (if userbin_all_zero (slice IDTI_USERBIN_OFF_CARD ACU_USER_CARD_LEN rec) then [] else [Inr (record_card rec)])
     else [])"

lemma record_user_wf: "128 \<le> length rec \<Longrightarrow> wf_user (record_user rec)"
  by (simp add: record_user_def wf_user_def userbin_parse_user_info_def)

lemma record_card_wf: "128 \<le> length rec \<Longrightarrow> wf_card (record_card rec)"
  by (simp add: record_card_def wf_card_def Let_def record_user_def userbin_parse_user_info_def)

lemma rec_items_wf: "128 \<le> length rec \<Longrightarrow> it \<in> set (rec_items rec) \<Longrightarrow> wf_item it"
  by (auto simp: rec_items_def wf_item_def record_user_wf record_card_wf split: if_splits)

lemma store_record_items:
  assumes rcv: "receiving (item_users its) (item_cards its) u" and len: "128 \<le> length rec"
  shows "store_record us_all_ok u rec = (rec_items rec \<noteq> [], foldl load_item_step u (rec_items rec))"
proof (cases "record_crc_ok rec \<and> \<not> userbin_all_zero (ur_user_id (record_user rec))")
  case False
  then show ?thesis by (auto simp: store_record_def rec_items_def)
next
  case True
  obtain u1 where put: "users_load_put us_all_ok u (record_user rec) = (True, u1)"
    using load_put_succeeds [OF rcv, of "record_user rec"]
    by (cases "users_load_put us_all_ok u (record_user rec)") simp
  have "receiving (item_users (its @ [Inl (record_user rec)])) (item_cards (its @ [Inl (record_user rec)])) u1"
    using receiving_item [OF rcv, of "Inl (record_user rec)"] record_user_wf [OF len] put by (simp add: wf_item_def)
  from load_put_card_succeeds [OF this, of "record_card rec"]
  obtain u2 where "users_load_put_card us_all_ok u1 (record_card rec) = (True, u2)"
    by (cases "users_load_put_card us_all_ok u1 (record_card rec)") simp
  then show ?thesis using True put by (simp add: store_record_def rec_items_def Let_def)
qed

lemma receiving_more:
  "receiving (item_users its) (item_cards its) u \<Longrightarrow> \<forall>it \<in> set ys. wf_item it \<Longrightarrow>
    receiving (item_users (its @ ys)) (item_cards (its @ ys)) (foldl load_item_step u ys)"
proof (induction ys arbitrary: its u)
  case Nil
  then show ?case by simp
next
  case (Cons it ys)
  from Cons.IH [OF receiving_item [OF Cons.prems(1)]] Cons.prems show ?case by simp
qed

lemma push_partial:
  "length (ub_rec ub) + length d < ub_record_len ub \<Longrightarrow>
    foldl (push_byte ok) (ub, u) d = (ub\<lparr> ub_rec := ub_rec ub @ d \<rparr>, u)"
proof (induction d arbitrary: ub)
  case Nil
  then show ?case by simp
next
  case (Cons b d)
  then show ?case by (simp add: push_byte_def close_rec_def)
qed

lemma push_record:
  assumes "ub_rec ub = []" "length rec = ub_record_len ub" "rec \<noteq> []"
  shows "foldl (push_byte ok) (ub, u) rec = close_rec ok (ub\<lparr> ub_rec := rec \<rparr>, u)"
proof -
  have rec: "rec = butlast rec @ [last rec]" using assms(3) by simp
  have "foldl (push_byte ok) (ub, u) (butlast rec) = (ub\<lparr> ub_rec := butlast rec \<rparr>, u)"
    using push_partial [of ub "butlast rec" ok u] assms by (cases rec) auto
  then have "foldl (push_byte ok) (ub, u) (butlast rec @ [last rec])
      = push_byte ok (ub\<lparr> ub_rec := butlast rec \<rparr>, u) (last rec)"
    by simp
  then show ?thesis unfolding rec [symmetric] using assms(3) by (simp add: push_byte_def)
qed

definition good_records :: "byte list list \<Rightarrow> nat" where
  "good_records recs = length (filter (\<lambda>rec. rec_items rec \<noteq> []) recs)"

definition bad_records :: "byte list list \<Rightarrow> nat" where
  "bad_records recs = length (filter (\<lambda>rec. rec_items rec = []) recs)"

lemma push_records:
  "ub_rec ub = [] \<Longrightarrow> 128 \<le> ub_record_len ub \<Longrightarrow> \<forall>rec \<in> set recs. length rec = ub_record_len ub \<Longrightarrow>
    receiving (item_users its) (item_cards its) u \<Longrightarrow>
    foldl (push_byte us_all_ok) (ub, u) (concat recs)
      = (ub\<lparr> ub_parsed_ok := ub_parsed_ok ub + of_nat (good_records recs),
             ub_parsed_bad := ub_parsed_bad ub + of_nat (bad_records recs) \<rparr>,
         foldl load_item_step u (concat (map rec_items recs)))"
proof (induction recs arbitrary: ub u its)
  case Nil
  then show ?case by (simp add: good_records_def bad_records_def)
next
  case (Cons rec recs)
  have len: "length rec = ub_record_len ub" "128 \<le> length rec" using Cons.prems by auto
  then have "rec \<noteq> []" by auto
  let ?ub' = "if rec_items rec \<noteq> [] then ub\<lparr> ub_parsed_ok := ub_parsed_ok ub + 1 \<rparr>
      else ub\<lparr> ub_parsed_bad := ub_parsed_bad ub + 1 \<rparr>"
  have upd: "ub\<lparr> ub_parsed_ok := x, ub_rec := [] \<rparr> = ub\<lparr> ub_parsed_ok := x \<rparr>"
    "ub\<lparr> ub_parsed_bad := x, ub_rec := [] \<rparr> = ub\<lparr> ub_parsed_bad := x \<rparr>" for x
    using Cons.prems(1) by (cases ub; simp)+
  have first: "foldl (push_byte us_all_ok) (ub, u) rec = (?ub', foldl load_item_step u (rec_items rec))"
    using push_record [OF Cons.prems(1) len(1) \<open>rec \<noteq> []\<close>, of us_all_ok u]
      store_record_items [OF Cons.prems(4) len(2)] len(1) upd
    by (simp add: close_rec_def)
  have rcv: "receiving (item_users (its @ rec_items rec)) (item_cards (its @ rec_items rec))
      (foldl load_item_step u (rec_items rec))"
    by (rule receiving_more [OF Cons.prems(4)]) (use rec_items_wf [OF len(2)] in blast)
  have "foldl (push_byte us_all_ok) (?ub', foldl load_item_step u (rec_items rec)) (concat recs)
      = (?ub'\<lparr> ub_parsed_ok := ub_parsed_ok ?ub' + of_nat (good_records recs),
             ub_parsed_bad := ub_parsed_bad ?ub' + of_nat (bad_records recs) \<rparr>,
         foldl load_item_step (foldl load_item_step u (rec_items rec)) (concat (map rec_items recs)))"
    by (rule Cons.IH [OF _ _ _ rcv]) (use Cons.prems in auto)
  then show ?case
    by (simp add: first good_records_def bad_records_def)
qed

lemma start_receiving:
  assumes idle: "users_idle u" and ub: "\<not> ub_active ub" and size: "total_size \<noteq> 0" "unat total_size mod 128 = 0"
  shows "userbin_start us_all_ok ub u total_size cnt IDTI_USERBIN_OBJ_INFO
    = (True, ub\<lparr> ub_active := True, ub_total_size := total_size, ub_total_count := cnt,
          ub_record_len := 128, ub_received := 0, ub_rec := [], ub_have_index := False,
          ub_last_index := 0, ub_parsed_ok := 0, ub_parsed_bad := 0 \<rparr>,
        snd (users_load_begin us_all_ok u))"
proof -
  obtain u1 where "users_load_begin us_all_ok u = (True, u1)"
    using begin_receiving [OF idle] by (cases "users_load_begin us_all_ok u") simp
  then show ?thesis using ub size by (simp add: userbin_start_def)
qed

lemma transfer_result:
  assumes idle: "users_idle u" and ub: "\<not> ub_active ub"
    and recs: "recs \<noteq> []" "\<forall>rec \<in> set recs. length rec = 128" "128 * length recs < 2 ^ 32"
    and pieces: "\<forall>d \<in> set ds. d \<noteq> []" "concat ds = concat recs"
  shows "\<exists>ub1 u1 ub2 u2.
      userbin_start us_all_ok ub u (of_nat (128 * length recs)) cnt IDTI_USERBIN_OBJ_INFO = (True, ub1, u1)
    \<and> run_pieces us_all_ok i ds (USERBIN_OK, ub1, u1) = Some (USERBIN_COMPLETE, ub2, u2)
    \<and> users_map u2 = item_users (concat (map rec_items recs))
    \<and> cards_map u2 = item_cards (concat (map rec_items recs))
    \<and> users_idle u2 \<and> \<not> ub_active ub2
    \<and> userbin_result_event ub2 = (if good_records recs = 0 then IDTI_EVENT_USERFILE_FAIL
         else if bad_records recs = 0 then IDTI_EVENT_USERFILE_SUCCESS else IDTI_EVENT_USERFILE_PARTIAL)"
proof -
  let ?T = "of_nat (128 * length recs) :: u32"
  have T: "unat ?T = 128 * length recs" using recs(3) by (simp only: unat_of_nat) simp
  have T0: "?T \<noteq> 0" using T recs(1) by (metis length_0_conv mult_eq_0_iff unat_0 zero_neq_numeral)
  have Tm: "unat ?T mod 128 = 0" by (simp only: T) simp
  let ?u1 = "snd (users_load_begin us_all_ok u)"
  obtain ub1 where start: "userbin_start us_all_ok ub u ?T cnt IDTI_USERBIN_OBJ_INFO = (True, ub1, ?u1)"
    and ub1: "ub_active ub1" "ub_total_size ub1 = ?T" "ub_record_len ub1 = 128" "ub_received ub1 = 0"
      "ub_rec ub1 = []" "\<not> ub_have_index ub1" "ub_parsed_ok ub1 = 0" "ub_parsed_bad ub1 = 0"
    using start_receiving [OF idle ub T0 Tm, of cnt] by simp
  have lens: "length (concat recs) = 128 * length recs"
    using recs(2) by (simp add: length_concat sum_list_triv cong: map_cong)
  have rcv: "receiving (item_users []) (item_cards []) ?u1"
    using begin_receiving [OF idle] by (simp add: item_users_def item_cards_def)
  let ?its = "concat (map rec_items recs)"
  let ?ubf = "ub1\<lparr> ub_parsed_ok := of_nat (good_records recs), ub_parsed_bad := of_nat (bad_records recs) \<rparr>"
  let ?uf = "foldl load_item_step ?u1 ?its"
  have pushed: "foldl (push_byte us_all_ok) (ub1, ?u1) (concat ds) = (?ubf, ?uf)"
    using push_records [OF ub1(5) _ _ rcv] recs(2) ub1 pieces(2) by simp
  have "length (concat ds) = 128 * length recs" using pieces(2) lens by simp
  then have "ds \<noteq> []" using recs(1) by (cases ds) auto
  then obtain n j where run: "run_pieces us_all_ok i ds (USERBIN_OK, ub1, ?u1)
      = Some (userbin_finish us_all_ok (?ubf\<lparr> ub_received := n, ub_last_index := j, ub_have_index := True \<rparr>) ?uf)"
    using run_pieces_stream [of ub1 ds i us_all_ok USERBIN_OK ?u1] ub1 pieces lens T pushed
    by (auto simp: rec_fits_def)
  have "\<forall>it \<in> set ?its. wf_item it" using recs(2) by (auto intro!: rec_items_wf)
  from receiving_more [OF rcv this] have "receiving (item_users ?its) (item_cards ?its) ?uf" by simp
  from commit_received [OF this] obtain u2 where commit: "users_load_commit us_all_ok ?uf = (True, u2)"
    and u2: "users_idle u2" "users_map u2 = item_users ?its" "cards_map u2 = item_cards ?its"
    by (metis prod.collapse)
  let ?ub2 = "?ubf\<lparr> ub_received := n, ub_last_index := j, ub_have_index := True, ub_active := False, ub_rec := [] \<rparr>"
  have "length (filter P recs) < 2 ^ 32" for P
    using recs(3) length_filter_le [of P recs] by linarith
  then have bounds: "good_records recs < 2 ^ 32" "bad_records recs < 2 ^ 32"
    by (simp_all only: good_records_def bad_records_def)
  then have "(of_nat (good_records recs) = (0 :: u32)) = (good_records recs = 0)"
    "(of_nat (bad_records recs) = (0 :: u32)) = (bad_records recs = 0)"
    by (simp_all only: of_nat_u32_eq_0)
  then have "userbin_result_event ?ub2 = (if good_records recs = 0 then IDTI_EVENT_USERFILE_FAIL
         else if bad_records recs = 0 then IDTI_EVENT_USERFILE_SUCCESS else IDTI_EVENT_USERFILE_PARTIAL)"
    by (auto simp: userbin_result_event_def word_gt_0)
  moreover have "run_pieces us_all_ok i ds (USERBIN_OK, ub1, ?u1) = Some (USERBIN_COMPLETE, ?ub2, u2)"
    using run commit by (simp add: userbin_finish_def)
  ultimately show ?thesis using start u2 by (intro exI conjI) (assumption | simp)+
qed

section \<open>Sending the list\<close>

text \<open>A host that asks for \<open>k\<close> pieces in order, from number \<open>i\<close> on, and joins the answers.\<close>

primrec run_chunks :: "us_ok \<Rightarrow> acu_users \<Rightarrow> nat \<Rightarrow> u16 \<Rightarrow> user_bin \<Rightarrow> byte list" where
  "run_chunks ok u 0 i ub = []"
| "run_chunks ok u (Suc k) i ub =
    (case userbin_receive_chunk ok ub u i USERBIN_SEND_CHUNK of
       (None, ub') \<Rightarrow> []
     | (Some bs, ub') \<Rightarrow> bs @ run_chunks ok u k (i + 1) ub')"

lemma build_records_append:
  "build_records (xs @ ys) i = build_records xs i @ build_records ys (i + length xs)"
  by (induction xs arbitrary: i) simp_all

text \<open>What the sender remembers after \<open>m\<close> full pieces from number \<open>base\<close>.\<close>

definition sending_at :: "acu_users \<Rightarrow> u16 \<Rightarrow> nat \<Rightarrow> user_bin \<Rightarrow> bool" where
  "sending_at u base m ub \<longleftrightarrow> ub_send_active ub \<and>
    (if m = 0 then \<not> ub_send_have_base ub \<and> \<not> ub_send_have_last ub
     else ub_send_have_base ub \<and> ub_send_base_index ub = base \<and> ub_send_next_index ub = base + of_nat m
       \<and> ub_send_have_last ub \<and> Some (ub_send_last_id ub) = page_key u (min (m * 113) (length (join_rows (us_tables u)))))"

lemma send_step:
  assumes pl: "page_list u" and at: "sending_at u base m ub" and m: "m < 65536"
    "m * 113 < length (join_rows (us_tables u))"
  shows "\<exists>ub'. userbin_receive_chunk us_all_ok ub u (base + of_nat m) USERBIN_SEND_CHUNK
      = (Some (build_records (map read_row (take 113 (drop (m * 113) (join_rows (us_tables u))))) (m * 113)), ub')
    \<and> sending_at u base (Suc m) ub'"
proof -
  let ?J = "join_rows (us_tables u)" and ?p = "take 113 (drop (m * 113) (join_rows (us_tables u)))"
  have page: "users_read_after us_all_ok u (page_key u (m * 113)) 113 = Some (map read_row ?p)"
    using read_page [OF pl, of 113 "m * 113"] m(2) by simp
  have ne: "?p \<noteq> []" using m(2) by simp
  have lst: "Some (ur_user_id (fst (last (map read_row ?p)))) = page_key u (min (Suc m * 113) (length ?J))"
    using last_of_page [OF pl _ ne] m(2) by (simp add: add.commute)
  have first: "unat (base + of_nat m - base) = m" using m(1) by (simp add: unat_of_nat)
  show ?thesis
  proof (cases "m = 0")
    case True
    then show ?thesis
      using at page ne lst
      by (simp add: userbin_receive_chunk_def sending_at_def page_key_def Let_def)
  next
    case False
    have key: "page_key u (min (m * 113) (length ?J)) = page_key u (m * 113)" using m(2) by simp
    have st: "ub_send_active ub" "ub_send_have_base ub" "ub_send_base_index ub = base"
      "ub_send_next_index ub = base + of_nat m" "ub_send_have_last ub"
      "Some (ub_send_last_id ub) = page_key u (m * 113)"
      using False at key unfolding sending_at_def by auto
    have nxt: "base + of_nat m + 1 = base + of_nat (Suc m)" by simp
    have rows: "users_read_after us_all_ok u (Some (ub_send_last_id ub)) 113 = Some (map read_row ?p)"
      using page st(6) by simp
    let ?ub' = "ub\<lparr> ub_send_last_id := ur_user_id (fst (last (map read_row ?p))), ub_send_have_last := True,
        ub_send_next_index := base + of_nat m + 1 \<rparr>"
    have "userbin_receive_chunk us_all_ok ub u (base + of_nat m) USERBIN_SEND_CHUNK
        = (Some (build_records (map read_row ?p) (m * 113)), ?ub')"
      using st(1-5) rows ne first by (simp add: userbin_receive_chunk_def Let_def)
    moreover have "sending_at u base (Suc m) ?ub'"
      using st lst nxt by (simp add: sending_at_def del: of_nat_Suc)
    ultimately show ?thesis by blast
  qed
qed

lemma send_chunks:
  assumes pl: "page_list u"
  shows "sending_at u base m ub \<Longrightarrow> m + k \<le> 65536 \<Longrightarrow>
    (k \<noteq> 0 \<longrightarrow> (m + k - 1) * 113 < length (join_rows (us_tables u))) \<Longrightarrow>
    run_chunks us_all_ok u k (base + of_nat m) ub
      = build_records (map read_row (take (k * 113) (drop (m * 113) (join_rows (us_tables u))))) (m * 113)"
proof (induction k arbitrary: m ub)
  case 0
  then show ?case by simp
next
  case (Suc k)
  let ?J = "join_rows (us_tables u)"
  have m: "m < 65536" "m * 113 < length ?J" using Suc.prems by auto
  obtain ub' where chunk: "userbin_receive_chunk us_all_ok ub u (base + of_nat m) USERBIN_SEND_CHUNK
      = (Some (build_records (map read_row (take 113 (drop (m * 113) ?J))) (m * 113)), ub')"
    and at': "sending_at u base (Suc m) ub'"
    using send_step [OF pl Suc.prems(1) m] by blast
  have rest: "run_chunks us_all_ok u k (base + of_nat (Suc m)) ub'
      = build_records (map read_row (take (k * 113) (drop (Suc m * 113) ?J))) (Suc m * 113)"
    by (rule Suc.IH [OF at']) (use Suc.prems in auto)
  have "run_chunks us_all_ok u (Suc k) (base + of_nat m) ub
      = build_records (map read_row (take 113 (drop (m * 113) ?J))) (m * 113)
        @ build_records (map read_row (take (k * 113) (drop (Suc m * 113) ?J))) (Suc m * 113)"
    using chunk rest by (simp add: ac_simps)
  also have "\<dots> = build_records (map read_row (take (Suc k * 113) (drop (m * 113) ?J))) (m * 113)"
  proof (cases "k = 0")
    case True
    then show ?thesis by simp
  next
    case False
    then have "Suc m * 113 \<le> length ?J" using Suc.prems(3) by (cases k) auto
    then have "length (take 113 (drop (m * 113) ?J)) = 113" by simp
    moreover have "take (Suc k * 113) (drop (m * 113) ?J)
        = take 113 (drop (m * 113) ?J) @ take (k * 113) (drop (Suc m * 113) ?J)"
      by (simp add: take_add add.commute)
    ultimately show ?thesis by (simp add: build_records_append add.commute)
  qed
  finally show ?case .
qed

section \<open>Properties\<close>

text \<open>The items of a built record are the record and its card.\<close>

definition sent_card :: "user_record \<Rightarrow> user_card \<Rightarrow> user_card" where
  "sent_card r c = \<lparr> uc_card_id = uc_card_id c, uc_user_id = ur_user_id r,
     uc_prox_raw = rev (uc_card_id c) @ zeros 24 \<rparr>"

lemma built_record_items:
  assumes "wf_user r" "length (uc_card_id c) = 8" "unat (ur_expired_date r) < 2 ^ 24" "ur_user_id r \<noteq> zeros 8"
  shows "rec_items (build_record r c i)
    = Inl r # (if uc_card_id c = zeros 8 then [] else [Inr (sent_card r c)])"
  using assms build_record_user [OF assms(1-3)] build_record_card_slot [OF assms(1,2)]
    build_record_crc [OF assms(1,2)] all_zero_zeros [of "ur_user_id r" 8] all_zero_zeros [of "uc_card_id c" 8]
  by (simp add: rec_items_def record_card_def sent_card_def wf_user_def Let_def)

definition demo_rec :: "byte list" where
  "demo_rec = build_record (demo_user 5) (demo_card 9 5) 0"

lemma zeros_8_snoc: "zeros 8 = zeros 7 @ [0]"
  by (simp add: zeros_def replicate_append_same flip: replicate_Suc)

lemma demo_rec_facts:
  "length demo_rec = 128"
  "rec_items demo_rec = [Inl (demo_user 5), Inr (sent_card (demo_user 5) (demo_card 9 5))]"
proof -
  have wf: "wf_user (demo_user 5)" "length (uc_card_id (demo_card 9 5)) = 8" by (rule demo_wf) (simp add: demo_card_def)
  then show "length demo_rec = 128" by (simp add: demo_rec_def)
  have e: "unat (ur_expired_date (demo_user 5)) < 2 ^ 24" by (simp add: demo_user_def zero_user_def)
  have id: "ur_user_id (demo_user 5) \<noteq> zeros 8" by (simp add: demo_user_def zeros_8_snoc)
  have cd: "uc_card_id (demo_card 9 5) \<noteq> zeros 8" by (simp add: demo_card_def zeros_8_snoc)
  from built_record_items [OF wf e id] cd
  show "rec_items demo_rec = [Inl (demo_user 5), Inr (sent_card (demo_user 5) (demo_card 9 5))]"
    by (simp add: demo_rec_def)
qed

section \<open>A list sent and received again\<close>

definition user_pairs :: "load_item list \<Rightarrow> (byte list \<times> user_record) list" where
  "user_pairs its = concat (map (\<lambda>it. case it of Inl r \<Rightarrow> [(ur_user_id r, r)] | Inr c \<Rightarrow> []) its)"

definition card_pairs :: "load_item list \<Rightarrow> (byte list \<times> byte list) list" where
  "card_pairs its = concat (map (\<lambda>it. case it of Inl r \<Rightarrow> [] | Inr c \<Rightarrow> [(uc_card_id c, uc_user_id c)]) its)"

lemma item_maps_pairs:
  "item_users its = map_of (rev (user_pairs its))" "item_cards its = map_of (rev (card_pairs its))"
proof -
  have "item_users its = map_of (rev (user_pairs its)) \<and> item_cards its = map_of (rev (card_pairs its))"
  proof (induction its rule: rev_induct)
    case Nil
    then show ?case by (simp add: item_users_def item_cards_def user_pairs_def card_pairs_def)
  next
    case (snoc it its)
    then show ?case by (cases it) (simp_all add: item_maps_snoc user_pairs_def card_pairs_def del: fun_upd_apply)
  qed
  then show "item_users its = map_of (rev (user_pairs its))" "item_cards its = map_of (rev (card_pairs its))"
    by blast+
qed

definition sent_items :: "user_record \<times> user_card \<Rightarrow> load_item list" where
  "sent_items p = Inl (fst p) # (if uc_card_id (snd p) = zeros 8 then [] else [Inr (sent_card (fst p) (snd p))])"

definition sendable :: "user_record \<times> user_card \<Rightarrow> bool" where
  "sendable p \<longleftrightarrow> wf_user (fst p) \<and> length (uc_card_id (snd p)) = 8
     \<and> unat (ur_expired_date (fst p)) < 2 ^ 24 \<and> ur_user_id (fst p) \<noteq> zeros 8"

lemma build_records_split:
  "\<forall>p \<in> set ps. sendable p \<Longrightarrow>
    \<exists>recs. build_records ps i = concat recs \<and> length recs = length ps
      \<and> (\<forall>rec \<in> set recs. length rec = 128) \<and> map rec_items recs = map sent_items ps"
proof (induction ps arbitrary: i)
  case Nil
  then show ?case by simp
next
  case (Cons p ps)
  obtain recs where "build_records ps (Suc i) = concat recs" "length recs = length ps"
    "\<forall>rec \<in> set recs. length rec = 128" "map rec_items recs = map sent_items ps"
    using Cons by fastforce
  moreover have "sendable p" using Cons.prems by simp
  then have "rec_items (build_record (fst p) (snd p) (of_nat i)) = sent_items p"
    "length (build_record (fst p) (snd p) (of_nat i)) = 128"
    by (simp_all add: sendable_def built_record_items sent_items_def)
  ultimately show ?case
    by (intro exI [of _ "build_record (fst p) (snd p) (of_nat i) # recs"]) simp
qed

text \<open>A directory that a transfer can carry: ids and cards not zero, 24-bit dates, no orphan card.\<close>

definition portable :: "acu_users \<Rightarrow> bool" where
  "portable u \<longleftrightarrow> page_list u
     \<and> (\<forall>r \<in> set (ut_users (us_tables u)). unat (ur_expired_date r) < 2 ^ 24)
     \<and> (\<forall>c \<in> set (ut_cards (us_tables u)). uc_card_id c \<noteq> zeros 8
          \<and> uc_user_id c \<in> ur_user_id ` set (ut_users (us_tables u)))"

lemma find_unique:
  assumes "length (filter P xs) \<le> 1" "x \<in> set xs" "P x"
  shows "find P xs = Some x"
proof -
  have "x \<in> set (filter P xs)" using assms by simp
  then have "filter P xs = [x]" using assms(1) by (cases "filter P xs") auto
  then show ?thesis by (simp add: find_filter)
qed

text \<open>The joined row of a user, read back: the user, and the card he has or zeros.\<close>

lemma read_row_user: "wf_user r \<Longrightarrow> fst (read_row (row_of cs r)) = r"
  by (simp add: read_row_eq row_of_def Let_def)

lemma read_row_no_card:
  "find (\<lambda>c. uc_user_id c = ur_user_id r) cs = None \<Longrightarrow> uc_card_id (snd (read_row (row_of cs r))) = zeros 8"
  by (simp add: read_row_eq row_of_def Let_def)

lemma read_row_card:
  assumes "find (\<lambda>c. uc_user_id c = ur_user_id r) cs = Some c" "\<forall>c \<in> set cs. wf_card c"
  shows "c \<in> set cs \<and> uc_user_id c = ur_user_id r \<and> uc_card_id (snd (read_row (row_of cs r))) = uc_card_id c"
proof -
  have "c \<in> set cs" "uc_user_id c = ur_user_id r" using assms(1) by (auto simp: find_Some_iff)
  moreover from this have "length (uc_card_id c) = 8" using assms(2) by (auto simp: wf_card_def)
  ultimately show ?thesis using assms(1) by (simp add: read_row_eq row_of_def Let_def)
qed

lemma read_row_card_length: "length (uc_card_id (snd (read_row (row_of cs r)))) = 8"
  by (cases "find (\<lambda>c. uc_user_id c = ur_user_id r) cs") (simp_all add: read_row_eq row_of_def Let_def)

text \<open>When every card has its user and no user two cards, the rows carry exactly the cards.\<close>

lemma rows_carry_cards:
  assumes "\<forall>c \<in> set cs. wf_card c" "\<forall>r \<in> set us. length (filter (\<lambda>c. uc_user_id c = ur_user_id r) cs) \<le> 1"
    and "\<forall>c \<in> set cs. uc_card_id c \<noteq> zeros 8 \<and> (\<exists>r \<in> set us. uc_user_id c = ur_user_id r)"
  defines "held \<equiv> \<lambda>r. uc_card_id (snd (read_row (row_of cs r)))"
  shows "(\<Union>r \<in> set us. if held r = zeros 8 then {} else {(held r, ur_user_id r)}) = (\<lambda>c. (uc_card_id c, uc_user_id c)) ` set cs"
proof (intro equalityI subsetI)
  fix x assume "x \<in> (\<Union>r \<in> set us. if held r = zeros 8 then {} else {(held r, ur_user_id r)})"
  then obtain r where r: "held r \<noteq> zeros 8" "x = (held r, ur_user_id r)" by (auto split: if_splits)
  then obtain c where "find (\<lambda>c. uc_user_id c = ur_user_id r) cs = Some c"
    using read_row_no_card [of r cs] by (force simp: held_def)
  from read_row_card [OF this assms(1)] r show "x \<in> (\<lambda>c. (uc_card_id c, uc_user_id c)) ` set cs" by (force simp: held_def)
next
  fix x assume "x \<in> (\<lambda>c. (uc_card_id c, uc_user_id c)) ` set cs"
  then obtain c where c: "c \<in> set cs" "x = (uc_card_id c, uc_user_id c)" by auto
  then obtain r where r: "r \<in> set us" "uc_user_id c = ur_user_id r" "uc_card_id c \<noteq> zeros 8" using assms(3) by blast
  have "length (filter (\<lambda>c. uc_user_id c = ur_user_id r) cs) \<le> 1" using assms(2) r(1) by blast
  from read_row_card [OF find_unique [OF this c(1) r(2)] assms(1)] r c
  show "x \<in> (\<Union>r \<in> set us. if held r = zeros 8 then {} else {(held r, ur_user_id r)})" by (force simp: held_def)
qed

lemma portable_rows:
  assumes p: "portable u"
  shows "\<forall>p \<in> set (map read_row (join_rows (us_tables u))). sendable p"
    and "item_users (concat (map sent_items (map read_row (join_rows (us_tables u))))) = users_map u"
    and "item_cards (concat (map sent_items (map read_row (join_rows (us_tables u))))) = cards_map u"
proof -
  let ?us = "ut_users (us_tables u)" and ?cs = "ut_cards (us_tables u)"
  let ?row = "\<lambda>r. read_row (row_of ?cs r)"
  let ?its = "concat (map sent_items (map read_row (join_rows (us_tables u))))"
  have pl: "page_list u" and ok: "rows_ok ?us ?cs" and one: "one_card_each (us_tables u)"
    using p by (auto simp: portable_def page_list_def users_inv_def)
  have rows: "set (map read_row (join_rows (us_tables u))) = ?row ` set ?us"
    by (auto simp: join_rows_one_card [OF one])
  have fst_row: "fst (?row r) = r" if "r \<in> set ?us" for r
    using that ok by (simp add: read_row_user rows_ok_def)
  show "\<forall>p \<in> set (map read_row (join_rows (us_tables u))). sendable p"
    unfolding rows using p ok fst_row read_row_card_length
    by (auto simp: sendable_def portable_def page_list_def rows_ok_def)
  have "set (user_pairs ?its) = (\<Union>p \<in> set (map read_row (join_rows (us_tables u))). {(ur_user_id (fst p), fst p)})"
    by (auto simp: user_pairs_def sent_items_def split: if_splits)
  also have "\<dots> = (\<lambda>r. (ur_user_id r, r)) ` set ?us"
    unfolding rows using fst_row by auto
  finally have its: "set (user_pairs ?its) = (\<lambda>r. (ur_user_id r, r)) ` set ?us" .
  show "item_users ?its = users_map u"
    unfolding item_maps_pairs users_map_def
    by (rule map_of_same_set) (use its ok in \<open>auto simp: rows_ok_def distinct_map inj_on_def\<close>)
  have "set (card_pairs ?its) = (\<Union>p \<in> set (map read_row (join_rows (us_tables u))).
      if uc_card_id (snd p) = zeros 8 then {} else {(uc_card_id (snd p), ur_user_id (fst p))})"
    by (auto simp: card_pairs_def sent_items_def sent_card_def split: if_splits)
  also have "\<dots> = (\<Union>r \<in> set ?us. if uc_card_id (snd (?row r)) = zeros 8 then {} else {(uc_card_id (snd (?row r)), ur_user_id r)})"
    unfolding rows using fst_row by auto
  also have "\<dots> = (\<lambda>c. (uc_card_id c, uc_user_id c)) ` set ?cs"
    using p ok one by (intro rows_carry_cards) (auto simp: rows_ok_def one_card_each_def portable_def)
  finally have cards: "set (card_pairs ?its) = (\<lambda>c. (uc_card_id c, uc_user_id c)) ` set ?cs" .
  show "item_cards ?its = cards_map u"
    unfolding item_maps_pairs cards_map_def
    by (rule map_of_same_set) (use cards ok in \<open>auto simp: rows_ok_def distinct_map inj_on_def\<close>)
qed

text \<open>
  C5. A whole list transferred on an idle directory: for every way of cutting the records into
  non-empty pieces with consecutive numbers from any first number, the last piece is answered
  COMPLETE and the directory then holds exactly the received list: the records whose check
  byte is right and whose id is not zero, with their cards.
\<close>

theorem transfer_installs_list:
  assumes idle: "users_idle u" and ub: "\<not> ub_active ub"
    and recs: "recs \<noteq> []" "\<forall>rec \<in> set recs. length rec = 128" "128 * length recs < 2 ^ 32"
    and pieces: "\<forall>d \<in> set ds. d \<noteq> []" "concat ds = concat recs"
  shows "\<exists>ub1 u1 ub2 u2.
      userbin_start us_all_ok ub u (of_nat (128 * length recs)) cnt IDTI_USERBIN_OBJ_INFO = (True, ub1, u1)
    \<and> run_pieces us_all_ok i ds (USERBIN_OK, ub1, u1) = Some (USERBIN_COMPLETE, ub2, u2)
    \<and> users_map u2 = item_users (concat (map rec_items recs))
    \<and> cards_map u2 = item_cards (concat (map rec_items recs))
    \<and> users_idle u2 \<and> \<not> ub_active ub2
    \<and> userbin_result_event ub2 = (if good_records recs = 0 then IDTI_EVENT_USERFILE_FAIL
         else if bad_records recs = 0 then IDTI_EVENT_USERFILE_SUCCESS else IDTI_EVENT_USERFILE_PARTIAL)"
  by (rule transfer_result [OF assms])

theorem transfer_installs_list_witness:
  "\<exists>ub1 u1 ub2 u2.
      userbin_start us_all_ok userbin_create demo_users 128 1 IDTI_USERBIN_OBJ_INFO = (True, ub1, u1)
    \<and> run_pieces us_all_ok 7 [take 100 demo_rec, drop 100 demo_rec] (USERBIN_OK, ub1, u1)
        = Some (USERBIN_COMPLETE, ub2, u2)
    \<and> users_map u2 = [ur_user_id (demo_user 5) \<mapsto> demo_user 5]
    \<and> userbin_result_event ub2 = IDTI_EVENT_USERFILE_SUCCESS"
proof -
  have "\<not> ub_active userbin_create" by (simp add: userbin_create_def)
  moreover have "\<forall>d \<in> set [take 100 demo_rec, drop 100 demo_rec]. d \<noteq> []"
    using demo_rec_facts(1) by auto
  moreover have "of_nat (128 * length [demo_rec]) = (128 :: u32)" by simp
  moreover have "item_users (concat (map rec_items [demo_rec])) = [ur_user_id (demo_user 5) \<mapsto> demo_user 5]"
    by (simp add: demo_rec_facts item_users_def)
  moreover have "good_records [demo_rec] = 1" "bad_records [demo_rec] = 0"
    by (simp_all add: good_records_def bad_records_def demo_rec_facts)
  ultimately show ?thesis
    using transfer_installs_list [OF demo_users_idle, of userbin_create "[demo_rec]"
        "[take 100 demo_rec, drop 100 demo_rec]" 1 7] demo_rec_facts(1)
    by auto
qed

text \<open>
  One changed byte anywhere in the checked part of a stored record (User Info to the
  constant, offsets 8 to 126) or in the check byte itself makes the record be dropped.
\<close>

theorem record_corruption_detected:
  assumes "record_crc_ok rec" "128 \<le> length rec" "8 \<le> j" "j \<le> 127" "b \<noteq> rec ! j"
  shows "\<not> record_crc_ok (rec[j := b]) \<and> store_record ok u (rec[j := b]) = (False, u)"
proof -
  have "\<not> record_crc_ok (rec[j := b])"
  proof (cases "j = 127")
    case True
    then have "slice 8 119 (rec[j := b]) = slice 8 119 rec"
      by (simp add: slice_def drop_update_swap take_update_cancel)
    then show ?thesis using assms True by (simp add: record_crc_ok_def)
  next
    case False
    have "slice 8 119 (rec[j := b]) = (slice 8 119 rec)[j - 8 := b]"
      using assms by (simp add: slice_def drop_update_swap take_update_swap)
    moreover have "xor_bytes ((slice 8 119 rec)[j - 8 := b]) \<noteq> xor_bytes (slice 8 119 rec)"
      by (rule xor_bytes_detects) (use assms False in \<open>auto simp: nth_slice\<close>)
    ultimately show ?thesis using assms False by (simp add: record_crc_ok_def)
  qed
  then show ?thesis by (simp add: store_record_def)
qed

theorem record_corruption_detected_witness: "\<not> record_crc_ok (demo_rec[8 := 0xFF])"
proof -
  have wf: "wf_user (demo_user 5)" "length (uc_card_id (demo_card 9 5)) = 8" by (rule demo_wf) (simp add: demo_card_def)
  have "demo_rec ! 8 = 0"
    by (simp add: demo_rec_def build_record_def record_body_def userbin_build_user_info_def demo_user_def nth_append)
  then show ?thesis
    using record_corruption_detected [of demo_rec 8 "0xFF" us_all_ok demo_users]
      build_record_crc [OF wf] demo_rec_facts(1) by (simp add: demo_rec_def)
qed

text \<open>
  When every record of a transfer has a wrong check byte, the transfer is still completed
  and committed: the directory is replaced by an empty one and no card finds a user any more
  (the host gets the event "all failed").
\<close>

theorem corrupt_transfer_empties_list:
  assumes idle: "users_idle u" and ub: "\<not> ub_active ub"
    and recs: "recs \<noteq> []" "\<forall>rec \<in> set recs. length rec = 128" "128 * length recs < 2 ^ 32"
    and pieces: "\<forall>d \<in> set ds. d \<noteq> []" "concat ds = concat recs"
    and bad: "\<forall>rec \<in> set recs. \<not> record_crc_ok rec"
  shows "\<exists>ub1 u1 ub2 u2.
      userbin_start us_all_ok ub u (of_nat (128 * length recs)) cnt IDTI_USERBIN_OBJ_INFO = (True, ub1, u1)
    \<and> run_pieces us_all_ok i ds (USERBIN_OK, ub1, u1) = Some (USERBIN_COMPLETE, ub2, u2)
    \<and> users_map u2 = Map.empty \<and> (\<forall>c. users_lookup_by_card us_all_ok u2 c = Not_found)
    \<and> userbin_result_event ub2 = IDTI_EVENT_USERFILE_FAIL"
proof -
  have none: "\<forall>rec \<in> set recs. rec_items rec = []" using bad by (simp add: rec_items_def)
  then have "concat (map rec_items recs) = []" by simp
  then have empty: "item_users (concat (map rec_items recs)) = Map.empty" by (simp only: item_users_def foldl.simps)
  have zero: "good_records recs = 0" using none by (simp add: good_records_def filter_empty_conv)
  have lookup: "users_lookup_by_card us_all_ok u2 c = Not_found"
    if "users_idle u2" "users_map u2 = Map.empty" for u2 c
    using that by (simp add: users_idle_def lookup_by_card_map opt_lookup_def split: Option.bind_splits)
  obtain ub1 u1 ub2 u2 where
    "userbin_start us_all_ok ub u (of_nat (128 * length recs)) cnt IDTI_USERBIN_OBJ_INFO = (True, ub1, u1)"
    "run_pieces us_all_ok i ds (USERBIN_OK, ub1, u1) = Some (USERBIN_COMPLETE, ub2, u2)"
    "users_map u2 = Map.empty" "users_idle u2" "userbin_result_event ub2 = IDTI_EVENT_USERFILE_FAIL"
    using transfer_result [OF idle ub recs pieces, of cnt i] unfolding empty zero if_P [OF refl] by blast
  then show ?thesis using lookup by (intro exI conjI) auto
qed

theorem corrupt_transfer_empties_list_witness:
  "users_map demo_users (ur_user_id (demo_user 2)) = Some (demo_user 2)
   \<and> (\<exists>ub1 u1 ub2 u2.
      userbin_start us_all_ok userbin_create demo_users 128 1 IDTI_USERBIN_OBJ_INFO = (True, ub1, u1)
    \<and> run_pieces us_all_ok 0 [zeros 127 @ [1]] (USERBIN_OK, ub1, u1) = Some (USERBIN_COMPLETE, ub2, u2)
    \<and> users_map u2 = Map.empty)"
proof -
  let ?rec = "zeros 127 @ [1 :: byte]"
  have bad: "\<not> record_crc_ok ?rec" by (simp add: record_crc_ok_def slice_def nth_append)
  have "\<not> ub_active userbin_create" by (simp add: userbin_create_def)
  moreover have "users_map demo_users (ur_user_id (demo_user 2)) = Some (demo_user 2)"
    by (simp add: users_map_def) (simp add: demo_users_def demo_user_def)
  ultimately show ?thesis
    using corrupt_transfer_empties_list [OF demo_users_idle, of userbin_create "[?rec]" "[?rec]" 1 0] bad
    by auto
qed

text \<open>
  Repetitions: a piece that was accepted and is not the last may be repeated (even with
  other data) and is answered OK without any change, a piece out of order is refused without
  any change; but once the last piece has completed the transfer, its repetition is refused.
\<close>

theorem repeated_pieces:
  assumes "userbin_continue ok ub u i d = Some (st, ub1, u1)"
  shows "(st = USERBIN_OK \<longrightarrow> userbin_continue ok' ub1 u1 i d' = Some (USERBIN_OK, ub1, u1)
          \<and> (j \<noteq> i \<and> j \<noteq> i + 1 \<longrightarrow> userbin_continue ok' ub1 u1 j d' = Some (USERBIN_FAILED, ub1, u1)))
    \<and> (st = USERBIN_COMPLETE \<longrightarrow> userbin_continue ok' ub1 u1 i d' = Some (USERBIN_FAILED, ub1, u1))
    \<and> (st = USERBIN_FAILED \<longrightarrow> ub1 = ub \<and> u1 = u)"
proof (cases "ub_active ub \<and> \<not> (ub_have_index ub \<and> i = ub_last_index ub)
    \<and> \<not> (ub_have_index ub \<and> i \<noteq> ub_last_index ub + 1)
    \<and> \<not> unat (ub_received ub) + length d > unat (ub_total_size ub)")
  case False
  then show ?thesis using assms by (auto simp: userbin_continue_def split: if_splits)
next
  case True
  then obtain ub2 u2 where c: "consume_bytes ok (ub, u) d = Some (ub2, u2)"
    and r: "(if ub_total_size ub2 \<le> ub_received ub2 + of_nat (length d)
        then Some (userbin_finish ok (ub2\<lparr> ub_received := ub_received ub2 + of_nat (length d),
                            ub_last_index := i, ub_have_index := True \<rparr>) u2)
        else Some (USERBIN_OK, ub2\<lparr> ub_received := ub_received ub2 + of_nat (length d),
                            ub_last_index := i, ub_have_index := True \<rparr>, u2)) = Some (st, ub1, u1)"
    using assms by (cases "consume_bytes ok (ub, u) d") (auto simp: userbin_continue_def Let_def)
  have act: "ub_active ub2" using consume_active [OF c] True by simp
  let ?ub3 = "ub2\<lparr> ub_received := ub_received ub2 + of_nat (length d), ub_last_index := i, ub_have_index := True \<rparr>"
  show ?thesis
  proof (cases "ub_total_size ub2 \<le> ub_received ub2 + of_nat (length d)")
    case True
    then have "userbin_finish ok ?ub3 u2 = (st, ub1, u1)" using r by simp
    then have "st = USERBIN_COMPLETE" "\<not> ub_active ub1"
      by (auto simp: userbin_finish_def Let_def split: prod.splits if_splits)
    then show ?thesis by (simp add: userbin_continue_def)
  next
    case False
    then have "st = USERBIN_OK" "ub1 = ?ub3" using r by auto
    then show ?thesis using act by (simp add: userbin_continue_def)
  qed
qed

theorem repeated_pieces_witness:
  "userbin_continue us_all_ok userbin_create demo_users 3 [1, 2] = Some (USERBIN_FAILED, userbin_create, demo_users)"
proof -
  have "userbin_continue us_all_ok userbin_create demo_users 3 [1, 2]
      = Some (USERBIN_FAILED, fst (userbin_create, demo_users), snd (userbin_create, demo_users))"
    by (simp add: userbin_continue_def userbin_create_def)
  from repeated_pieces [OF this, of us_all_ok "[]" 0] this show ?thesis by simp
qed

lemma sent_list:
  assumes src: "portable u" "ut_users (us_tables u) \<noteq> []" "length (ut_users (us_tables u)) \<le> 65536 * 113"
    and k: "k = (length (ut_users (us_tables u)) + 112) div 113"
    and sent: "userbin_receive_start us_all_ok ub u IDTI_USERBIN_OBJ_INFO = (Some (sz, cnt), ub1)"
  shows "run_chunks us_all_ok u k i ub1 = build_records (map read_row (join_rows (us_tables u))) 0"
    and "sz = of_nat (128 * length (ut_users (us_tables u)))"
    and "length (join_rows (us_tables u)) = length (ut_users (us_tables u))"
proof -
  let ?J = "join_rows (us_tables u)" and ?n = "length (ut_users (us_tables u))"
  have pl: "page_list u" and inv: "users_inv u" and one: "one_card_each (us_tables u)"
    using src(1) by (auto simp: portable_def page_list_def)
  show J: "length ?J = ?n" by (simp add: join_rows_one_card [OF one])
  have cnt_eq: "users_count us_all_ok u = int ?n"
    using main_step [OF inv, of St_count] by (simp add: users_count_def main_stmts_def)
  have started: "userbin_receive_start us_all_ok ub u IDTI_USERBIN_OBJ_INFO
      = (Some (word_of_int (int (128 * ?n)), word_of_int (int ?n)),
         ub\<lparr> ub_send_active := True, ub_send_have_base := False, ub_send_next_index := 0,
             ub_send_have_last := False, ub_send_last_id := zeros 8 \<rparr>)"
    by (simp add: userbin_receive_start_def cnt_eq mult.commute)
  then have at: "sending_at u i 0 ub1" using sent by (auto simp: sending_at_def)
  show "sz = of_nat (128 * ?n)" using sent started by (simp only: of_int_of_nat_eq prod.inject option.inject)
  have "0 < ?n" using src(2) by (rule length_greater_0_conv [THEN iffD2])
  moreover have "113 * k \<le> ?n + 112" "?n + 112 < 113 * k + 113"
    unfolding k using div_mult_mod_eq [of "?n + 112" 113] mod_less_divisor [of 113 "?n + 112"] by linarith+
  ultimately have "0 < k" "k \<le> 65536" "(k - 1) * 113 < ?n" "?n \<le> k * 113" using src(3) by linarith+
  then show "run_chunks us_all_ok u k i ub1 = build_records (map read_row ?J) 0"
    using send_chunks [OF pl at, of k] J by simp
qed

lemma build_records_empty: "build_records ps i = [] \<longleftrightarrow> ps = []"
  by (cases ps) (simp_all add: build_record_def put32_def)



end
