(* ===== verification/User_Command.thy ===== *)
theory User_Command
  imports User_Binary
begin

text \<open>
  The commands for a single user (\<open>acud/usercmd.c\<close>): send, delete and receive. What a frame
  carries is told by its length, not by its object. The properties: what is sent is found by
  its card and comes back when asked for; and two consequences of the code as it is, an old
  card that stays valid and a restriction stored as a name.
\<close>

abbreviation (input) IDTI_USERDATA_OFF_NAME :: nat where "IDTI_USERDATA_OFF_NAME \<equiv> 32"
abbreviation (input) IDTI_USERDATA_OFF_CARD :: nat where "IDTI_USERDATA_OFF_CARD \<equiv> 48"
abbreviation (input) IDTI_USERDATA_LEN_CARD :: nat where "IDTI_USERDATA_LEN_CARD \<equiv> 32"
abbreviation (input) IDTI_USERDATA_OFF_RESTRICT :: nat where "IDTI_USERDATA_OFF_RESTRICT \<equiv> 80"
abbreviation (input) IDTI_USERDATA_OFF_GROUP :: nat where "IDTI_USERDATA_OFF_GROUP \<equiv> 96"

datatype usercmd_status = USERCMD_OK | USERCMD_FAIL

definition usercmd_is_user_object :: "byte \<Rightarrow> bool" where
  "usercmd_is_user_object obj =
    (obj \<in> {IDTI_OBJ_USER_ALL, IDTI_OBJ_USER_INFO, IDTI_OBJ_USER_CARD, IDTI_OBJ_USER_FINGER,
       IDTI_OBJ_USER_RESTRICT, IDTI_OBJ_USER_DATA, IDTI_OBJ_USER_DATA_FGR, IDTI_OBJ_USER_IMAGE})"

text \<open>The first 8 bytes of the Proximity Data are the card number reversed.\<close>

definition prox_to_card_id :: "byte list \<Rightarrow> byte list" where
  "prox_to_card_id prox32 = rev (take ACU_USER_CARD_LEN prox32)"

definition card_id_to_prox :: "byte list \<Rightarrow> byte list" where
  "card_id_to_prox cid = rev cid @ zeros (IDTI_USERDATA_LEN_CARD - ACU_USER_CARD_LEN)"

text \<open>The record a frame describes, and its Proximity Data when it carries any.\<close>

definition set_record :: "byte list \<Rightarrow> user_record \<times> byte list option" where
  "set_record data =
    (let r = userbin_parse_user_info data zero_user;
         named = r\<lparr> ur_lcd_name := slice IDTI_USERDATA_OFF_NAME ACU_USER_NAME_LEN data \<rparr>;
         card32 = slice IDTI_USERDATA_OFF_CARD ACU_USER_PROX_LEN data
     in if length data \<ge> IDTI_USERDATA_LEN
        then (named\<lparr> ur_restrict_type := data ! IDTI_USERDATA_OFF_RESTRICT,
                     ur_restrict_limit_type := data ! (IDTI_USERDATA_OFF_RESTRICT + 1),
                     ur_restrict_limit_count := data ! (IDTI_USERDATA_OFF_RESTRICT + 2),
                     ur_group_codes := slice IDTI_USERDATA_OFF_GROUP ACU_USER_GROUP_LEN data \<rparr>, Some card32)
        else if length data \<ge> IDTI_USERINFO_LEN + ACU_USER_NAME_LEN + IDTI_USERDATA_LEN_CARD
        then (named, Some card32)
        else if length data \<ge> IDTI_USERINFO_LEN + ACU_USER_NAME_LEN then (named, None)
        else (r, None))"

definition usercmd_set :: "us_ok \<Rightarrow> acu_users \<Rightarrow> byte \<Rightarrow> byte list \<Rightarrow> usercmd_status \<times> acu_users" where
  "usercmd_set ok u obj data =
    (if length data < IDTI_USERINFO_LEN then (USERCMD_FAIL, u)
     else
       let (r, card32) = set_record data
       in if userbin_all_zero (ur_user_id r) then (USERCMD_FAIL, u)
          else
            let (stored, u1) = users_put ok u r
            in if \<not> stored then (USERCMD_FAIL, u1)
               else case card32 of
                      None \<Rightarrow> (USERCMD_OK, u1)
                    | Some prox \<Rightarrow>
                        if userbin_all_zero (take ACU_USER_CARD_LEN prox) then (USERCMD_OK, u1)
                        else
                          let (stored2, u2) = users_put_card ok u1
                            \<lparr> uc_card_id = prox_to_card_id prox, uc_user_id = ur_user_id r, uc_prox_raw = prox \<rparr>
                          in (if stored2 then USERCMD_OK else USERCMD_FAIL, u2))"

definition usercmd_delete :: "us_ok \<Rightarrow> acu_users \<Rightarrow> byte list \<Rightarrow> usercmd_status \<times> acu_users" where
  "usercmd_delete ok u data =
    (if length data < ACU_USER_ID_LEN then (USERCMD_FAIL, u)
     else
       let (deleted, u1) = users_delete ok u (take ACU_USER_ID_LEN data)
       in (if deleted then USERCMD_OK else USERCMD_FAIL, u1))"

text \<open>The second component is \<open>out[0 .. *out_len)\<close>.\<close>

definition usercmd_get :: "us_ok \<Rightarrow> acu_users \<Rightarrow> byte \<Rightarrow> byte list \<Rightarrow> usercmd_status \<times> byte list" where
  "usercmd_get ok u obj data =
    (if length data < ACU_USER_ID_LEN then (USERCMD_FAIL, [])
     else case users_lookup_by_id ok u (take ACU_USER_ID_LEN data) of
            Lookup_error \<Rightarrow> (USERCMD_FAIL, [])
          | Not_found \<Rightarrow> (USERCMD_FAIL, [])
          | Found r \<Rightarrow>
              let info = userbin_build_user_info r
              in if obj = IDTI_OBJ_USER_INFO then (USERCMD_OK, info @ ur_lcd_name r)
                 else
                   let prox = (case users_lookup_card_by_user ok u (ur_user_id r) of
                                 Found c \<Rightarrow> card_id_to_prox (uc_card_id c)
                               | _ \<Rightarrow> zeros IDTI_USERDATA_LEN_CARD)
                   in (USERCMD_OK, info @ ur_lcd_name r @ prox
                        @ [ur_restrict_type r, ur_restrict_limit_type r, ur_restrict_limit_count r] @ zeros 13
                        @ ur_group_codes r))"

section \<open>Facts\<close>

text \<open>A UserData frame of 112 bytes for a record and a card number.\<close>

definition user_data_frame :: "user_record \<Rightarrow> byte list \<Rightarrow> byte list" where
  "user_data_frame r cid = userbin_build_user_info r @ ur_lcd_name r @ card_id_to_prox cid
     @ [ur_restrict_type r, ur_restrict_limit_type r, ur_restrict_limit_count r] @ zeros 13 @ ur_group_codes r"

lemma length_user_data_frame [simp]:
  "wf_user r \<Longrightarrow> length cid = 8 \<Longrightarrow> length (user_data_frame r cid) = 112"
  by (simp add: user_data_frame_def wf_user_def card_id_to_prox_def)

lemma set_record_frame:
  assumes "wf_user r" "length cid = 8" "unat (ur_expired_date r) < 2 ^ 24"
  shows "set_record (user_data_frame r cid) = (r, Some (card_id_to_prox cid))"
proof -
  let ?f = "user_data_frame r cid"
  have lens: "length (ur_user_id r) = 8" "length (ur_lcd_name r) = 16" "length (ur_group_codes r) = 16"
    "length (card_id_to_prox cid) = 32"
    using assms by (simp_all add: wf_user_def card_id_to_prox_def)
  obtain ys where info: "?f = userbin_build_user_info r @ ys"
    by (simp add: user_data_frame_def)
  have "slice 32 16 ?f = ur_lcd_name r" "slice 48 32 ?f = card_id_to_prox cid" "slice 96 16 ?f = ur_group_codes r"
    "?f ! 80 = ur_restrict_type r" "?f ! 81 = ur_restrict_limit_type r" "?f ! 82 = ur_restrict_limit_count r"
    using lens by (simp_all add: user_data_frame_def slice_def nth_append)
  moreover have "userbin_parse_user_info ?f zero_user = r\<lparr> ur_lcd_name := zeros 16, ur_restrict_type := 0,
      ur_restrict_limit_type := 0, ur_restrict_limit_count := 0, ur_group_codes := zeros 16 \<rparr>"
    unfolding info parse_build_user_info [OF lens(1) assms(3)] by (simp add: zero_user_def)
  moreover have "112 \<le> length ?f" using assms by simp
  ultimately show ?thesis by (simp add: set_record_def Let_def)
qed

definition frame_card :: "user_record \<Rightarrow> byte list \<Rightarrow> user_card" where
  "frame_card r cid = \<lparr> uc_card_id = cid, uc_user_id = ur_user_id r, uc_prox_raw = card_id_to_prox cid \<rparr>"

lemma frame_card_wf: "wf_user r \<Longrightarrow> length cid = 8 \<Longrightarrow> wf_card (frame_card r cid)"
  by (simp add: frame_card_def wf_card_def wf_user_def card_id_to_prox_def)

lemma set_frame:
  assumes inv: "users_inv u" and r: "wf_user r" "length cid = 8" "unat (ur_expired_date r) < 2 ^ 24"
    and nz: "ur_user_id r \<noteq> zeros 8" "cid \<noteq> zeros 8"
  shows "usercmd_set us_all_ok u obj (user_data_frame r cid)
    = (USERCMD_OK, dir_put_card (dir_put u r) (frame_card r cid))"
proof -
  have put: "users_put us_all_ok u r = (True, dir_put u r)"
    using main_step [OF inv] by (simp add: users_put_def dir_put_def main_stmts_def)
  have inv1: "users_inv (dir_put u r)" using put_maps [OF inv r(1)] by (simp add: dir_put_def)
  have put2: "users_put_card us_all_ok (dir_put u r) c = (True, dir_put_card (dir_put u r) c)" for c
    using main_step [OF inv1] by (simp add: users_put_card_def dir_put_card_def main_stmts_def)
  have "prox_to_card_id (card_id_to_prox cid) = cid" "take 8 (card_id_to_prox cid) = rev cid"
    using r(2) by (simp_all add: prox_to_card_id_def card_id_to_prox_def)
  moreover have "\<not> userbin_all_zero (ur_user_id r)" "\<not> userbin_all_zero (rev cid)"
    using nz r all_zero_zeros [of "ur_user_id r" 8] all_zero_zeros [of cid 8]
    by (auto simp: wf_user_def userbin_all_zero_def)
  ultimately show ?thesis
    using r put put2 by (simp add: usercmd_set_def set_record_frame [OF r] frame_card_def Let_def)
qed



text \<open>
  Sending a user again with a different card adds that card; the card the user had before
  still finds the user.
\<close>

theorem old_card_stays_valid:
  assumes inv: "users_inv u" and r: "wf_user r" "length cid = 8" "unat (ur_expired_date r) < 2 ^ 24"
    and nz: "ur_user_id r \<noteq> zeros 8" "cid \<noteq> zeros 8"
    and old: "cards_map u old = Some (ur_user_id r)" "old \<noteq> cid"
  shows "users_lookup_by_card us_all_ok (snd (usercmd_set us_all_ok u obj (user_data_frame r cid))) old = Found r"
proof -
  let ?u1 = "dir_put u r" and ?c = "frame_card r cid"
  have one: "users_inv ?u1" "users_map ?u1 = (users_map u)(ur_user_id r \<mapsto> r)" "cards_map ?u1 = cards_map u"
    using dir.put [OF inv r(1)] by auto
  have c: "wf_card ?c" by (rule frame_card_wf [OF r(1,2)])
  have two: "users_inv (dir_put_card ?u1 ?c)" "users_map (dir_put_card ?u1 ?c) = users_map ?u1"
    "cards_map (dir_put_card ?u1 ?c) = (cards_map ?u1)(uc_card_id ?c \<mapsto> uc_user_id ?c)"
    using dir.put_card [OF one(1) c] by auto
  have "uc_card_id ?c = cid" by (simp add: frame_card_def)
  then show ?thesis
    using one two old by (simp add: set_frame [OF inv r nz] dir.by_card opt_lookup_def)
qed

theorem old_card_stays_valid_witness:
  "users_lookup_by_card us_all_ok (snd (usercmd_set us_all_ok demo_users 0x21 (user_data_frame (demo_user 2) (zeros 7 @ [7]))))
      (zeros 7 @ [9]) = Found (demo_user 2)"
proof -
  have "unat (ur_expired_date (demo_user 2)) < 2 ^ 24" "ur_user_id (demo_user 2) \<noteq> zeros 8" "zeros 7 @ [7] \<noteq> zeros 8"
    "cards_map demo_users (zeros 7 @ [9]) = Some (ur_user_id (demo_user 2))" "zeros 7 @ [9] \<noteq> zeros 7 @ [7 :: byte]"
    by (simp_all add: demo_user_simps zeros_8_snoc cards_map_def)
  from old_card_stays_valid [OF demo_users_inv demo_wf(1) _ this, of "0x21"] show ?thesis by simp
qed

text \<open>
  A frame of User Info and Restriction (object 0x20, 32 + 16 bytes) has the length of one
  of User Info and name: its restriction bytes are stored as the user's name and the stored
  restriction is cleared.
\<close>

theorem restriction_stored_as_name:
  assumes inv: "users_inv u" and r: "wf_user r" "unat (ur_expired_date r) < 2 ^ 24" "ur_user_id r \<noteq> zeros 8"
    and restrict: "length restrict = 16"
  shows "\<exists>r'. users_map (snd (usercmd_set us_all_ok u IDTI_OBJ_USER_RESTRICT (userbin_build_user_info r @ restrict)))
        (ur_user_id r) = Some r'
    \<and> ur_lcd_name r' = restrict \<and> ur_restrict_type r' = 0 \<and> ur_restrict_limit_type r' = 0
    \<and> ur_restrict_limit_count r' = 0 \<and> ur_group_codes r' = zeros 16"
proof -
  let ?f = "userbin_build_user_info r @ restrict"
  let ?r' = "r\<lparr> ur_lcd_name := restrict, ur_restrict_type := 0, ur_restrict_limit_type := 0,
      ur_restrict_limit_count := 0, ur_group_codes := zeros 16 \<rparr>"
  have id: "length (ur_user_id r) = 8" using r(1) by (simp add: wf_user_def)
  have "set_record ?f = (?r', None)"
    unfolding set_record_def parse_build_user_info [OF id r(2)]
    using id restrict by (simp add: zero_user_def slice_def)
  moreover have "wf_user ?r'" using r(1) restrict by (simp add: wf_user_def)
  moreover have "\<not> userbin_all_zero (ur_user_id r)" using r(3) all_zero_zeros [OF id] by simp
  moreover have "users_put us_all_ok u ?r' = (True, dir_put u ?r')"
    using main_step [OF inv] by (simp add: users_put_def dir_put_def main_stmts_def)
  ultimately have set: "usercmd_set us_all_ok u IDTI_OBJ_USER_RESTRICT ?f = (USERCMD_OK, dir_put u ?r')"
    using id restrict by (simp add: usercmd_set_def)
  have "users_map (dir_put u ?r') (ur_user_id r) = Some ?r'"
    using dir.put [OF inv \<open>wf_user ?r'\<close>] by simp
  then show ?thesis unfolding set by simp
qed

theorem restriction_stored_as_name_witness:
  "\<exists>r'. users_map (snd (usercmd_set us_all_ok demo_users 0x20
        (userbin_build_user_info (demo_user 2) @ [3] @ zeros 15))) (zeros 7 @ [2]) = Some r'
    \<and> ur_lcd_name r' = [3] @ zeros 15 \<and> ur_restrict_type r' = 0"
proof -
  have "unat (ur_expired_date (demo_user 2)) < 2 ^ 24" "ur_user_id (demo_user 2) \<noteq> zeros 8"
    "length ([3] @ zeros 15) = 16" and id: "ur_user_id (demo_user 2) = zeros 7 @ [2]"
    by (simp_all add: demo_user_simps zeros_8_snoc)
  from restriction_stored_as_name [OF demo_users_inv demo_wf(1) this(1-3)] show ?thesis
    unfolding id by blast
qed

end
