(* ===== verification/Net_State.thy ===== *)
theory Net_State
  imports Protocol Event_Loop Event_Store User_Command Access
begin

text \<open>
  The network server of \<open>acud/net.c\<close>, first part: \<open>struct AcuNet\<close> with the objects it points
  to, the kernel's side of the connection, the send path (\<open>net_queue_send\<close>,
  \<open>net_flush_send\<close>, \<open>net_drop_client\<close>), start and stop, the setters, and the events the
  daemon reports (\<open>net_push_event\<close>, \<open>net_push_system_event\<close>, forced opening). The lemmas
  say that what reaches the wire is exactly what was queued, in order, and that the send buffer
  never overflows. Log lines are not modelled.
\<close>

abbreviation (input) NET_RECV_BUF_CAP :: nat where "NET_RECV_BUF_CAP \<equiv> 65536"
abbreviation (input) NET_EVENT_BATCH_DEFAULT :: int where "NET_EVENT_BATCH_DEFAULT \<equiv> 200"
abbreviation (input) NET_EVENT_BATCH_MAX :: int where "NET_EVENT_BATCH_MAX \<equiv> 500"
abbreviation (input) NET_EVENT_DATA_CAP :: nat where "NET_EVENT_DATA_CAP \<equiv> 18000"
abbreviation (input) NET_PAYLOAD_CAP :: nat where "NET_PAYLOAD_CAP \<equiv> 18234"
abbreviation (input) NET_RESP_BUF_CAP :: nat where "NET_RESP_BUF_CAP \<equiv> 18362"
abbreviation (input) NET_SEND_BUF_CAP :: nat where "NET_SEND_BUF_CAP \<equiv> 36724"

abbreviation (input) IDTI_DEVICE_CATEGORY_DEFAULT :: int where "IDTI_DEVICE_CATEGORY_DEFAULT \<equiv> 3"
abbreviation (input) IDTI_DEVICE_TYPE_DEFAULT :: int where "IDTI_DEVICE_TYPE_DEFAULT \<equiv> 33"

section \<open>State\<close>

record module_layout =
  ml_module_count :: int
  ml_readers :: int
  ml_inputs :: int
  ml_outputs :: int
  ml_alarm_fire_inputs :: int
  ml_module_type :: int
  ml_install_type :: int

text \<open>The callbacks registered with the loop: the two of \<open>net.c\<close>, and those of other files.\<close>

datatype net_callback = Cb_listen_ready | Cb_client_ready | Cb_elsewhere nat

text \<open>
  One \<open>send()\<close> call of the kernel: it takes up to \<open>k\<close> of the bytes offered, or returns -1
  with \<open>EAGAIN\<close>, \<open>EWOULDBLOCK\<close> or \<open>EINTR\<close>, or with any other error.
\<close>

datatype send_outcome = Takes nat | Would_block | Send_error

text \<open>The calls out of \<open>net.c\<close> into handlers that \<open>main.c\<close> registers.\<close>

datatype net_call = Call_force_open bool | Call_setting_changed byte

text \<open>
  \<open>nt_send_buf\<close> is \<open>send_buf[0 .. send_len)\<close>; \<open>nt_recv_buf\<close> is the whole receive buffer of
  65536 bytes, \<open>nt_recv_len\<close> the number of valid ones. \<open>nt_users\<close> is the directory behind
  both \<open>net->users\<close> (absent when \<open>nt_users_set\<close> is false) and the transfer's own pointer.
  \<open>kn_\<close> fields are the kernel's: bytes taken on the present connection, outcomes of the coming
  \<open>send\<close> calls, the real-time clock, closed descriptors; \<open>kn_calls\<close> lists the handler calls.
\<close>

record acu_net =
  nt_listen_fd :: int
  nt_client_fd :: int
  nt_recv_buf :: "byte list"
  nt_recv_len :: nat
  nt_send_buf :: "byte list"
  nt_send_off :: nat
  nt_door_status :: int
  nt_events :: "acu_events option"
  nt_event_batch :: int
  nt_last_batch_first_seq :: nat
  nt_userbin :: "user_bin option"
  nt_users_set :: bool
  nt_users :: acu_users
  nt_force_open :: bool
  nt_on_force_open :: bool
  nt_settings_db :: "settings_db option"
  nt_on_setting_changed :: bool
  nt_loop :: "net_callback acu_loop"
  nt_inactivity_seconds :: int
  nt_last_activity :: int
  nt_device_category :: int
  nt_device_type :: int
  nt_time_sync_enabled :: bool
  nt_layout :: module_layout
  kn_wire :: "byte list"
  kn_sends :: "send_outcome list"
  kn_clock :: int
  kn_closed :: "int list"
  kn_calls :: "net_call list"

text \<open>
  What an operation reads from outside: the outcomes of the SQLite calls, the time zone
  conversions (\<open>mktime\<close> returns -1 on failure), whether \<open>clock_settime\<close> is permitted, and
  the monotonic clock in seconds.
\<close>

record net_env =
  ne_ev_ok :: ev_ok
  ne_us_ok :: us_ok
  ne_db_ok :: db_ok
  ne_localtime :: "int \<Rightarrow> tm"
  ne_mktime :: "tm \<Rightarrow> int"
  ne_settime_ok :: bool
  ne_monotonic :: int

section \<open>Dropping the connection\<close>

definition net_drop_client :: "net_env \<Rightarrow> acu_net \<Rightarrow> acu_net" where
  "net_drop_client env net =
    (let net1 = (case nt_userbin net of
                   None \<Rightarrow> net
                 | Some ub \<Rightarrow>
                     if userbin_in_progress ub
                     then let (ub', u') = userbin_abort (ne_us_ok env) ub (nt_users net)
                          in net\<lparr> nt_userbin := Some ub', nt_users := u' \<rparr>
                     else net);
         net2 = (if nt_client_fd net1 \<ge> 0
                 then net1\<lparr> nt_loop := loop_remove (nt_loop net1) (nt_client_fd net1),
                            kn_closed := kn_closed net1 @ [nt_client_fd net1], nt_client_fd := -1 \<rparr>
                 else net1)
     in net2\<lparr> nt_recv_len := 0, nt_send_buf := [], nt_send_off := 0 \<rparr>)"

section \<open>Sending\<close>

text \<open>
  The \<open>while\<close> loop of \<open>net_flush_send\<close> over the outcomes of the \<open>send\<close> calls; when they are
  used up the kernel's buffer is full. The boolean says whether the function goes on after the
  loop (True) or has returned.
\<close>

fun flush_loop :: "net_env \<Rightarrow> send_outcome list \<Rightarrow> acu_net \<Rightarrow> bool \<times> acu_net" where
  "flush_loop env outs net =
    (if nt_client_fd net \<ge> 0 \<and> nt_send_off net < length (nt_send_buf net)
     then case outs of
            [] \<Rightarrow> (False, net\<lparr> kn_sends := [] \<rparr>)
          | Would_block # os \<Rightarrow> (False, net\<lparr> kn_sends := os \<rparr>)
          | Send_error # os \<Rightarrow> (False, net_drop_client env (net\<lparr> kn_sends := os \<rparr>))
          | Takes k # os \<Rightarrow>
              let n = min k (length (nt_send_buf net) - nt_send_off net)
              in if n > 0
                 then flush_loop env os (net\<lparr> nt_send_off := nt_send_off net + n,
                        kn_wire := kn_wire net @ slice (nt_send_off net) n (nt_send_buf net) \<rparr>)
                 else (False, net_drop_client env (net\<lparr> kn_sends := os \<rparr>))
     else (True, net\<lparr> kn_sends := outs \<rparr>))"

declare flush_loop.simps [simp del]

definition net_flush_send :: "net_env \<Rightarrow> acu_net \<Rightarrow> acu_net" where
  "net_flush_send env net =
    (let (goes_on, net1) = flush_loop env (kn_sends net) net
     in if \<not> goes_on then net1
        else
          let net2 = (if nt_send_off net1 \<ge> length (nt_send_buf net1)
                      then net1\<lparr> nt_send_buf := [], nt_send_off := 0 \<rparr> else net1)
          in if nt_client_fd net2 \<ge> 0
             then
               let events = (if nt_send_off net2 < length (nt_send_buf net2)
                             then ACU_LOOP_READ OR ACU_LOOP_WRITE else ACU_LOOP_READ)
               in case loop_mod (nt_loop net2) (nt_client_fd net2) events of
                    None \<Rightarrow> net2
                  | Some l \<Rightarrow> net2\<lparr> nt_loop := l \<rparr>
             else net2)"

text \<open>The boolean is the return value 0 (True) or -1 (False).\<close>

definition net_queue_send :: "net_env \<Rightarrow> acu_net \<Rightarrow> byte list \<Rightarrow> bool \<times> acu_net" where
  "net_queue_send env net data =
    (if nt_client_fd net < 0 then (False, net)
     else
       let net1 = (if nt_send_off net > 0
                   then net\<lparr> nt_send_buf := drop (nt_send_off net) (nt_send_buf net), nt_send_off := 0 \<rparr>
                   else net)
       in if length (nt_send_buf net1) + length data > NET_SEND_BUF_CAP then (False, net1)
          else (True, net_flush_send env (net1\<lparr> nt_send_buf := nt_send_buf net1 @ data \<rparr>)))"

section \<open>Start and stop\<close>

text \<open>
  \<open>net_init\<close>: the three system calls that can fail, and the descriptor the first returns.
  Everything not set explicitly is zero (\<open>calloc\<close>); \<open>u\<close> stands for the directory that
  \<open>net_set_users\<close> attaches later. The loop is attached by \<open>net_attach_loop\<close>.
\<close>

definition net_init :: "int \<Rightarrow> bool \<Rightarrow> bool \<Rightarrow> acu_users \<Rightarrow> int \<Rightarrow> acu_net option" where
  "net_init sock_fd bind_ok listen_ok u clock =
    (if sock_fd < 0 \<or> \<not> bind_ok \<or> \<not> listen_ok then None
     else Some \<lparr> nt_listen_fd = sock_fd, nt_client_fd = -1, nt_recv_buf = zeros NET_RECV_BUF_CAP,
       nt_recv_len = 0, nt_send_buf = [], nt_send_off = 0,
       nt_door_status = uint IDTI_DOOR_STATUS_NONE, nt_events = None, nt_event_batch = 0,
       nt_last_batch_first_seq = 0, nt_userbin = None, nt_users_set = False, nt_users = u,
       nt_force_open = False, nt_on_force_open = False, nt_settings_db = None,
       nt_on_setting_changed = False, nt_loop = [], nt_inactivity_seconds = 0, nt_last_activity = 0,
       nt_device_category = IDTI_DEVICE_CATEGORY_DEFAULT, nt_device_type = IDTI_DEVICE_TYPE_DEFAULT,
       nt_time_sync_enabled = False,
       nt_layout = \<lparr> ml_module_count = 0, ml_readers = 0, ml_inputs = 0, ml_outputs = 0,
         ml_alarm_fire_inputs = 0, ml_module_type = 0, ml_install_type = 0 \<rparr>,
       kn_wire = [], kn_sends = [], kn_clock = clock, kn_closed = [], kn_calls = [] \<rparr>)"

text \<open>What is left after \<open>net_shutdown\<close>: the registry and the closed descriptors.\<close>

definition net_shutdown :: "acu_net \<Rightarrow> net_callback acu_loop \<times> int list" where
  "net_shutdown net =
    (let (l, cl) = (if nt_client_fd net \<ge> 0
                    then (loop_remove (nt_loop net) (nt_client_fd net), [nt_client_fd net])
                    else (nt_loop net, []))
     in (loop_remove l (nt_listen_fd net), kn_closed net @ cl @ [nt_listen_fd net]))"

section \<open>Setters\<close>

definition net_set_door_status :: "acu_net \<Rightarrow> int \<Rightarrow> acu_net" where
  "net_set_door_status net v = net\<lparr> nt_door_status := v \<rparr>"

definition net_set_userbin :: "acu_net \<Rightarrow> user_bin option \<Rightarrow> acu_net" where
  "net_set_userbin net ub = net\<lparr> nt_userbin := ub \<rparr>"

definition net_set_users :: "acu_net \<Rightarrow> acu_users option \<Rightarrow> acu_net" where
  "net_set_users net u =
    (case u of None \<Rightarrow> net\<lparr> nt_users_set := False \<rparr>
             | Some d \<Rightarrow> net\<lparr> nt_users_set := True, nt_users := d \<rparr>)"

definition net_set_setting_changed_handler :: "acu_net \<Rightarrow> bool \<Rightarrow> acu_net" where
  "net_set_setting_changed_handler net cb = net\<lparr> nt_on_setting_changed := cb \<rparr>"

definition net_set_settings_db :: "acu_net \<Rightarrow> settings_db option \<Rightarrow> acu_net" where
  "net_set_settings_db net db = net\<lparr> nt_settings_db := db \<rparr>"

definition net_force_open_state :: "acu_net \<Rightarrow> int" where
  "net_force_open_state net = (if nt_force_open net then 1 else 0)"

definition net_set_force_open_handler :: "acu_net \<Rightarrow> bool \<Rightarrow> acu_net" where
  "net_set_force_open_handler net cb = net\<lparr> nt_on_force_open := cb \<rparr>"

definition net_set_event_store :: "acu_net \<Rightarrow> acu_events option \<Rightarrow> int \<Rightarrow> acu_net" where
  "net_set_event_store net store batch_size =
    (let b = (if batch_size \<le> 0 then NET_EVENT_BATCH_DEFAULT else batch_size);
         b = (if b > NET_EVENT_BATCH_MAX then NET_EVENT_BATCH_MAX else b)
     in net\<lparr> nt_events := store, nt_event_batch := b \<rparr>)"

definition net_is_connected :: "acu_net \<Rightarrow> int" where
  "net_is_connected net = (if nt_client_fd net \<ge> 0 then 1 else 0)"

definition net_set_device_identity :: "acu_net \<Rightarrow> int \<Rightarrow> int \<Rightarrow> acu_net" where
  "net_set_device_identity net cat typ = net\<lparr> nt_device_category := cat, nt_device_type := typ \<rparr>"

definition net_set_module_layout :: "acu_net \<Rightarrow> module_layout \<Rightarrow> acu_net" where
  "net_set_module_layout net l = net\<lparr> nt_layout := l \<rparr>"

definition net_set_time_sync :: "acu_net \<Rightarrow> bool \<Rightarrow> acu_net" where
  "net_set_time_sync net enabled = net\<lparr> nt_time_sync_enabled := enabled \<rparr>"

definition net_set_inactivity_timeout :: "acu_net \<Rightarrow> int \<Rightarrow> acu_net" where
  "net_set_inactivity_timeout net seconds =
     net\<lparr> nt_inactivity_seconds := (if seconds > 0 then seconds else 0) \<rparr>"

section \<open>Reporting events\<close>

fun event_code_for_result :: "access_result \<Rightarrow> u32" where
  "event_code_for_result ACCESS_GRANTED = IDTI_EVENT_ACCESS_AUTH_BY_CARD"
| "event_code_for_result ACCESS_DENIED_DISABLED = IDTI_EVENT_ACCESS_DENIED_NOT_ENABLED"
| "event_code_for_result ACCESS_DENIED_TIMEZONE = IDTI_EVENT_ACCESS_DENIED_BY_TIME"
| "event_code_for_result _ = IDTI_EVENT_ACCESS_DENIED_BY_CARD"

definition net_event :: "acu_net \<Rightarrow> u32 \<Rightarrow> byte \<Rightarrow> byte list option \<Rightarrow> int \<Rightarrow> int \<Rightarrow> int \<Rightarrow> acu_event" where
  "net_event net code op_mode access_id door_status module_addr reader_addr =
     zero_event\<lparr> e_event_code := code, e_op_mode := op_mode, e_module_addr := word_of_int module_addr,
       e_reader_addr := word_of_int reader_addr, e_door_status := word_of_int door_status,
       e_func_code := IDTI_FUNC_NONE, e_ts := kn_clock net,
       e_id := (case access_id of None \<Rightarrow> zeros 8 | Some i \<Rightarrow> take 8 i) \<rparr>"

definition net_store_event ::
  "net_env \<Rightarrow> acu_net \<Rightarrow> u32 \<Rightarrow> byte \<Rightarrow> byte list option \<Rightarrow> int \<Rightarrow> int \<Rightarrow> int \<Rightarrow> acu_net" where
  "net_store_event env net code op_mode access_id door_status module_addr reader_addr =
    (case nt_events net of
       None \<Rightarrow> net
     | Some ev \<Rightarrow> net\<lparr> nt_events := Some (snd (events_append (ne_ev_ok env) ev
         (net_event net code op_mode access_id door_status module_addr reader_addr))) \<rparr>)"

definition net_push_event ::
  "net_env \<Rightarrow> acu_net \<Rightarrow> access_result \<Rightarrow> byte list option \<Rightarrow> int \<Rightarrow> int \<Rightarrow> int \<Rightarrow> acu_net" where
  "net_push_event env net result access_id door_status module_addr reader_addr =
    (if result = ACCESS_DENIED_DB_ERROR then net
     else net_store_event env net (event_code_for_result result) IDTI_OPMODE_CARD access_id
            door_status module_addr reader_addr)"

definition net_push_system_event :: "net_env \<Rightarrow> acu_net \<Rightarrow> u32 \<Rightarrow> int \<Rightarrow> int \<Rightarrow> acu_net" where
  "net_push_system_event env net code module_addr reader_addr =
     net_store_event env net code IDTI_OPMODE_NONE None (nt_door_status net) module_addr reader_addr"

definition net_apply_force_open :: "net_env \<Rightarrow> acu_net \<Rightarrow> bool \<Rightarrow> acu_net" where
  "net_apply_force_open env net on =
    (if nt_force_open net = on then net
     else
       let net1 = net\<lparr> nt_force_open := on \<rparr>;
           net2 = (if nt_on_force_open net1
                   then net1\<lparr> kn_calls := kn_calls net1 @ [Call_force_open on] \<rparr> else net1)
       in net_push_system_event env net2
            (if on then IDTI_EVENT_DOOR_FORCED_OPEN else IDTI_EVENT_DOOR_NORMAL)
            (uint IDTI_EVENT_ADDR_FIRST_MODULE) (uint IDTI_EVENT_ADDR_NONE))"

section \<open>What sending leaves alone\<close>

lemma drop_client_frame [frame_simps]:
  "nt_events (net_drop_client env net) = nt_events net"
  "nt_event_batch (net_drop_client env net) = nt_event_batch net"
  "nt_last_batch_first_seq (net_drop_client env net) = nt_last_batch_first_seq net"
  "nt_settings_db (net_drop_client env net) = nt_settings_db net"
  "nt_force_open (net_drop_client env net) = nt_force_open net"
  "nt_layout (net_drop_client env net) = nt_layout net"
  "nt_recv_buf (net_drop_client env net) = nt_recv_buf net"
  "nt_users_set (net_drop_client env net) = nt_users_set net"
  "nt_listen_fd (net_drop_client env net) = nt_listen_fd net"
  "kn_wire (net_drop_client env net) = kn_wire net"
  "kn_clock (net_drop_client env net) = kn_clock net"
  "kn_calls (net_drop_client env net) = kn_calls net"
  "nt_on_setting_changed (net_drop_client env net) = nt_on_setting_changed net"
  "nt_on_force_open (net_drop_client env net) = nt_on_force_open net"
  "kn_sends (net_drop_client env net) = kn_sends net"
  "nt_send_buf (net_drop_client env net) = []"
  "nt_send_off (net_drop_client env net) = 0"
  "nt_recv_len (net_drop_client env net) = 0"
  by (auto simp: net_drop_client_def Let_def split: option.splits prod.splits)

lemma drop_client_fd [simp]: "nt_client_fd (net_drop_client env net) < 0"
  by (auto simp: net_drop_client_def Let_def split: option.splits prod.splits)

lemma drop_client_fd' [simp]: "(0 \<le> nt_client_fd (net_drop_client env net)) = False"
  by (simp add: not_le)

lemma drop_client_nothing:
  "nt_client_fd net < 0 \<Longrightarrow> nt_loop (net_drop_client env net) = nt_loop net"
  by (auto simp: net_drop_client_def Let_def split: option.splits prod.splits)

lemma drop_client_loop:
  "0 \<le> nt_client_fd net \<Longrightarrow> nt_loop (net_drop_client env net) = loop_remove (nt_loop net) (nt_client_fd net)"
  by (auto simp: net_drop_client_def Let_def split: option.splits prod.splits)

text \<open>Fields that sending never touches, as one tuple.\<close>

definition not_sent_part ::
  "acu_net \<Rightarrow> (acu_events option \<times> int \<times> nat \<times> settings_db option \<times> bool \<times> module_layout)
     \<times> (byte list \<times> bool \<times> int \<times> int \<times> net_call list \<times> bool \<times> bool)" where
  "not_sent_part net =
     ((nt_events net, nt_event_batch net, nt_last_batch_first_seq net, nt_settings_db net,
       nt_force_open net, nt_layout net),
      (nt_recv_buf net, nt_users_set net, nt_listen_fd net, kn_clock net, kn_calls net,
       nt_on_setting_changed net, nt_on_force_open net))"

lemma not_sent_part_drop: "not_sent_part (net_drop_client env net) = not_sent_part net"
  by (simp add: not_sent_part_def frame_simps)

lemma not_sent_part_upd [simp]:
  "not_sent_part (net\<lparr> kn_sends := a \<rparr>) = not_sent_part net"
  "not_sent_part (net\<lparr> nt_send_off := k \<rparr>) = not_sent_part net"
  "not_sent_part (net\<lparr> nt_send_buf := b \<rparr>) = not_sent_part net"
  "not_sent_part (net\<lparr> kn_wire := w \<rparr>) = not_sent_part net"
  "not_sent_part (net\<lparr> nt_loop := l \<rparr>) = not_sent_part net"
  by (simp_all add: not_sent_part_def)

lemma not_sent_part_flush_loop: "not_sent_part (snd (flush_loop env outs net)) = not_sent_part net"
proof (induction env outs net rule: flush_loop.induct)
  case (1 env outs net)
  show ?case
    apply (subst flush_loop.simps)
    using 1 by (auto simp: Let_def not_sent_part_drop split: list.splits send_outcome.splits)
qed

lemma not_sent_part_flush: "not_sent_part (net_flush_send env net) = not_sent_part net"
  using not_sent_part_flush_loop [of env "kn_sends net" net]
  by (auto simp: net_flush_send_def Let_def split: prod.splits option.splits)

lemma not_sent_part_queue: "not_sent_part (snd (net_queue_send env net data)) = not_sent_part net"
  by (simp add: net_queue_send_def not_sent_part_flush Let_def)

lemma queue_frame [frame_simps]:
  "nt_events (snd (net_queue_send env net data)) = nt_events net"
  "nt_event_batch (snd (net_queue_send env net data)) = nt_event_batch net"
  "nt_last_batch_first_seq (snd (net_queue_send env net data)) = nt_last_batch_first_seq net"
  "nt_settings_db (snd (net_queue_send env net data)) = nt_settings_db net"
  "nt_force_open (snd (net_queue_send env net data)) = nt_force_open net"
  "nt_layout (snd (net_queue_send env net data)) = nt_layout net"
  "nt_recv_buf (snd (net_queue_send env net data)) = nt_recv_buf net"
  "nt_users_set (snd (net_queue_send env net data)) = nt_users_set net"
  "nt_listen_fd (snd (net_queue_send env net data)) = nt_listen_fd net"
  "kn_clock (snd (net_queue_send env net data)) = kn_clock net"
  "kn_calls (snd (net_queue_send env net data)) = kn_calls net"
  "nt_on_setting_changed (snd (net_queue_send env net data)) = nt_on_setting_changed net"
  "nt_on_force_open (snd (net_queue_send env net data)) = nt_on_force_open net"
  using not_sent_part_queue [of env net data] by (simp_all add: not_sent_part_def)

section \<open>The sent stream\<close>

text \<open>Bytes of the connection: those the kernel took, then those that wait in the buffer.\<close>

definition net_pending :: "acu_net \<Rightarrow> byte list" where
  "net_pending net = drop (nt_send_off net) (nt_send_buf net)"

definition net_stream :: "acu_net \<Rightarrow> byte list" where
  "net_stream net = kn_wire net @ net_pending net"

definition send_inv :: "acu_net \<Rightarrow> bool" where
  "send_inv net \<longleftrightarrow> nt_send_off net \<le> length (nt_send_buf net)
     \<and> length (nt_send_buf net) \<le> NET_SEND_BUF_CAP
     \<and> (nt_client_fd net < 0 \<longrightarrow> nt_send_buf net = [])"

lemma net_stream_upd [simp]:
  "net_stream (net\<lparr> kn_sends := a \<rparr>) = net_stream net"
  "net_stream (net\<lparr> nt_loop := l \<rparr>) = net_stream net"
  by (simp_all add: net_stream_def net_pending_def)

lemma send_inv_upd [simp]:
  "send_inv (net\<lparr> kn_sends := a \<rparr>) = send_inv net"
  "send_inv (net\<lparr> nt_loop := l \<rparr>) = send_inv net"
  by (simp_all add: send_inv_def)

lemma send_inv_drop [keeps_inv]: "send_inv (net_drop_client env net)"
  by (simp add: send_inv_def frame_simps)

lemma drop_slice: "k + n \<le> length xs \<Longrightarrow> slice k n xs @ drop (k + n) xs = drop k xs"
  by (simp add: slice_def) (metis append_take_drop_id drop_drop add.commute)

lemma net_stream_take:
  "nt_send_off net + n \<le> length (nt_send_buf net) \<Longrightarrow>
   net_stream (net\<lparr> nt_send_off := nt_send_off net + n,
     kn_wire := kn_wire net @ slice (nt_send_off net) n (nt_send_buf net) \<rparr>) = net_stream net"
  by (simp add: net_stream_def net_pending_def drop_slice)

text \<open>
  The result of sending what is there: either the connection is kept with the same stream, or
  it is dropped with a prefix of the stream on the wire.
\<close>

definition sent_from :: "byte list \<Rightarrow> int \<Rightarrow> acu_net \<Rightarrow> bool" where
  "sent_from str fd net \<longleftrightarrow> send_inv net \<and>
     (if 0 \<le> nt_client_fd net then nt_client_fd net = fd \<and> net_stream net = str
      else \<exists>rest. str = kn_wire net @ rest)"

lemma sent_from_drop:
  "net_stream net = str \<Longrightarrow> sent_from str fd (net_drop_client env net)"
  by (auto simp: sent_from_def keeps_inv frame_simps net_stream_def)

lemma flush_loop_sent:
  "send_inv net \<Longrightarrow> 0 \<le> nt_client_fd net \<Longrightarrow>
   sent_from (net_stream net) (nt_client_fd net) (snd (flush_loop env outs net))"
proof (induction env outs net rule: flush_loop.induct)
  case (1 env outs net)
  note IH = 1(1) and inv = 1(2) and fd = 1(3)
  have stay: "sent_from (net_stream net) (nt_client_fd net) (net\<lparr> kn_sends := os \<rparr>)" for os
    using inv fd by (simp add: sent_from_def)
  have dropped: "sent_from (net_stream net) (nt_client_fd net) (net_drop_client env (net\<lparr> kn_sends := os \<rparr>))" for os
    by (rule sent_from_drop) simp
  show ?case
  proof (cases "nt_send_off net < length (nt_send_buf net)")
    case False
    then show ?thesis using stay by (subst flush_loop.simps) simp
  next
    case more: True
    show ?thesis
    proof (cases outs)
      case Nil
      then show ?thesis using stay [of "[]"] more fd by (subst flush_loop.simps) simp
    next
      case (Cons out os)
      show ?thesis
      proof (cases out)
        case (Takes k)
        define n where "n = min k (length (nt_send_buf net) - nt_send_off net)"
        let ?net = "net\<lparr> nt_send_off := nt_send_off net + n,
          kn_wire := kn_wire net @ slice (nt_send_off net) n (nt_send_buf net) \<rparr>"
        have le: "nt_send_off net + n \<le> length (nt_send_buf net)" using more by (simp add: n_def)
        have inv': "send_inv ?net" using inv le by (simp add: send_inv_def)
        show ?thesis
        proof (cases "n > 0")
          case True
          with more fd Cons Takes inv' have "sent_from (net_stream ?net) (nt_client_fd ?net) (snd (flush_loop env os ?net))"
            using IH by (simp add: n_def)
          with True more fd Cons Takes show ?thesis
            using net_stream_take [OF le] by (subst flush_loop.simps) (simp add: Let_def n_def)
        next
          case False
          with more fd Cons Takes dropped show ?thesis by (subst flush_loop.simps) (simp add: Let_def n_def)
        qed
      next
        case Would_block
        with Cons more fd stay show ?thesis by (subst flush_loop.simps) simp
      next
        case Send_error
        with Cons more fd dropped show ?thesis by (subst flush_loop.simps) simp
      qed
    qed
  qed
qed

text \<open>Leaving the loop normally means that nothing is left to send; the registry is untouched.\<close>

lemma flush_loop_done:
  "flush_loop env outs net = (True, net') \<Longrightarrow> 0 \<le> nt_client_fd net' \<Longrightarrow>
   length (nt_send_buf net') \<le> nt_send_off net'"
proof (induction env outs net rule: flush_loop.induct)
  case (1 env outs net)
  from 1(2,3) show ?case
    apply (subst (asm) flush_loop.simps)
    using 1(1) by (auto simp: Let_def split: list.splits send_outcome.splits if_splits)
qed

lemma flush_loop_registry:
  "0 \<le> nt_client_fd (snd (flush_loop env outs net)) \<Longrightarrow>
   nt_loop (snd (flush_loop env outs net)) = nt_loop net"
proof (induction env outs net rule: flush_loop.induct)
  case (1 env outs net)
  from 1(2) show ?case
    apply (subst flush_loop.simps)
    apply (subst (asm) flush_loop.simps)
    using 1(1) by (auto simp: Let_def split: list.splits send_outcome.splits if_splits)
qed

lemma flush_sent:
  assumes inv: "send_inv net" and fd: "0 \<le> nt_client_fd net"
  shows "sent_from (net_stream net) (nt_client_fd net) (net_flush_send env net)"
proof -
  obtain b net1 where fl: "flush_loop env (kn_sends net) net = (b, net1)" by fastforce
  have s1: "sent_from (net_stream net) (nt_client_fd net) net1"
    using flush_loop_sent [OF inv fd, of env "kn_sends net"] by (simp add: fl)
  show ?thesis
  proof (cases "b \<and> 0 \<le> nt_client_fd net1")
    case True
    then have "length (nt_send_buf net1) \<le> nt_send_off net1" using flush_loop_done [of env "kn_sends net" net net1] fl by simp
    with True s1 show ?thesis
      by (auto simp: net_flush_send_def fl sent_from_def send_inv_def net_stream_def net_pending_def Let_def
          split: option.splits)
  next
    case False
    with s1 show ?thesis
      by (auto simp: net_flush_send_def fl sent_from_def send_inv_def)
  qed
qed

lemma queue_sent:
  assumes inv: "send_inv net" and fd: "0 \<le> nt_client_fd net"
    and q: "net_queue_send env net data = (r, net')"
  shows "if r then sent_from (net_stream net @ data) (nt_client_fd net) net'
         else sent_from (net_stream net) (nt_client_fd net) net' \<and> 0 \<le> nt_client_fd net'"
proof -
  define net1 where "net1 = (if nt_send_off net > 0
    then net\<lparr> nt_send_buf := drop (nt_send_off net) (nt_send_buf net), nt_send_off := 0 \<rparr> else net)"
  have n1: "nt_send_off net1 = 0" "nt_send_buf net1 = net_pending net" "nt_client_fd net1 = nt_client_fd net"
    "kn_wire net1 = kn_wire net"
    by (auto simp: net1_def net_pending_def)
  have inv1: "send_inv net1" and st1: "net_stream net1 = net_stream net"
    using inv fd n1 by (auto simp: send_inv_def net_stream_def net_pending_def)
  show ?thesis
  proof (cases "length (nt_send_buf net1) + length data > NET_SEND_BUF_CAP")
    case True
    then have "r = False" "net' = net1"
      using q fd by (simp_all add: net_queue_send_def net1_def [symmetric] Let_def)
    then show ?thesis using inv1 st1 n1 fd by (simp add: sent_from_def)
  next
    case False
    let ?net2 = "net1\<lparr> nt_send_buf := nt_send_buf net1 @ data \<rparr>"
    from False have r: "r" "net' = net_flush_send env ?net2"
      using q fd by (simp_all add: net_queue_send_def net1_def [symmetric] Let_def)
    have "send_inv ?net2" "0 \<le> nt_client_fd ?net2" using False fd n1 by (simp_all add: send_inv_def)
    from flush_sent [OF this, of env] r st1 n1 show ?thesis
      by (simp add: net_stream_def net_pending_def)
  qed
qed

lemma queue_closed: "nt_client_fd net < 0 \<Longrightarrow> net_queue_send env net data = (False, net)"
  by (simp add: net_queue_send_def)

text \<open>Answers queued one after the other; the first component collects those that were accepted.\<close>

primrec queue_all :: "net_env \<Rightarrow> byte list list \<Rightarrow> acu_net \<Rightarrow> byte list list \<times> acu_net" where
  "queue_all env [] net = ([], net)"
| "queue_all env (d # ds) net =
    (let (r, net1) = net_queue_send env net d; (acc, net2) = queue_all env ds net1
     in ((if r then d # acc else acc), net2))"

lemma queue_all_closed: "nt_client_fd net < 0 \<Longrightarrow> queue_all env ds net = ([], net)"
  by (induction ds) (simp_all add: queue_closed)

lemma queue_all_sent:
  "send_inv net \<Longrightarrow> 0 \<le> nt_client_fd net \<Longrightarrow> queue_all env ds net = (acc, net') \<Longrightarrow>
   sent_from (net_stream net @ concat acc) (nt_client_fd net) net'"
proof (induction ds arbitrary: net acc)
  case Nil
  then show ?case by (simp add: sent_from_def)
next
  case (Cons d ds)
  obtain r net1 where q: "net_queue_send env net d = (r, net1)" by fastforce
  obtain acc1 net2 where qa: "queue_all env ds net1 = (acc1, net2)" by fastforce
  from Cons.prems(3) q qa have res: "acc = (if r then d # acc1 else acc1)" "net' = net2" by auto
  note s = queue_sent [OF Cons.prems(1,2) q]
  show ?case
  proof (cases "0 \<le> nt_client_fd net1")
    case True
    with s have "send_inv net1" "nt_client_fd net1 = nt_client_fd net"
      "net_stream net1 = (if r then net_stream net @ d else net_stream net)"
      by (auto simp: sent_from_def split: if_splits)
    with Cons.IH [of net1 acc1] True qa res show ?thesis by auto
  next
    case False
    then have "acc1 = []" "net2 = net1" using qa queue_all_closed [of net1 env ds] by auto
    with s False res show ?thesis by (auto split: if_splits)
  qed
qed

text \<open>The registry after sending: the client is watched for reading only.\<close>

lemma flush_registry:
  assumes "0 \<le> nt_client_fd (net_flush_send env net)"
  shows "nt_loop (net_flush_send env net) = nt_loop net
    \<or> loop_mod (nt_loop net) (nt_client_fd (net_flush_send env net)) ACU_LOOP_READ = Some (nt_loop (net_flush_send env net))"
proof -
  obtain b net1 where fl: "flush_loop env (kn_sends net) net = (b, net1)" by fastforce
  have "0 \<le> nt_client_fd net1"
    using assms by (auto simp: net_flush_send_def fl Let_def split: if_splits option.splits)
  then have "nt_loop net1 = nt_loop net" "b \<Longrightarrow> length (nt_send_buf net1) \<le> nt_send_off net1"
    using flush_loop_registry [of env "kn_sends net" net] flush_loop_done [of env "kn_sends net" net net1] fl
    by auto
  then show ?thesis
    using assms by (auto simp: net_flush_send_def fl Let_def split: if_splits option.splits)
qed

definition read_watched :: "acu_net \<Rightarrow> bool" where
  "read_watched net \<longleftrightarrow> loop_inv (nt_loop net)
     \<and> loop_lookup (nt_loop net) (nt_client_fd net) = Some (ACU_LOOP_READ, Cb_client_ready)"

lemma read_watched_mod:
  assumes "loop_inv l" "loop_lookup l fd = Some (ACU_LOOP_READ, cb)" "loop_mod l fd ACU_LOOP_READ = Some l'"
  shows "loop_inv l'" "loop_lookup l' fd = Some (ACU_LOOP_READ, cb)"
  using loop_inv_mod [OF assms(1,3)] loop_lookup_mod [OF assms(1), of fd ACU_LOOP_READ] assms(2,3) by simp_all

lemma not_write_watched:
  assumes "loop_inv l" "loop_lookup l fd = Some (ACU_LOOP_READ, cb)"
  shows "fd \<notin> set (watch_set l ACU_LOOP_WRITE)"
proof
  assume "fd \<in> set (watch_set l ACU_LOOP_WRITE)"
  then obtain e where e: "e \<in> set l" "le_fd e = fd" "le_events e AND ACU_LOOP_WRITE \<noteq> 0"
    by (auto simp: watch_set_def)
  from lookup_by_set [OF loop_inv_distinct [OF assms(1)] e(1)] e(2) assms(2)
  have "le_events e = ACU_LOOP_READ" by simp
  with e(3) show False by simp
qed

lemma read_watched_flush [keeps_inv]:
  assumes "send_inv net" "0 \<le> nt_client_fd net" "read_watched net" "0 \<le> nt_client_fd (net_flush_send env net)"
  shows "read_watched (net_flush_send env net)"
proof -
  have "nt_client_fd (net_flush_send env net) = nt_client_fd net"
    using flush_sent [OF assms(1,2), of env] assms(4) by (simp add: sent_from_def)
  with flush_registry [OF assms(4)] assms(3) show ?thesis
    unfolding read_watched_def using read_watched_mod by auto
qed

lemma read_watched_queue [keeps_inv]:
  assumes "send_inv net" "0 \<le> nt_client_fd net" "read_watched net" "net_queue_send env net data = (r, net')"
    "0 \<le> nt_client_fd net'"
  shows "read_watched net'"
proof -
  define net1 where "net1 = (if nt_send_off net > 0
    then net\<lparr> nt_send_buf := drop (nt_send_off net) (nt_send_buf net), nt_send_off := 0 \<rparr> else net)"
  have n1: "nt_client_fd net1 = nt_client_fd net" "nt_loop net1 = nt_loop net" "nt_send_off net1 = 0"
    by (auto simp: net1_def)
  then have rw: "read_watched net1" using assms(3) by (simp add: read_watched_def)
  show ?thesis
  proof (cases "length (nt_send_buf net1) + length data > NET_SEND_BUF_CAP")
    case True
    then show ?thesis using assms(2,4) rw by (simp add: net_queue_send_def net1_def [symmetric] Let_def)
  next
    case False
    let ?net2 = "net1\<lparr> nt_send_buf := nt_send_buf net1 @ data \<rparr>"
    have r: "net' = net_flush_send env ?net2"
      using False assms(2,4) by (simp add: net_queue_send_def net1_def [symmetric] Let_def)
    have "send_inv ?net2" "read_watched ?net2"
      using False n1 assms(2) rw by (simp_all add: send_inv_def read_watched_def)
    with assms(2,5) n1 show ?thesis unfolding r by (intro read_watched_flush) simp_all
  qed
qed

section \<open>A connected server for the examples\<close>

definition demo_layout :: module_layout where
  "demo_layout = \<lparr> ml_module_count = 2, ml_readers = 2, ml_inputs = 6, ml_outputs = 4,
     ml_alarm_fire_inputs = 2, ml_module_type = 61, ml_install_type = 1 \<rparr>"

definition demo_tm :: tm where
  "demo_tm = \<lparr> tm_year = 126, tm_mon = 8, tm_mday = 15, tm_hour = 10, tm_min = 30, tm_sec = 0, tm_wday = 2 \<rparr>"

definition demo_env :: net_env where
  "demo_env = \<lparr> ne_ev_ok = all_ok, ne_us_ok = us_all_ok, ne_db_ok = db_all_ok, ne_localtime = (\<lambda>_. demo_tm),
     ne_mktime = (\<lambda>_. 1000), ne_settime_ok = True, ne_monotonic = 50 \<rparr>"

definition demo_loop :: "net_callback acu_loop" where
  "demo_loop = [\<lparr> le_fd = 4, le_events = ACU_LOOP_READ, le_cb = Cb_listen_ready \<rparr>,
                \<lparr> le_fd = 5, le_events = ACU_LOOP_READ, le_cb = Cb_client_ready \<rparr>]"

definition demo_net :: "send_outcome list \<Rightarrow> acu_net" where
  "demo_net outs = \<lparr> nt_listen_fd = 4, nt_client_fd = 5, nt_recv_buf = zeros NET_RECV_BUF_CAP,
     nt_recv_len = 0, nt_send_buf = [], nt_send_off = 0, nt_door_status = 2,
     nt_events = Some (demo_store 2), nt_event_batch = 200, nt_last_batch_first_seq = 0,
     nt_userbin = Some userbin_create, nt_users_set = True, nt_users = demo_users,
     nt_force_open = False, nt_on_force_open = True,
     nt_settings_db = Some \<lparr> st_validations = [], st_timezones = [], st_settings = [] \<rparr>,
     nt_on_setting_changed = True, nt_loop = demo_loop, nt_inactivity_seconds = 30,
     nt_last_activity = 0, nt_device_category = 3, nt_device_type = 33,
     nt_time_sync_enabled = True, nt_layout = demo_layout, kn_wire = [], kn_sends = outs,
     kn_clock = 1000, kn_closed = [], kn_calls = [] \<rparr>"

lemma demo_loop_inv: "loop_inv demo_loop"
  by (simp add: loop_inv_def demo_loop_def)

lemma demo_net_ok: "send_inv (demo_net outs)" "read_watched (demo_net outs)" "nt_client_fd (demo_net outs) = 5"
  "nt_loop (demo_net outs) = demo_loop"
  using demo_loop_inv by (simp_all add: demo_net_def send_inv_def read_watched_def demo_loop_def
      loop_lookup_def find_entry_def)

section \<open>Properties\<close>

text \<open>
  C8. Answers reach the manager as an unbroken byte stream: whatever the kernel does with the
  \<open>send\<close> calls, the bytes it took and the bytes still waiting are the earlier stream followed by
  the accepted answers, each whole and in order; when the connection breaks, the bytes on the
  wire are a prefix of that. The send buffer never exceeds its capacity.
\<close>

theorem answers_sent_in_order:
  assumes "send_inv net" "0 \<le> nt_client_fd net" "queue_all env ds net = (acc, net')"
  shows "length (nt_send_buf net') \<le> NET_SEND_BUF_CAP
    \<and> (if 0 \<le> nt_client_fd net' then kn_wire net' @ net_pending net' = net_stream net @ concat acc
       else \<exists>rest. net_stream net @ concat acc = kn_wire net' @ rest)"
  using queue_all_sent [OF assms] by (auto simp: sent_from_def send_inv_def net_stream_def)

theorem answers_sent_in_order_witness:
  "let (acc, net') = queue_all demo_env [[1, 2, 3], [4, 5]] (demo_net [Takes 2, Would_block, Takes 9])
   in acc = [[1, 2, 3], [4, 5]] \<and> kn_wire net' @ net_pending net' = [1, 2, 3, 4, 5]"
proof -
  obtain acc net' where q: "queue_all demo_env [[1, 2, 3], [4, 5]] (demo_net [Takes 2, Would_block, Takes 9])
    = (acc, net')" by fastforce
  have r: "acc = [[1, 2, 3], [4, 5]] \<and> 0 \<le> nt_client_fd net'"
    using q by (auto simp: demo_net_def net_queue_send_def net_flush_send_def flush_loop.simps slice_def
        loop_mod_def find_entry_def demo_loop_def Let_def split: prod.splits)
  show ?thesis
    unfolding q Let_def prod.case
    using answers_sent_in_order [OF demo_net_ok(1) _ q] r demo_net_ok(3)
    by (simp add: net_stream_def net_pending_def) (simp add: demo_net_def)
qed

text \<open>
  C9. A send that blocks is not resumed by the loop: \<open>net_flush_send\<close> returns at \<open>EAGAIN\<close>
  before it would turn the write watch on, so after any answer the connection is still watched
  for reading only. Bytes that wait in the buffer stay there until another answer is queued.
\<close>

theorem blocked_send_not_watched:
  assumes "send_inv net" "0 \<le> nt_client_fd net" "read_watched net"
    and "net_queue_send env net data = (r, net')" "0 \<le> nt_client_fd net'"
  shows "read_watched net' \<and> nt_client_fd net' \<notin> set (watch_set (nt_loop net') ACU_LOOP_WRITE)"
proof
  show "read_watched net'" by (rule read_watched_queue [OF assms])
  then show "nt_client_fd net' \<notin> set (watch_set (nt_loop net') ACU_LOOP_WRITE)"
    unfolding read_watched_def by (intro not_write_watched) auto
qed

theorem blocked_send_not_watched_witness:
  "let net' = snd (net_queue_send demo_env (demo_net [Takes 2, Would_block]) [1, 2, 3])
   in net_pending net' = [3] \<and> nt_client_fd net' \<notin> set (watch_set (nt_loop net') ACU_LOOP_WRITE)"
proof -
  obtain r net' where q: "net_queue_send demo_env (demo_net [Takes 2, Would_block]) [1, 2, 3] = (r, net')"
    by fastforce
  have "0 \<le> nt_client_fd net' \<and> net_pending net' = [3]"
    using q by (auto simp: demo_net_def net_queue_send_def net_flush_send_def flush_loop.simps slice_def
        net_pending_def Let_def)
  then show ?thesis
    using blocked_send_not_watched [OF demo_net_ok(1) _ demo_net_ok(2) q] demo_net_ok(3)
    unfolding q Let_def by simp
qed

end
