(* ===== verification/Net_Frames.thy ===== *)
theory Net_Frames
  imports Net_State
begin

text \<open>
  The answers of \<open>acud/net.c\<close>: Device Status (234 bytes), Firmware Info (268), Event Info (36)
  and \<open>send_response\<close>, which puts them into a frame and queues it. The lemmas relate the nested
  loops of \<open>fill_modules\<close> to a direct description of the module table and show that every answer
  is a frame the manager's parser accepts, addressed to the sender of the request.
\<close>

abbreviation (input) IDTI_MODULE_COUNT_V2 :: int where "IDTI_MODULE_COUNT_V2 \<equiv> 14"
abbreviation (input) IDTI_MODULE_ENTRY_LEN :: nat where "IDTI_MODULE_ENTRY_LEN \<equiv> 16"
abbreviation (input) IDTI_MODULE_IO_SLOTS :: nat where "IDTI_MODULE_IO_SLOTS \<equiv> 14"
abbreviation (input) IDTI_MODULE_ARRAY_OFFSET :: nat where "IDTI_MODULE_ARRAY_OFFSET \<equiv> 10"
abbreviation (input) IDTI_IOTYPE_PROXIMITY_READER :: byte where "IDTI_IOTYPE_PROXIMITY_READER \<equiv> 2"
abbreviation (input) IDTI_IOTYPE_INPUT_SENSOR :: byte where "IDTI_IOTYPE_INPUT_SENSOR \<equiv> 3"
abbreviation (input) IDTI_IOTYPE_OUTPUT_RELAY :: byte where "IDTI_IOTYPE_OUTPUT_RELAY \<equiv> 4"
abbreviation (input) IDTI_IOSTATUS_INACTIVE :: byte where "IDTI_IOSTATUS_INACTIVE \<equiv> 2"
abbreviation (input) IDTI_FW_VERSION_MAJOR :: byte where "IDTI_FW_VERSION_MAJOR \<equiv> 1"
abbreviation (input) IDTI_FW_VERSION_MINOR :: byte where "IDTI_FW_VERSION_MINOR \<equiv> 0"
abbreviation (input) IDTI_FW_VERSION_PATCH :: byte where "IDTI_FW_VERSION_PATCH \<equiv> 0"
abbreviation (input) IDTI_FW_VERSION_BUILD :: byte where "IDTI_FW_VERSION_BUILD \<equiv> 0"
abbreviation (input) IDTI_FW_DATE_YEAR :: int where "IDTI_FW_DATE_YEAR \<equiv> 26"
abbreviation (input) IDTI_FW_DATE_MONTH :: int where "IDTI_FW_DATE_MONTH \<equiv> 9"
abbreviation (input) IDTI_FW_DATE_DAY :: int where "IDTI_FW_DATE_DAY \<equiv> 8"
abbreviation (input) IDTI_FW_DATE_HOUR :: int where "IDTI_FW_DATE_HOUR \<equiv> 0"
abbreviation (input) IDTI_FW_DATE_MINUTE :: int where "IDTI_FW_DATE_MINUTE \<equiv> 0"
abbreviation (input) IDTI_FW_DATE_SECOND :: int where "IDTI_FW_DATE_SECOND \<equiv> 0"

section \<open>Device Status\<close>

text \<open>
  The loop over one group of slots: \<open>count\<close> iterations at most, stopping when the module's 14
  slots are used up. \<open>entry\<close> is the offset of the module in the buffer.
\<close>

primrec fill_group :: "nat \<Rightarrow> byte \<Rightarrow> nat \<Rightarrow> nat \<times> byte list \<Rightarrow> nat \<times> byte list" where
  "fill_group 0 io_type entry s = s"
| "fill_group (Suc count) io_type entry s =
    (let (slt, out) = s
     in if slt < IDTI_MODULE_IO_SLOTS
        then fill_group count io_type entry
               (Suc slt, out[entry + 2 + slt := push_bit 4 io_type OR IDTI_IOSTATUS_INACTIVE])
        else s)"

definition module_slots :: "module_layout \<Rightarrow> (int \<times> byte) list" where
  "module_slots l = [(ml_readers l, IDTI_IOTYPE_PROXIMITY_READER), (ml_inputs l, IDTI_IOTYPE_INPUT_SENSOR),
     (ml_outputs l, IDTI_IOTYPE_OUTPUT_RELAY), (ml_alarm_fire_inputs l, IDTI_IOTYPE_INPUT_SENSOR)]"

definition fill_module :: "module_layout \<Rightarrow> byte list \<Rightarrow> nat \<Rightarrow> byte list" where
  "fill_module l out m =
    (let entry = IDTI_MODULE_ARRAY_OFFSET + m * IDTI_MODULE_ENTRY_LEN;
         out1 = out[entry := word_of_int (ml_module_type l), entry + 1 := word_of_int (ml_install_type l)]
     in snd (foldl (\<lambda>s (count, io_type). fill_group (nat count) io_type entry s) (0, out1) (module_slots l)))"

definition fill_modules :: "byte list \<Rightarrow> module_layout \<Rightarrow> byte list" where
  "fill_modules out l =
    (let module_count = (if ml_module_count l > IDTI_MODULE_COUNT_V2 then IDTI_MODULE_COUNT_V2
                         else ml_module_count l);
         ms = [0..<nat module_count];
         out1 = foldl (fill_module l) out ms;
         existed = foldl (\<lambda>e m. e OR push_bit m 1) (0 :: u32) ms
     in out1[8 := ucast (drop_bit 8 existed AND 0xFF), 9 := ucast (existed AND 0xFF)])"

text \<open>A local time as the six BCD bytes YY MM DD hh mm ss.\<close>

definition tm_bcd :: "tm \<Rightarrow> byte list" where
  "tm_bcd t = [idti_to_bcd (c_rem (tm_year t + 1900) 100), idti_to_bcd (tm_mon t + 1), idti_to_bcd (tm_mday t),
     idti_to_bcd (tm_hour t), idti_to_bcd (tm_min t), idti_to_bcd (tm_sec t)]"

definition build_device_status :: "net_env \<Rightarrow> int \<Rightarrow> int \<Rightarrow> int \<Rightarrow> module_layout \<Rightarrow> byte list" where
  "build_device_status env now cat typ l =
     fill_modules ([word_of_int cat, word_of_int typ] @ tm_bcd (ne_localtime env now)
                   @ zeros (IDTI_DEVICE_STATUS_V2_LEN - 8)) l"

section \<open>Firmware Info and Event Info\<close>

definition build_firmware_info :: "int \<Rightarrow> int \<Rightarrow> byte list" where
  "build_firmware_info cat typ =
     [word_of_int cat, word_of_int typ, IDTI_FW_VERSION_MAJOR, IDTI_FW_VERSION_MINOR,
      IDTI_FW_VERSION_PATCH, IDTI_FW_VERSION_BUILD, idti_to_bcd IDTI_FW_DATE_YEAR,
      idti_to_bcd IDTI_FW_DATE_MONTH, idti_to_bcd IDTI_FW_DATE_DAY, idti_to_bcd IDTI_FW_DATE_HOUR,
      idti_to_bcd IDTI_FW_DATE_MINUTE, idti_to_bcd IDTI_FW_DATE_SECOND]
     @ zeros (IDTI_FIRMWARE_INFO_LEN - 12)"

definition build_event_info :: "net_env \<Rightarrow> acu_event \<Rightarrow> byte list" where
  "build_event_info env e =
     put32 (e_event_code e) @ [e_op_mode e, 0x00, e_module_addr e, e_reader_addr e, e_door_status e, e_func_code e]
     @ tm_bcd (ne_localtime env (e_ts e)) @ e_id e @ [0x00, 0x00, 0x00, 0x01] @ zeros 8"

section \<open>send_response\<close>

definition response_payload :: "net_env \<Rightarrow> acu_net \<Rightarrow> idti_header \<Rightarrow> byte list \<Rightarrow> byte list" where
  "response_payload env net hdr data =
     (if frame_option hdr AND IDTI_FOPT_EXCLUDE_DEVICE_STATUS \<noteq> 0 then []
      else build_device_status env (kn_clock net) (nt_device_category net) (nt_device_type net) (nt_layout net))
     @ data"

definition resp_option :: "idti_header \<Rightarrow> u16" where
  "resp_option hdr =
    (let opt = frame_option hdr AND (IDTI_FOPT_BLOCKING OR IDTI_FOPT_TCP)
     in if frame_option hdr AND IDTI_FOPT_EXCLUDE_DEVICE_STATUS \<noteq> 0
        then opt OR IDTI_FOPT_EXCLUDE_DEVICE_STATUS else opt)"

definition response_packet ::
  "net_env \<Rightarrow> acu_net \<Rightarrow> idti_header \<Rightarrow> byte \<Rightarrow> byte \<Rightarrow> byte \<Rightarrow> byte list
   \<Rightarrow> u16 \<Rightarrow> u16 \<Rightarrow> u16 \<Rightarrow> u16 \<Rightarrow> byte list option" where
  "response_packet env net hdr cmd sub obj data b_start b_end b_count b_one =
    (if length data > NET_PAYLOAD_CAP - IDTI_DEVICE_STATUS_V2_LEN then None
     else idti_build_packet NET_RESP_BUF_CAP
            (take IDTI_ADDR_SRC_LEN (src_addr hdr) @ zeros (IDTI_ADDR_DEST_LEN - IDTI_ADDR_SRC_LEN))
            [0x01, 0x01, 0x01, 0x01, 0x01]
            (resp_option hdr) (frame_index hdr) (password hdr) cmd sub obj
            (start_item hdr) (end_item hdr) b_start b_end b_count b_one
            (response_payload env net hdr data))"

definition send_response ::
  "net_env \<Rightarrow> acu_net \<Rightarrow> idti_header \<Rightarrow> byte \<Rightarrow> byte \<Rightarrow> byte \<Rightarrow> byte list
   \<Rightarrow> u16 \<Rightarrow> u16 \<Rightarrow> u16 \<Rightarrow> u16 \<Rightarrow> bool \<times> acu_net" where
  "send_response env net hdr cmd sub obj data b_start b_end b_count b_one =
    (case response_packet env net hdr cmd sub obj data b_start b_end b_count b_one of
       None \<Rightarrow> (False, net)
     | Some p \<Rightarrow> net_queue_send env net p)"

section \<open>The module table, described directly\<close>

definition slot_byte :: "byte \<Rightarrow> byte" where
  "slot_byte io_type = push_bit 4 io_type OR IDTI_IOSTATUS_INACTIVE"

text \<open>A module's 14 slots: the groups in order, cut at 14 and padded with zeros.\<close>

definition slot_bytes :: "module_layout \<Rightarrow> byte list" where
  "slot_bytes l = blob_fixed IDTI_MODULE_IO_SLOTS
     (concat (map (\<lambda>(count, io_type). replicate (nat count) (slot_byte io_type)) (module_slots l)))"

definition module_entry :: "module_layout \<Rightarrow> byte list" where
  "module_entry l = [word_of_int (ml_module_type l), word_of_int (ml_install_type l)] @ slot_bytes l"

definition modules_present :: "module_layout \<Rightarrow> nat" where
  "modules_present l = min (nat (ml_module_count l)) 14"

definition status_table :: "module_layout \<Rightarrow> byte list" where
  "status_table l = put16 (2 ^ modules_present l - 1)
     @ concat (replicate (modules_present l) (module_entry l))
     @ zeros ((14 - modules_present l) * 16)"

lemma length_fill_group: "length (snd (fill_group c t e s)) = length (snd s)"
  by (induction c arbitrary: s) (auto simp: Let_def split: prod.splits)

lemma fill_group_blit:
  "slt \<le> 14 \<Longrightarrow> e + 16 \<le> length out \<Longrightarrow>
   fill_group c t e (slt, out) =
     (min 14 (slt + c), blit (e + 2 + slt) (replicate (min c (14 - slt)) (slot_byte t)) out)"
proof (induction c arbitrary: slt out)
  case 0
  then show ?case by (simp add: blit_def)
next
  case (Suc c)
  show ?case
  proof (cases "slt < 14")
    case False
    with Suc.prems show ?thesis by (simp add: blit_def)
  next
    case True
    let ?out = "out[e + 2 + slt := slot_byte t]"
    from Suc.IH [of "Suc slt" ?out] True Suc.prems
    have "fill_group (Suc c) t e (slt, out) =
      (min 14 (Suc slt + c), blit (e + 2 + Suc slt) (replicate (min c (14 - Suc slt)) (slot_byte t)) ?out)"
      by (simp add: slot_byte_def)
    moreover have "blit (e + 2 + Suc slt) (replicate (min c (14 - Suc slt)) (slot_byte t)) ?out
      = blit (e + 2 + slt) (replicate (min (Suc c) (14 - slt)) (slot_byte t)) out"
    proof -
      have m: "min (Suc c) (14 - slt) = Suc (min c (14 - Suc slt))" using True by auto
      have "take (e + 2 + Suc slt) ?out = take (e + 2 + slt) out @ [slot_byte t]"
        using True Suc.prems by (simp add: take_Suc_conv_app_nth take_update_cancel)
      then show ?thesis unfolding m blit_def by (simp add: drop_update_cancel)
    qed
    ultimately show ?thesis by simp
  qed
qed

lemma blit_adjacent:
  "off2 = off + length xs \<Longrightarrow> off2 + length ys \<le> length out \<Longrightarrow>
   blit off2 ys (blit off xs out) = blit off (xs @ ys) out"
  by (simp add: blit_def ac_simps)

definition group_bytes :: "(int \<times> byte) list \<Rightarrow> byte list" where
  "group_bytes gs = concat (map (\<lambda>(count, io_type). replicate (nat count) (slot_byte io_type)) gs)"

lemma fill_groups_blit:
  "slt \<le> 14 \<Longrightarrow> e + 16 \<le> length out \<Longrightarrow>
   snd (foldl (\<lambda>s (count, io_type). fill_group (nat count) io_type e s) (slt, out) gs) =
     blit (e + 2 + slt) (take (14 - slt) (group_bytes gs)) out"
proof (induction gs arbitrary: slt out)
  case Nil
  then show ?case by (simp add: group_bytes_def blit_def)
next
  case (Cons g gs)
  obtain c t where g: "g = (c, t)" by fastforce
  let ?xs = "replicate (min (nat c) (14 - slt)) (slot_byte t)"
  let ?out = "blit (e + 2 + slt) ?xs out"
  let ?slt = "min 14 (slt + nat c)"
  have "snd (foldl (\<lambda>s (count, io_type). fill_group (nat count) io_type e s) (slt, out) (g # gs)) =
    snd (foldl (\<lambda>s (count, io_type). fill_group (nat count) io_type e s) (?slt, ?out) gs)"
    using fill_group_blit [OF Cons.prems] by (simp add: g)
  also have "\<dots> = blit (e + 2 + ?slt) (take (14 - ?slt) (group_bytes gs)) ?out"
    using Cons.prems by (intro Cons.IH) simp_all
  also have "\<dots> = blit (e + 2 + slt) (?xs @ take (14 - ?slt) (group_bytes gs)) out"
    using Cons.prems by (intro blit_adjacent) auto
  also have "?xs @ take (14 - ?slt) (group_bytes gs) = take (14 - slt) (group_bytes (g # gs))"
    by (auto simp: g group_bytes_def min_def)
  finally show ?case .
qed

lemma fill_module_append:
  assumes len: "length A = 10 + 16 * m" and k: "16 \<le> k"
  shows "fill_module l (A @ zeros k) m = A @ module_entry l @ zeros (k - 16)"
proof -
  let ?ty = "[word_of_int (ml_module_type l), word_of_int (ml_install_type l)] :: byte list"
  let ?sl = "take 14 (group_bytes (module_slots l))"
  obtain j where j: "k = Suc (Suc j)" using k by (cases k; cases "k - 1") auto
  then have z: "zeros k = 0 # 0 # zeros (k - 2)" by (simp add: zeros_def)
  have upd: "(A @ zeros k)[10 + m * 16 := a, 10 + m * 16 + 1 := b] = (A @ [a, b]) @ zeros (k - 2)" for a b
    using len by (simp add: z list_update_append mult.commute)
  have "fill_module l (A @ zeros k) m = blit (length A + 2) ?sl ((A @ ?ty) @ zeros (k - 2))"
    unfolding fill_module_def Let_def upd using len k
    by (subst fill_groups_blit) (simp_all add: mult.commute)
  also have "\<dots> = A @ ?ty @ ?sl @ zeros (k - 2 - length ?sl)"
    by (simp add: blit_def)
  also have "\<dots> = A @ module_entry l @ zeros (k - 16)"
    using k by (auto simp: module_entry_def slot_bytes_def group_bytes_def [symmetric] blob_fixed_def zeros_def
        replicate_add [symmetric] min_def)
  finally show ?thesis .
qed

lemma length_module_entry [simp]: "length (module_entry l) = 16"
  by (simp add: module_entry_def slot_bytes_def)

lemma length_entries [simp]: "length (concat (replicate n (module_entry l))) = 16 * n"
  by (induction n) simp_all

lemma fill_all_modules:
  "length P = 10 \<Longrightarrow> n \<le> 14 \<Longrightarrow>
   foldl (fill_module l) (P @ zeros 224) [0..<n] =
     P @ concat (replicate n (module_entry l)) @ zeros ((14 - n) * 16)"
proof (induction n)
  case 0
  then show ?case by simp
next
  case (Suc n)
  then have "foldl (fill_module l) (P @ zeros 224) [0..<Suc n] =
    fill_module l ((P @ concat (replicate n (module_entry l))) @ zeros ((14 - n) * 16)) n"
    by simp
  also have "\<dots> = (P @ concat (replicate n (module_entry l))) @ module_entry l @ zeros ((14 - n) * 16 - 16)"
    using Suc.prems by (intro fill_module_append) auto
  also have "\<dots> = P @ concat (replicate n (module_entry l) @ [module_entry l]) @ zeros ((14 - Suc n) * 16)"
    by (simp add: diff_mult_distrib)
  finally show ?case by (simp only: replicate_append_same replicate_Suc)
qed

lemma existed_mask: "foldl (\<lambda>e m. e OR push_bit m 1) (0 :: u32) [0..<n] = mask n"
proof (induction n)
  case 0
  then show ?case by simp
next
  case (Suc n)
  then show ?case by (simp add: mask_Suc_exp push_bit_eq_mult ac_simps)
qed

lemma mask_bytes:
  "[ucast (drop_bit 8 (mask n :: u32) AND 0xFF), ucast ((mask n :: u32) AND 0xFF)] = put16 (mask n)"
proof -
  have ff: "0xFF = (mask 8 :: u32)" by (simp add: mask_eq_exp_minus_1)
  show ?thesis unfolding put16_def ff by (auto intro!: bit_word_eqI simp: bit_simps)
qed

lemma fill_modules_table:
  assumes "length P = 8"
  shows "fill_modules (P @ zeros 226) l = P @ status_table l"
proof -
  let ?n = "modules_present l"
  have n: "nat (if ml_module_count l > 14 then 14 else ml_module_count l) = ?n" "?n \<le> 14"
    by (auto simp: modules_present_def)
  let ?R = "concat (replicate ?n (module_entry l)) @ zeros ((14 - ?n) * 16)"
  have split: "P @ zeros 226 = (P @ zeros 2) @ zeros 224" by (simp add: zeros_def replicate_add [symmetric])
  have "foldl (fill_module l) (P @ zeros 226) [0..<?n] = (P @ zeros 2) @ ?R"
    unfolding split using assms n(2) by (intro fill_all_modules) simp_all
  moreover have "((P @ zeros 2) @ ?R)[8 := a, 9 := b] = P @ [a, b] @ ?R" for a b
    using assms by (simp add: list_update_append zeros_def numeral_2_eq_2)
  ultimately show ?thesis
    unfolding fill_modules_def Let_def n existed_mask using mask_bytes [of ?n]
    by (simp add: status_table_def mask_eq_exp_minus_1)
qed

lemma length_status_table [simp]: "length (status_table l) = 226"
  by (simp add: status_table_def modules_present_def)

lemma device_status_table:
  "build_device_status env now cat typ l =
     [word_of_int cat, word_of_int typ] @ tm_bcd (ne_localtime env now) @ status_table l"
proof -
  let ?P = "[word_of_int cat, word_of_int typ] @ tm_bcd (ne_localtime env now)"
  have "build_device_status env now cat typ l = fill_modules (?P @ zeros 226) l"
    by (simp add: build_device_status_def)
  also have "\<dots> = ?P @ status_table l" by (rule fill_modules_table) (simp add: tm_bcd_def)
  finally show ?thesis by simp
qed

lemma length_device_status [simp]: "length (build_device_status env now cat typ l) = 234"
  by (simp add: device_status_table tm_bcd_def)

lemma length_firmware_info [simp]: "length (build_firmware_info cat typ) = 268"
  by (simp add: build_firmware_info_def)

lemma length_event_info [simp]: "length (e_id e) = 8 \<Longrightarrow> length (build_event_info env e) = 36"
  by (simp add: build_event_info_def tm_bcd_def)

lemma length_event_infos:
  "(\<And>e. e \<in> set es \<Longrightarrow> length (e_id e) = 8) \<Longrightarrow>
   length (concat (map (build_event_info env) es)) = 36 * length es"
  by (induction es) auto

section \<open>Every answer is a frame\<close>

definition excludes_status :: "idti_header \<Rightarrow> bool" where
  "excludes_status hdr \<longleftrightarrow> frame_option hdr AND IDTI_FOPT_EXCLUDE_DEVICE_STATUS \<noteq> 0"

lemma payload_length:
  "length (response_payload env net hdr data) = (if excludes_status hdr then 0 else 234) + length data"
  by (simp add: response_payload_def excludes_status_def)

lemma response_packet_Some:
  "length data \<le> 18000 \<Longrightarrow>
   \<exists>p. response_packet env net hdr cmd sub obj data b_start b_end b_count b_one = Some p"
  by (simp add: response_packet_def idti_build_packet_def Let_def payload_length)

lemma response_packet_built:
  assumes "length (src_addr hdr) = 5"
    and "response_packet env net hdr cmd sub obj data b_start b_end b_count b_one = Some p"
  shows "idti_header_parse (p @ rest) = Some (built_header (src_addr hdr @ zeros 3) [1, 1, 1, 1, 1]
      (resp_option hdr) (frame_index hdr) (password hdr) cmd sub obj (start_item hdr) (end_item hdr)
      b_start b_end b_count b_one (response_payload env net hdr data))"
    and "slice 44 (length (response_payload env net hdr data)) p = response_payload env net hdr data"
    and "length p = 46 + length (response_payload env net hdr data)"
proof -
  let ?pl = "response_payload env net hdr data"
  have b: "idti_build_packet 18362 (src_addr hdr @ zeros 3) [1, 1, 1, 1, 1] (resp_option hdr)
      (frame_index hdr) (password hdr) cmd sub obj (start_item hdr) (end_item hdr)
      b_start b_end b_count b_one ?pl = Some p"
    using assms by (simp add: response_packet_def split: if_splits)
  have l: "length (src_addr hdr @ zeros 3) = 8" "length [1, 1, 1, 1, 1 :: byte] = 5"
    using assms(1) by simp_all
  show "idti_header_parse (p @ rest) = Some (built_header (src_addr hdr @ zeros 3) [1, 1, 1, 1, 1]
      (resp_option hdr) (frame_index hdr) (password hdr) cmd sub obj (start_item hdr) (end_item hdr)
      b_start b_end b_count b_one ?pl)"
    and "slice 44 (length ?pl) p = ?pl"
    by (rule build_parse [OF l b])+
  show "length p = 46 + length ?pl" using build_packet_length [OF l b] by simp
qed

lemma and_exp_cases: "(x :: 'a :: len word) AND 2 ^ n \<noteq> 0 \<Longrightarrow> x AND 2 ^ n = 2 ^ n"
  by (auto intro!: bit_word_eqI simp: and_exp_eq_0_iff_not_bit bit_simps)

lemma resp_option_excludes:
  "response_option (resp_option hdr) AND IDTI_FOPT_EXCLUDE_DEVICE_STATUS
     = frame_option hdr AND IDTI_FOPT_EXCLUDE_DEVICE_STATUS"
  unfolding resp_option_def response_option_def Let_def
  using and_exp_cases [of "frame_option hdr" 7] by (simp add: and.assoc bit.conj_disj_distrib2)

section \<open>Properties\<close>

text \<open>
  C11. The module table of Device Status is exactly what the configuration says: the two bytes of
  the presence bitmap have one bit per reported module (at most 14), every reported module has
  its type, its installation kind and its slots in the order readers, inputs, outputs, alarm and
  fire inputs, cut at 14 slots, and everything else is zero.
\<close>

theorem module_table_as_configured:
  "build_device_status env now cat typ l =
     [word_of_int cat, word_of_int typ] @ tm_bcd (ne_localtime env now)
     @ put16 (2 ^ modules_present l - 1)
     @ concat (replicate (modules_present l) (module_entry l))
     @ zeros ((14 - modules_present l) * 16)"
  by (simp add: device_status_table status_table_def)

text \<open>
  C10. Every answer whose data fits is built, and is one whole frame for the manager's parser: it
  carries the frame index, password and items of the request, is addressed to the sender of the
  request, has the command and blocks the handler chose, tells truthfully whether Device Status
  is included, and its data is Device Status (unless excluded) followed by the handler's data.
\<close>

theorem answer_is_a_frame:
  assumes "length (src_addr hdr) = 5" "length data \<le> 18000"
  shows "\<exists>p h. response_packet env net hdr cmd sub obj data b_start b_end b_count b_one = Some p
    \<and> (\<forall>rest. idti_header_parse (p @ rest) = Some h) \<and> unat (packet_length h) = length p
    \<and> frame_index h = frame_index hdr \<and> password h = password hdr
    \<and> start_item h = start_item hdr \<and> end_item h = end_item hdr
    \<and> dest_addr h = src_addr hdr @ zeros 3
    \<and> command h = cmd \<and> sub_command h = sub \<and> object h = obj
    \<and> data_block_current h = b_start \<and> data_block_end h = b_end
    \<and> data_block_total h = b_count \<and> data_block_one_len h = b_one
    \<and> excludes_status h = excludes_status hdr
    \<and> slice 44 (data_len h) p =
        (if excludes_status hdr then []
         else build_device_status env (kn_clock net) (nt_device_category net) (nt_device_type net) (nt_layout net))
        @ data"
proof -
  obtain p where p: "response_packet env net hdr cmd sub obj data b_start b_end b_count b_one = Some p"
    using response_packet_Some [OF assms(2)] by blast
  note b = response_packet_built [OF assms(1) p]
  let ?pl = "response_payload env net hdr data"
  define h where "h = built_header (src_addr hdr @ zeros 3) [1, 1, 1, 1, 1] (resp_option hdr)
      (frame_index hdr) (password hdr) cmd sub obj (start_item hdr) (end_item hdr)
      b_start b_end b_count b_one ?pl"
  have "46 + length ?pl < 65536" using assms(2) by (simp add: payload_length)
  from unat_of_nat_u16 [OF this] have "unat (packet_length h) = length p"
    unfolding h_def built_header_def b(3) by simp
  moreover have "excludes_status h = excludes_status hdr"
    by (simp add: h_def built_header_def excludes_status_def resp_option_excludes)
  moreover have "slice 44 (data_len h) p = ?pl" using b(2) by (simp add: h_def built_header_def)
  moreover have "\<forall>rest. idti_header_parse (p @ rest) = Some h" using b(1) by (simp add: h_def)
  ultimately show ?thesis using p
    by (intro exI [of _ p] exI [of _ h])
      (simp add: h_def built_header_def response_payload_def excludes_status_def)
qed

definition demo_hdr :: "byte \<Rightarrow> byte \<Rightarrow> byte \<Rightarrow> idti_header" where
  "demo_hdr cmd sub obj = \<lparr> packet_length = 46, protocol_version = 2, frame_option = 0x0801,
     dest_addr = [1, 1, 1, 1, 0, 0, 0, 4], src_addr = [9, 8, 7, 6, 5], frame_index = 77, password = 3,
     command = cmd, sub_command = sub, object = obj, start_item = 0, end_item = 0,
     data_block_current = 0, data_block_end = 0, data_block_total = 0, data_block_one_len = 0,
     data_len = 0 \<rparr>"

theorem answer_is_a_frame_witness:
  "\<exists>p h. response_packet demo_env (demo_net []) (demo_hdr 4 2 0x2A) 3 2 0x2A [1, 2] 1 1 1 2 = Some p
    \<and> idti_header_parse (p @ [1]) = Some h \<and> frame_index h = 77 \<and> dest_addr h = [9, 8, 7, 6, 5, 0, 0, 0]"
  using answer_is_a_frame [of "demo_hdr 4 2 0x2A" "[1, 2]" demo_env "demo_net []" 3 2 "0x2A" 1 1 1 2]
  by (simp add: demo_hdr_def zeros_def numeral_3_eq_3) blast

end
