(* ===== verification/Net_Requests.thy ===== *)
theory Net_Requests
  imports Net_Frames
begin

text \<open>
  Request handlers of \<open>acud/net.c\<close>, first part: clock synchronisation, the event log, firmware,
  LCD, the user list transfer, single user commands and forced opening. A handler that returns 0
  (not its request) gives \<open>(False, net)\<close>. \<open>handle_userbin_request\<close> is \<open>None\<close> when the loop of
  \<open>userbin_continue\<close> would never end.
\<close>

abbreviation (input) NET_TIME_SYNC_MIN_DRIFT_SEC :: int where "NET_TIME_SYNC_MIN_DRIFT_SEC \<equiv> 2"
abbreviation (input) IDTI_LCD_BACKLIGHT_DEFAULT :: byte where "IDTI_LCD_BACKLIGHT_DEFAULT \<equiv> 1"
abbreviation (input) IDTI_LCD_DATEFORMAT_YYYYMMDD :: byte where "IDTI_LCD_DATEFORMAT_YYYYMMDD \<equiv> 1"
abbreviation (input) IDTI_LANGUAGE_ENGLISH :: byte where "IDTI_LANGUAGE_ENGLISH \<equiv> 1"

text \<open>\<open>pkt + IDTI_HEADER_LEN_V2\<close> with \<open>hdr->data_len\<close>.\<close>

definition frame_data :: "idti_header \<Rightarrow> byte list \<Rightarrow> byte list" where
  "frame_data hdr pkt = slice IDTI_HEADER_LEN_V2 (data_len hdr) pkt"

text \<open>The answer with one result byte that most handlers send.\<close>

definition send_ack :: "net_env \<Rightarrow> acu_net \<Rightarrow> idti_header \<Rightarrow> byte \<Rightarrow> acu_net" where
  "send_ack env net hdr ack =
     snd (send_response env net hdr (command hdr) (sub_command hdr) (object hdr) [ack] 1 1 1 1)"

section \<open>Clock synchronisation\<close>

text \<open>Year, month, day, hour, minute, second as decoded from BCD, checked as the code checks them.\<close>

definition bcd_tm :: "int \<Rightarrow> int \<Rightarrow> int \<Rightarrow> int \<Rightarrow> int \<Rightarrow> int \<Rightarrow> tm option" where
  "bcd_tm yy mm dd hh mi ss =
    (if yy < 0 \<or> mm < 1 \<or> mm > 12 \<or> dd < 1 \<or> dd > 31 \<or>
        hh < 0 \<or> hh > 23 \<or> mi < 0 \<or> mi > 59 \<or> ss < 0 \<or> ss > 59 then None
     else Some \<lparr> tm_year = 2000 + yy - 1900, tm_mon = mm - 1, tm_mday = dd, tm_hour = hh, tm_min = mi,
                 tm_sec = ss, tm_wday = 0 \<rparr>)"

definition apply_time_sync :: "net_env \<Rightarrow> acu_net \<Rightarrow> byte list \<Rightarrow> acu_net" where
  "apply_time_sync env net data =
    (if \<not> nt_time_sync_enabled net \<or> length data < IDTI_TIME_SYNC_LEN then net
     else case bcd_tm (idti_from_bcd (data ! 0)) (idti_from_bcd (data ! 1)) (idti_from_bcd (data ! 2))
                 (idti_from_bcd (data ! 4)) (idti_from_bcd (data ! 5)) (idti_from_bcd (data ! 6)) of
            None \<Rightarrow> net
          | Some t \<Rightarrow>
              let want = ne_mktime env t
              in if want = -1 then net
                 else
                   let drift = want - kn_clock net
                   in if drift > - NET_TIME_SYNC_MIN_DRIFT_SEC \<and> drift < NET_TIME_SYNC_MIN_DRIFT_SEC then net
                      else if \<not> ne_settime_ok env then net
                      else net\<lparr> kn_clock := want \<rparr>)"

section \<open>The event log\<close>

definition history_max :: "acu_net \<Rightarrow> idti_header \<Rightarrow> int" where
  "history_max net hdr =
    (if frame_option hdr AND IDTI_FOPT_BLOCKING \<noteq> 0
     then (if nt_event_batch net < int IDTI_EVENT_BLOCKING_MAX then nt_event_batch net
           else int IDTI_EVENT_BLOCKING_MAX)
     else int IDTI_EVENT_NONBLOCKING_MAX)"

text \<open>With the re-request bit the store goes back to the first event of the last batch.\<close>

definition history_rewind :: "net_env \<Rightarrow> acu_net \<Rightarrow> idti_header \<Rightarrow> acu_net" where
  "history_rewind env net hdr =
    (case nt_events net of
       None \<Rightarrow> net
     | Some ev \<Rightarrow>
         if frame_option hdr AND IDTI_FOPT_RE_REQUEST_EVENT \<noteq> 0 \<and> nt_last_batch_first_seq net > 0
         then net\<lparr> nt_events := Some (snd (events_rewind_to_seq (ne_ev_ok env) ev (nt_last_batch_first_seq net))) \<rparr>
         else net)"

text \<open>The batch, the number of unsent events before it was taken, and the store after the fetch.\<close>

definition history_batch :: "net_env \<Rightarrow> acu_net \<Rightarrow> int \<Rightarrow> acu_event list \<times> int \<times> acu_net" where
  "history_batch env net mx =
    (case nt_events net of
       None \<Rightarrow> ([], 0, net)
     | Some ev \<Rightarrow>
         let (r, ev') = events_fetch (ne_ev_ok env) ev mx;
             batch = (case r of None \<Rightarrow> [] | Some es \<Rightarrow> es);
             pending = events_pending (ne_ev_ok env) ev'
         in (batch, if pending < int (length batch) then int (length batch) else pending,
             net\<lparr> nt_events := Some ev' \<rparr>))"

definition handle_history_request :: "net_env \<Rightarrow> acu_net \<Rightarrow> idti_header \<Rightarrow> acu_net" where
  "handle_history_request env net hdr =
    (let mx = history_max net hdr;
         (batch, pending_before, net2) = history_batch env (history_rewind env net hdr) mx;
         n = length batch;
         (sent, net3) = send_response env net2 hdr IDTI_CMD_SND_DATA IDTI_SUBCMD_READ IDTI_OBJ_HISTORY
           (concat (map (build_event_info env) batch))
           (if n > 0 then 1 else 0) (of_nat n)
           (word_of_int (if pending_before > 0xFFFF then 0xFFFF else pending_before))
           (if n > 0 then of_nat IDTI_EVENT_INFO_LEN else 0)
     in if \<not> sent then net3
        else if n = 0 then net3
        else net3\<lparr> nt_last_batch_first_seq := e_seq (batch ! 0),
                   nt_events := map_option (\<lambda>ev. snd (events_ack (ne_ev_ok env) ev (e_seq (batch ! (n - 1)))))
                                  (nt_events net3) \<rparr>)"

section \<open>Firmware and LCD\<close>

definition handle_firmware_request :: "net_env \<Rightarrow> acu_net \<Rightarrow> idti_header \<Rightarrow> acu_net" where
  "handle_firmware_request env net hdr =
     snd (send_response env net hdr IDTI_CMD_SND_STATUS IDTI_SUBCMD_READ IDTI_OBJ_FIRMWARE
            (build_firmware_info (nt_device_category net) (nt_device_type net))
            1 1 1 (of_nat IDTI_FIRMWARE_INFO_LEN))"

definition handle_lcd_request :: "net_env \<Rightarrow> acu_net \<Rightarrow> idti_header \<Rightarrow> bool \<times> acu_net" where
  "handle_lcd_request env net hdr =
    (let is_lcd_control = (object hdr = IDTI_OBJ_LCD_CONTROL);
         is_language = (object hdr = IDTI_OBJ_MULTI_LANGUAGE)
     in if \<not> is_lcd_control \<and> \<not> is_language then (False, net)
        else
          let is_query = (command hdr = IDTI_CMD_REQ_DATA \<and> sub_command hdr = IDTI_SUBCMD_READ);
              data = (if is_lcd_control \<and> is_query
                      then [IDTI_LCD_BACKLIGHT_DEFAULT, 0, 0, 0, 0, IDTI_LCD_DATEFORMAT_YYYYMMDD]
                           @ zeros (IDTI_LCD_INFO_LEN - 6)
                      else if is_language \<and> is_query then [IDTI_LANGUAGE_ENGLISH]
                      else [IDTI_ACK_SUCCESS])
          in (True, snd (send_response env net hdr (command hdr) (sub_command hdr) (object hdr)
                           data 1 1 1 (of_nat (length data)))))"

section \<open>The user list\<close>

definition handle_userbin_send :: "net_env \<Rightarrow> acu_net \<Rightarrow> idti_header \<Rightarrow> byte list \<Rightarrow> bool \<Rightarrow> acu_net" where
  "handle_userbin_send env net hdr pkt is_start =
    (let data = frame_data hdr pkt
     in case nt_userbin net of
          None \<Rightarrow> send_ack env net hdr IDTI_ACK_FAIL
        | Some ub \<Rightarrow>
            if is_start then
              let binary_obj = (if length data \<ge> 1 then data ! 0 else IDTI_USERBIN_OBJ_INFO);
                  (r, ub') = userbin_receive_start (ne_us_ok env) ub (nt_users net) binary_obj;
                  net1 = net\<lparr> nt_userbin := Some ub' \<rparr>
              in case r of
                   None \<Rightarrow> send_ack env net1 hdr IDTI_ACK_FAIL
                 | Some (total_size, total_count) \<Rightarrow>
                     snd (send_response env net1 hdr IDTI_CMD_SND_DATA IDTI_SUBCMD_READ (object hdr)
                            (put32 total_size @ put32 total_count @ [binary_obj, 0x00]) 1 1 1 10)
            else if length data < 2 then send_ack env net hdr IDTI_ACK_FAIL
            else
              let index = be16 data;
                  (r, ub') = userbin_receive_chunk (ne_us_ok env) ub (nt_users net) index USERBIN_SEND_CHUNK;
                  net1 = net\<lparr> nt_userbin := Some ub' \<rparr>
              in case r of
                   None \<Rightarrow> send_ack env net1 hdr IDTI_ACK_FAIL
                 | Some recs \<Rightarrow>
                     snd (send_response env net1 hdr IDTI_CMD_SND_DATA IDTI_SUBCMD_READ (object hdr)
                            (put16 index @ recs) 1 1 1 (of_nat (length recs + 2))))"

text \<open>The transfer towards the controller: the acknowledgement and the state it leaves.\<close>

definition userbin_write :: "net_env \<Rightarrow> acu_net \<Rightarrow> byte list \<Rightarrow> bool \<Rightarrow> (byte \<times> acu_net) option" where
  "userbin_write env net data is_start =
    (case nt_userbin net of
       None \<Rightarrow> Some (IDTI_ACK_FAIL, net)
     | Some ub \<Rightarrow>
         if is_start then
           if length data < 10 then Some (IDTI_ACK_FAIL, net)
           else
             let (r, ub', u') = userbin_start (ne_us_ok env) ub (nt_users net) (be32 data) (be32 (drop 4 data)) (data ! 8)
             in Some (if r then IDTI_ACK_SUCCESS else IDTI_ACK_FAIL,
                      net\<lparr> nt_userbin := Some ub', nt_users := u' \<rparr>)
         else if length data < 2 then Some (IDTI_ACK_FAIL, net)
         else case userbin_continue (ne_us_ok env) ub (nt_users net) (be16 data) (drop 2 data) of
                None \<Rightarrow> None
              | Some (st, ub', u') \<Rightarrow>
                  let net1 = net\<lparr> nt_userbin := Some ub', nt_users := u' \<rparr>;
                      net2 = (if st = USERBIN_COMPLETE
                              then net_store_event env net1 (userbin_result_event ub') IDTI_OPMODE_NONE None
                                     (nt_door_status net1) (uint IDTI_EVENT_ADDR_FIRST_MODULE) 0
                              else net1)
                  in Some (if st \<noteq> USERBIN_FAILED then IDTI_ACK_SUCCESS else IDTI_ACK_FAIL, net2))"

definition handle_userbin_request ::
  "net_env \<Rightarrow> acu_net \<Rightarrow> idti_header \<Rightarrow> byte list \<Rightarrow> (bool \<times> acu_net) option" where
  "handle_userbin_request env net hdr pkt =
    (let is_start = (object hdr = IDTI_OBJ_USERBIN_START);
         is_continue = (object hdr = IDTI_OBJ_USERBIN_CONTINUE)
     in if \<not> is_start \<and> \<not> is_continue then Some (False, net)
        else if command hdr = IDTI_CMD_REQ_DATA \<and> sub_command hdr = IDTI_SUBCMD_READ
        then Some (True, handle_userbin_send env net hdr pkt is_start)
        else if command hdr \<noteq> IDTI_CMD_SND_DATA \<or> sub_command hdr \<noteq> IDTI_SUBCMD_WRITE then Some (False, net)
        else case userbin_write env net (frame_data hdr pkt) is_start of
               None \<Rightarrow> None
             | Some (ack, net1) \<Rightarrow> Some (True, send_ack env net1 hdr ack))"

section \<open>Single users\<close>

definition handle_usercmd_request :: "net_env \<Rightarrow> acu_net \<Rightarrow> idti_header \<Rightarrow> byte list \<Rightarrow> bool \<times> acu_net" where
  "handle_usercmd_request env net hdr pkt =
    (if \<not> usercmd_is_user_object (object hdr) then (False, net)
     else
       let data = frame_data hdr pkt;
           result = (\<lambda>(st, u'). (True, send_ack env (net\<lparr> nt_users := u' \<rparr>) hdr
                       (if st = USERCMD_OK then IDTI_ACK_SUCCESS else IDTI_ACK_FAIL)))
       in if \<not> nt_users_set net then (True, send_ack env net hdr IDTI_ACK_FAIL)
          else if command hdr = IDTI_CMD_REQ_DATA \<and> sub_command hdr = IDTI_SUBCMD_READ
          then case usercmd_get (ne_us_ok env) (nt_users net) (object hdr) data of
                 (USERCMD_OK, body) \<Rightarrow>
                   (True, snd (send_response env net hdr IDTI_CMD_SND_DATA IDTI_SUBCMD_READ (object hdr)
                                 body 1 1 1 (of_nat (length body))))
               | (USERCMD_FAIL, _) \<Rightarrow> (True, send_ack env net hdr IDTI_ACK_FAIL)
          else if command hdr = IDTI_CMD_SND_DATA \<and> sub_command hdr = IDTI_SUBCMD_WRITE
          then result (usercmd_set (ne_us_ok env) (nt_users net) (object hdr) data)
          else if command hdr = IDTI_CMD_SND_DATA \<and> sub_command hdr = IDTI_SUBCMD_DELETE
          then result (usercmd_delete (ne_us_ok env) (nt_users net) data)
          else (False, net))"

section \<open>Forced opening\<close>

definition handle_force_open_request :: "net_env \<Rightarrow> acu_net \<Rightarrow> idti_header \<Rightarrow> byte list \<Rightarrow> bool \<times> acu_net" where
  "handle_force_open_request env net hdr pkt =
    (if object hdr \<noteq> IDTI_OBJ_FORCE_OPEN then (False, net)
     else if command hdr = IDTI_CMD_SND_STATUS \<and> sub_command hdr = IDTI_SUBCMD_CHANGE
     then
       let data = frame_data hdr pkt;
           on = (length data \<ge> 1 \<and> data ! 0 = IDTI_FORCE_OPEN_ON)
       in (True, send_ack env (net_apply_force_open env net on) hdr IDTI_ACK_SUCCESS)
     else if command hdr = IDTI_CMD_REQ_DATA \<and> sub_command hdr = IDTI_SUBCMD_READ
     then (True, snd (send_response env net hdr IDTI_CMD_SND_DATA IDTI_SUBCMD_READ (object hdr)
                        [if nt_force_open net then IDTI_FORCE_OPEN_ON else 0x00] 1 1 1 1))
     else (False, net))"

end
