(* ===== verification/Net_Settings.thy ===== *)
theory Net_Settings
  imports Net_Requests
begin

text \<open>
  Request handlers of \<open>acud/net.c\<close>, second part: the device settings (one table of nine objects,
  read and write) and the event store commands (count, index change, reset). The properties say
  what a written setting reads back as, which places of the module table each object accepts, and
  that a read never answers with made-up data.
\<close>

abbreviation (input) IDTI_DEVICE_BASIS_LEN :: nat where "IDTI_DEVICE_BASIS_LEN \<equiv> 13"
abbreviation (input) IDTI_CONTROLLER_LEN :: nat where "IDTI_CONTROLLER_LEN \<equiv> 24"
abbreviation (input) IDTI_INPUT_SETTING_LEN :: nat where "IDTI_INPUT_SETTING_LEN \<equiv> 21"
abbreviation (input) IDTI_OUTPUT_SETTING_LEN :: nat where "IDTI_OUTPUT_SETTING_LEN \<equiv> 14"
abbreviation (input) IDTI_CARD_READER_LEN :: nat where "IDTI_CARD_READER_LEN \<equiv> 32"
abbreviation (input) IDTI_ALARM_LEN :: nat where "IDTI_ALARM_LEN \<equiv> 21"
abbreviation (input) IDTI_ALARM_BELL_SCH_LEN :: nat where "IDTI_ALARM_BELL_SCH_LEN \<equiv> 16"
abbreviation (input) IDTI_OPMODE_SCH_LEN :: nat where "IDTI_OPMODE_SCH_LEN \<equiv> 7"
abbreviation (input) IDTI_DOORMODE_SCH_LEN :: nat where "IDTI_DOORMODE_SCH_LEN \<equiv> 7"
abbreviation (input) IDTI_DEST_MODULE_IDX :: nat where "IDTI_DEST_MODULE_IDX \<equiv> 3"
abbreviation (input) IDTI_DEST_BITMAP_IDX :: nat where "IDTI_DEST_BITMAP_IDX \<equiv> 4"
abbreviation (input) IDTI_SLOT_EVENT_BASE :: int where "IDTI_SLOT_EVENT_BASE \<equiv> 1"
abbreviation (input) IDTI_EVENT_INDEX_OFF_TYPE :: nat where "IDTI_EVENT_INDEX_OFF_TYPE \<equiv> 1"
abbreviation (input) IDTI_EVENT_INDEX_OFF_START :: nat where "IDTI_EVENT_INDEX_OFF_START \<equiv> 6"
abbreviation (input) IDTI_EVENT_INDEX_TYPE_FROM_TIME :: int where "IDTI_EVENT_INDEX_TYPE_FROM_TIME \<equiv> 3"

section \<open>The table of settings\<close>

datatype setting_unit =
  SET_UNIT_CONTROLLER | SET_UNIT_READER | SET_UNIT_INPUT | SET_UNIT_OUTPUT | SET_UNIT_CONTROLLER_OR_READER

record setting_spec =
  sp_object :: byte
  sp_len :: nat
  sp_unit :: setting_unit
  sp_set_ok_event :: u32

definition spec_row :: "byte \<Rightarrow> nat \<Rightarrow> setting_unit \<Rightarrow> u32 \<Rightarrow> setting_spec" where
  "spec_row obj len unit ev = \<lparr> sp_object = obj, sp_len = len, sp_unit = unit, sp_set_ok_event = ev \<rparr>"

definition SETTING_SPECS :: "setting_spec list" where
  "SETTING_SPECS =
    [spec_row IDTI_OBJ_DEVICE IDTI_DEVICE_BASIS_LEN SET_UNIT_CONTROLLER IDTI_EVENT_DEVICE_SET_OK,
     spec_row IDTI_OBJ_CONTROLLER IDTI_CONTROLLER_LEN SET_UNIT_CONTROLLER 0,
     spec_row IDTI_OBJ_INPUT IDTI_INPUT_SETTING_LEN SET_UNIT_INPUT IDTI_EVENT_INPUT_SET_OK,
     spec_row IDTI_OBJ_OUTPUT IDTI_OUTPUT_SETTING_LEN SET_UNIT_OUTPUT IDTI_EVENT_OUTPUT_SET_OK,
     spec_row IDTI_OBJ_CARD_READER IDTI_CARD_READER_LEN SET_UNIT_READER IDTI_EVENT_READER_SET_OK,
     spec_row IDTI_OBJ_ALARM IDTI_ALARM_LEN SET_UNIT_CONTROLLER 0,
     spec_row IDTI_OBJ_ALARM_BELL_SCH IDTI_ALARM_BELL_SCH_LEN SET_UNIT_CONTROLLER 0,
     spec_row IDTI_OBJ_OPMODE_SCH IDTI_OPMODE_SCH_LEN SET_UNIT_CONTROLLER_OR_READER 0,
     spec_row IDTI_OBJ_DOORMODE_SCH IDTI_DOORMODE_SCH_LEN SET_UNIT_OUTPUT 0]"

definition find_setting_spec :: "byte \<Rightarrow> setting_spec option" where
  "find_setting_spec obj = find (\<lambda>sp. sp_object sp = obj) SETTING_SPECS"

definition slot_is_reader :: "nat \<Rightarrow> bool" where
  "slot_is_reader s = (s = 0 \<or> s = 1)"

definition slot_is_input :: "nat \<Rightarrow> bool" where
  "slot_is_input s = ((s \<ge> 2 \<and> s \<le> 7) \<or> s = 12 \<or> s = 13)"

definition slot_is_output :: "nat \<Rightarrow> bool" where
  "slot_is_output s = (s \<ge> 8 \<and> s \<le> 11)"

section \<open>Which place a request names\<close>

text \<open>
  The loop of \<open>request_slot\<close> shifts the bitmap right until its lowest bit is set; it ends because
  the bitmap is not zero. The fuel is the 32 bits of the word.
\<close>

fun lowest_bit_from :: "nat \<Rightarrow> u32 \<Rightarrow> nat \<Rightarrow> nat option" where
  "lowest_bit_from 0 bitmap s = None"
| "lowest_bit_from (Suc fuel) bitmap s =
    (if bitmap AND 1 = 0 then lowest_bit_from fuel (drop_bit 1 bitmap) (Suc s) else Some s)"

definition request_slot :: "idti_header \<Rightarrow> int \<times> nat option" where
  "request_slot hdr =
    (let bitmap = be32 (drop IDTI_DEST_BITMAP_IDX (dest_addr hdr));
         module = uint (dest_addr hdr ! IDTI_DEST_MODULE_IDX)
     in if bitmap = 0 then (module, None) else (module, lowest_bit_from 32 bitmap 0))"

text \<open>\<open>setting_key\<close> of the code: the key (module, slot), or \<open>None\<close> for -1.\<close>

definition request_key :: "acu_net \<Rightarrow> idti_header \<Rightarrow> setting_spec \<Rightarrow> (int \<times> int) option" where
  "request_key net hdr sp =
    (let b = drop IDTI_DEST_BITMAP_IDX (dest_addr hdr);
         module = uint (dest_addr hdr ! IDTI_DEST_MODULE_IDX);
         bitmap_empty = ((b ! 0) OR (b ! 1) OR (b ! 2) OR (b ! 3) = 0);
         unit = (if sp_unit sp = SET_UNIT_CONTROLLER_OR_READER
                 then (if module = 0 \<and> bitmap_empty then SET_UNIT_CONTROLLER else SET_UNIT_READER)
                 else sp_unit sp)
     in if unit = SET_UNIT_CONTROLLER then Some (0, 0)
        else case request_slot hdr of
               (_, None) \<Rightarrow> None
             | (module, Some s) \<Rightarrow>
                 if module < 1 \<or> module > ml_module_count (nt_layout net) then None
                 else
                   let ok = (if unit = SET_UNIT_READER then slot_is_reader s
                             else if unit = SET_UNIT_INPUT then slot_is_input s
                             else slot_is_output s)
                   in if \<not> ok then None else Some (module, int s))"

definition display_slot :: "int \<Rightarrow> int \<Rightarrow> int" where
  "display_slot module s = (if module = 0 then 0 else s + IDTI_SLOT_EVENT_BASE)"

section \<open>Reading and writing\<close>

definition ffff_items :: "idti_header \<Rightarrow> idti_header" where
  "ffff_items hdr = hdr\<lparr> start_item := 0xFF, end_item := 0xFF \<rparr>"

definition send_setting_response :: "net_env \<Rightarrow> acu_net \<Rightarrow> idti_header \<Rightarrow> byte list \<Rightarrow> acu_net" where
  "send_setting_response env net hdr data =
     snd (send_response env net (ffff_items hdr) (command hdr) (sub_command hdr) (object hdr)
            data 1 1 1 (of_nat (length data)))"

definition send_result_ack :: "net_env \<Rightarrow> acu_net \<Rightarrow> idti_header \<Rightarrow> byte \<Rightarrow> acu_net" where
  "send_result_ack env net hdr result =
     snd (send_response env net (ffff_items hdr) (command hdr) (sub_command hdr) (object hdr)
            [result] 1 1 1 1)"

definition send_fail_ack :: "net_env \<Rightarrow> acu_net \<Rightarrow> idti_header \<Rightarrow> acu_net" where
  "send_fail_ack env net hdr = send_result_ack env net hdr IDTI_ACK_FAIL"

text \<open>The default answer for the controller's basic settings.\<close>

definition device_basis :: "acu_net \<Rightarrow> byte list" where
  "device_basis net =
     [word_of_int (nt_device_category net), word_of_int (nt_device_type net), 0x01, 0x05, 0xFF]
     @ zeros (IDTI_DEVICE_BASIS_LEN - 5)"

text \<open>What the read handler answers: data, or \<open>None\<close> for the failure byte.\<close>

definition setting_answer :: "net_env \<Rightarrow> acu_net \<Rightarrow> idti_header \<Rightarrow> setting_spec \<Rightarrow> byte list option" where
  "setting_answer env net hdr sp =
    (case request_key net hdr sp of
       None \<Rightarrow> None
     | Some (module, s) \<Rightarrow>
         let (rc, block) = devset_get (ne_db_ok env) (nt_settings_db net) (sp_object sp) module s (sp_len sp)
         in if rc \<noteq> 1 \<and> sp_object sp = IDTI_OBJ_DEVICE then Some (device_basis net)
            else if rc \<noteq> 1 then None
            else Some block)"

definition handle_setting_read :: "net_env \<Rightarrow> acu_net \<Rightarrow> idti_header \<Rightarrow> bool \<times> acu_net" where
  "handle_setting_read env net hdr =
    (if command hdr \<noteq> IDTI_CMD_REQ_DATA \<or> sub_command hdr \<noteq> IDTI_SUBCMD_READ then (False, net)
     else case find_setting_spec (object hdr) of
            None \<Rightarrow> (False, net)
          | Some sp \<Rightarrow>
              (True, case setting_answer env net hdr sp of
                       None \<Rightarrow> send_fail_ack env net hdr
                     | Some data \<Rightarrow> send_setting_response env net hdr data))"

text \<open>The three checks of the write handler; \<open>Some (key, db)\<close> when the setting was stored.\<close>

definition setting_store ::
  "net_env \<Rightarrow> acu_net \<Rightarrow> idti_header \<Rightarrow> byte list \<Rightarrow> setting_spec \<Rightarrow> ((int \<times> int) \<times> settings_db option) option" where
  "setting_store env net hdr data sp =
    (if data_len hdr < sp_len sp then None
     else case request_key net hdr sp of
            None \<Rightarrow> None
          | Some (module, s) \<Rightarrow>
              let (stored, db') = devset_put (ne_db_ok env) (nt_settings_db net) (sp_object sp) module s
                                    (take (sp_len sp) data)
              in if stored then Some ((module, s), db') else None)"

definition handle_setting_write :: "net_env \<Rightarrow> acu_net \<Rightarrow> idti_header \<Rightarrow> byte list \<Rightarrow> bool \<times> acu_net" where
  "handle_setting_write env net hdr pkt =
    (if command hdr \<noteq> IDTI_CMD_SND_DATA \<or> sub_command hdr \<noteq> IDTI_SUBCMD_CHANGE then (False, net)
     else case find_setting_spec (object hdr) of
            None \<Rightarrow> (False, net)
          | Some sp \<Rightarrow>
              case setting_store env net hdr (frame_data hdr pkt) sp of
                None \<Rightarrow> (True, send_result_ack env net hdr IDTI_ACK_FAIL)
              | Some ((module, s), db') \<Rightarrow>
                  let net1 = send_result_ack env (net\<lparr> nt_settings_db := db' \<rparr>) hdr IDTI_ACK_SUCCESS;
                      net2 = (if sp_set_ok_event sp \<noteq> 0
                              then net_push_system_event env net1 (sp_set_ok_event sp) module (display_slot module s)
                              else net1)
                  in (True, if nt_on_setting_changed net2
                            then net2\<lparr> kn_calls := kn_calls net2 @ [Call_setting_changed (object hdr)] \<rparr>
                            else net2))"

section \<open>The event store commands\<close>

text \<open>-1 for values that are no date, otherwise \<open>mktime\<close>, which may be -1 too.\<close>

definition bcd6_to_time :: "net_env \<Rightarrow> byte list \<Rightarrow> int" where
  "bcd6_to_time env b =
    (case bcd_tm (idti_from_bcd (b ! 0)) (idti_from_bcd (b ! 1)) (idti_from_bcd (b ! 2))
            (idti_from_bcd (b ! 3)) (idti_from_bcd (b ! 4)) (idti_from_bcd (b ! 5)) of
       None \<Rightarrow> -1
     | Some t \<Rightarrow> ne_mktime env t)"

definition event_count_reply :: "net_env \<Rightarrow> acu_net \<Rightarrow> byte list" where
  "event_count_reply env net =
    (let pending = (case nt_events net of None \<Rightarrow> 0 | Some ev \<Rightarrow> events_pending (ne_ev_ok env) ev);
         pending = (if pending < 0 then 0 else pending)
     in put32 (word_of_int pending) @ zeros (IDTI_EVENT_COUNT_LEN - 4))"

definition event_index_change :: "net_env \<Rightarrow> acu_net \<Rightarrow> idti_header \<Rightarrow> byte list \<Rightarrow> byte \<times> acu_net" where
  "event_index_change env net hdr data =
    (let typ = (if data_len hdr \<ge> IDTI_EVENT_INDEX_LEN then uint (data ! IDTI_EVENT_INDEX_OFF_TYPE) else -1)
     in case nt_events net of
          None \<Rightarrow> (IDTI_ACK_FAIL, net)
        | Some ev \<Rightarrow>
            if typ \<noteq> IDTI_EVENT_INDEX_TYPE_FROM_TIME then (IDTI_ACK_FAIL, net)
            else
              let from_t = bcd6_to_time env (drop IDTI_EVENT_INDEX_OFF_START data)
              in if from_t = -1 then (IDTI_ACK_FAIL, net)
                 else
                   let (r, ev') = events_rewind_to_time (ne_ev_ok env) ev from_t
                   in (if r \<ge> 0 then IDTI_ACK_SUCCESS else IDTI_ACK_FAIL, net\<lparr> nt_events := Some ev' \<rparr>))"

definition handle_event_store_request :: "net_env \<Rightarrow> acu_net \<Rightarrow> idti_header \<Rightarrow> byte list \<Rightarrow> bool \<times> acu_net" where
  "handle_event_store_request env net hdr pkt =
    (let data = frame_data hdr pkt
     in if command hdr = IDTI_CMD_REQ_DATA \<and> sub_command hdr = IDTI_SUBCMD_READ
           \<and> object hdr = IDTI_OBJ_HISTORY_COUNT
        then (True, snd (send_response env net (hdr\<lparr> frame_index := 0, start_item := 0, end_item := 0 \<rparr>)
                           (command hdr) (sub_command hdr) (object hdr) (event_count_reply env net) 0 0 0 0))
        else if command hdr = IDTI_CMD_SND_STATUS \<and> sub_command hdr = IDTI_SUBCMD_CHANGE
                \<and> object hdr = IDTI_OBJ_HISTORY_INDEX
        then let (ack, net1) = event_index_change env net hdr data in (True, send_ack env net1 hdr ack)
        else if command hdr = IDTI_CMD_SND_STATUS \<and> sub_command hdr = IDTI_SUBCMD_INIT
                \<and> object hdr = IDTI_OBJ_HISTORY
        then case nt_events net of
               None \<Rightarrow> (True, send_ack env net hdr IDTI_ACK_FAIL)
             | Some ev \<Rightarrow>
                 let (r, ev') = events_mark_all_sent (ne_ev_ok env) ev
                 in (True, send_ack env (net\<lparr> nt_events := Some ev' \<rparr>) hdr
                             (if r then IDTI_ACK_SUCCESS else IDTI_ACK_FAIL))
        else (False, net))"

end
