(* ===== verification/Net.thy ===== *)
theory Net
  imports Net_Settings
begin

text \<open>
  The network server of \<open>acud/net.c\<close>, last part: the dispatch of a request
  (\<open>handle_request\<close>), the receive callback with its loop over the buffer, accepting a connection,
  attaching to the event loop and the inactivity check.
\<close>

section \<open>Dispatch\<close>

text \<open>The chain \<open>if (handle_x(...)) return;\<close>; \<open>None\<close> as in \<open>handle_userbin_request\<close>.\<close>

definition handle_request :: "net_env \<Rightarrow> acu_net \<Rightarrow> idti_header \<Rightarrow> byte list \<Rightarrow> acu_net option" where
  "handle_request env net hdr pkt =
    (let net0 = (if frame_option hdr AND IDTI_FOPT_TIME_SYNC \<noteq> 0
                 then apply_time_sync env net (frame_data hdr pkt) else net)
     in if command hdr = IDTI_CMD_REQ_DATA \<and> sub_command hdr = IDTI_SUBCMD_READ \<and> object hdr = IDTI_OBJ_HISTORY
        then Some (handle_history_request env net0 hdr)
        else if command hdr = IDTI_CMD_REQ_STATUS \<and> sub_command hdr = IDTI_SUBCMD_READ
                \<and> object hdr = IDTI_OBJ_FIRMWARE
        then Some (handle_firmware_request env net0 hdr)
        else case handle_userbin_request env net0 hdr pkt of
          None \<Rightarrow> None
        | Some (True, net1) \<Rightarrow> Some net1
        | Some (False, net1) \<Rightarrow>
        (case handle_usercmd_request env net1 hdr pkt of
          (True, net2) \<Rightarrow> Some net2
        | (False, net2) \<Rightarrow>
        (case handle_force_open_request env net2 hdr pkt of
          (True, net3) \<Rightarrow> Some net3
        | (False, net3) \<Rightarrow>
        (case handle_setting_read env net3 hdr of
          (True, net4) \<Rightarrow> Some net4
        | (False, net4) \<Rightarrow>
        (case handle_setting_write env net4 hdr pkt of
          (True, net5) \<Rightarrow> Some net5
        | (False, net5) \<Rightarrow>
        (case handle_event_store_request env net5 hdr pkt of
          (True, net6) \<Rightarrow> Some net6
        | (False, net6) \<Rightarrow>
        (case handle_lcd_request env net6 hdr of
          (True, net7) \<Rightarrow> Some net7
        | (False, net7) \<Rightarrow> Some (send_ack env net7 hdr IDTI_ACK_FAIL))))))))"

section \<open>Receiving\<close>

text \<open>
  The loop of \<open>net_on_client_ready\<close>. \<open>recv_len - consumed\<close> is a \<open>size_t\<close>: when a handler has
  dropped the client \<open>recv_len\<close> is 0 and the difference wraps around. A loop position outside
  \<open>recv_buf\<close> is a read out of bounds: \<open>Left_buffer\<close>; so is a frame that would reach past the end.
  \<open>Stuck\<close> is a handler that never returns. Each round advances by at least 46 bytes, so
  the distance to the end of the buffer bounds the rounds.
\<close>

datatype 'a run = Done 'a | Left_buffer | Stuck

definition avail_bytes :: "acu_net \<Rightarrow> nat \<Rightarrow> nat" where
  "avail_bytes net consumed = nat ((int (nt_recv_len net) - int consumed) mod 2 ^ 64)"

function frame_loop :: "net_env \<Rightarrow> acu_net \<Rightarrow> nat \<Rightarrow> (acu_net \<times> nat) run" where
  "frame_loop env net consumed =
    (if avail_bytes net consumed < IDTI_HEADER_LEN_V2 then Done (net, consumed)
     else if consumed + IDTI_HEADER_LEN_V2 > NET_RECV_BUF_CAP then Left_buffer
     else
       let pkt = drop consumed (nt_recv_buf net)
       in case idti_header_parse (take (avail_bytes net consumed) pkt) of
            None \<Rightarrow> Done (net, nt_recv_len net)
          | Some hdr \<Rightarrow>
              if avail_bytes net consumed < unat (packet_length hdr) then Done (net, consumed)
              else if consumed + unat (packet_length hdr) > NET_RECV_BUF_CAP then Left_buffer
              else case handle_request env net hdr pkt of
                     None \<Rightarrow> Stuck
                   | Some net1 \<Rightarrow> frame_loop env net1 (consumed + unat (packet_length hdr)))"
  by pat_completeness auto
termination
proof (relation "measure (\<lambda>(env, net, consumed). NET_RECV_BUF_CAP - consumed)")
  show "wf (measure (\<lambda>(env, net, consumed). NET_RECV_BUF_CAP - consumed))" by simp
next
  fix env net consumed pkt hdr net1
  assume "\<not> consumed + IDTI_HEADER_LEN_V2 > NET_RECV_BUF_CAP"
    and "idti_header_parse (take (avail_bytes net consumed) pkt) = Some hdr"
  then have "consumed + 44 \<le> 65536" "44 < unat (packet_length hdr)"
    using header_parse_lengths(1) tail_len_cases [of "frame_option hdr"] by fastforce+
  then show "((env, net1, consumed + unat (packet_length hdr)), env, net, consumed)
    \<in> measure (\<lambda>(env, net, consumed). NET_RECV_BUF_CAP - consumed)" by simp
qed

declare frame_loop.simps [simp del]

text \<open>One \<open>recv()\<close>: bytes (at most the free space of the buffer), nothing yet, or the end.\<close>

datatype recv_outcome = Receives "byte list" | Recv_would_block | Recv_closed

definition shift_buffer :: "acu_net \<Rightarrow> nat \<Rightarrow> acu_net" where
  "shift_buffer net consumed =
    (if consumed > 0
     then net\<lparr> nt_recv_buf := blit 0 (slice consumed (nt_recv_len net - consumed) (nt_recv_buf net)) (nt_recv_buf net),
               nt_recv_len := nt_recv_len net - consumed \<rparr>
     else net)"

definition net_on_client_ready :: "net_env \<Rightarrow> recv_outcome \<Rightarrow> u32 \<Rightarrow> acu_net \<Rightarrow> acu_net run" where
  "net_on_client_ready env rcv events net =
    (let net0 = (if events AND ACU_LOOP_WRITE \<noteq> 0 then net_flush_send env net else net)
     in if events AND ACU_LOOP_READ = 0 \<or> nt_client_fd net0 < 0 then Done net0
        else case rcv of
               Recv_would_block \<Rightarrow> Done net0
             | Recv_closed \<Rightarrow> Done (net_drop_client env net0)
             | Receives bs \<Rightarrow>
                 let bs = take (NET_RECV_BUF_CAP - nt_recv_len net0) bs
                 in if bs = [] then Done (net_drop_client env net0)
                    else
                      let net1 = net0\<lparr> nt_recv_buf := blit (nt_recv_len net0) bs (nt_recv_buf net0),
                                       nt_recv_len := nt_recv_len net0 + length bs,
                                       nt_last_activity := ne_monotonic env \<rparr>
                      in case frame_loop env net1 0 of
                           Done (net2, consumed) \<Rightarrow> Done (shift_buffer net2 consumed)
                         | Left_buffer \<Rightarrow> Left_buffer
                         | Stuck \<Rightarrow> Stuck)"

section \<open>Connections\<close>

text \<open>\<open>new_fd\<close> is what \<open>accept\<close> returned.\<close>

definition net_on_listen_ready :: "net_env \<Rightarrow> int \<Rightarrow> acu_net \<Rightarrow> acu_net" where
  "net_on_listen_ready env new_fd net =
    (if new_fd < 0 then net
     else
       let net1 = (if nt_client_fd net \<ge> 0 then net_drop_client env net else net);
           net2 = net1\<lparr> nt_client_fd := new_fd, nt_last_activity := ne_monotonic env, nt_recv_len := 0,
                        nt_send_buf := [], nt_send_off := 0, kn_wire := [] \<rparr>
       in case loop_add (nt_loop net2) new_fd ACU_LOOP_READ (Some Cb_client_ready) of
            None \<Rightarrow> net_drop_client env net2
          | Some l \<Rightarrow> net2\<lparr> nt_loop := l \<rparr>)"

definition net_attach_loop :: "acu_net \<Rightarrow> net_callback acu_loop \<Rightarrow> bool \<times> acu_net" where
  "net_attach_loop net l =
    (case loop_add l (nt_listen_fd net) ACU_LOOP_READ (Some Cb_listen_ready) of
       None \<Rightarrow> (False, net\<lparr> nt_loop := l \<rparr>)
     | Some l' \<Rightarrow> (True, net\<lparr> nt_loop := l' \<rparr>))"

definition net_check_inactivity :: "net_env \<Rightarrow> acu_net \<Rightarrow> acu_net" where
  "net_check_inactivity env net =
    (if nt_client_fd net < 0 \<or> nt_inactivity_seconds net \<le> 0 then net
     else
       let idle = ne_monotonic env - nt_last_activity net
       in if idle \<ge> nt_inactivity_seconds net then net_drop_client env net else net)"

end
