(* ===== verification/Net_Log.thy ===== *)
theory Net_Log
  imports Net
begin

text \<open>
  The event log over the connection: \<open>handle_history_request\<close> on top of the event store and the
  send path. The interface of the store (\<open>event_feed\<close>) gives its fetch and acknowledge laws; here
  they are composed with queueing the answer. The properties: an event leaves the unsent list
  only in a frame that was queued, a repeated request brings the same batch again, and polling
  over a connection that takes its answers delivers the whole log.
\<close>

section \<open>One request\<close>

definition asks_again :: "idti_header \<Rightarrow> bool" where
  "asks_again hdr \<longleftrightarrow> frame_option hdr AND IDTI_FOPT_RE_REQUEST_EVENT \<noteq> 0"

definition log_of :: "acu_net \<Rightarrow> acu_event list" where
  "log_of net = (case nt_events net of None \<Rightarrow> [] | Some ev \<Rightarrow> pending_list ev)"

text \<open>The frame a request is answered with when \<open>batch\<close> is sent and \<open>pending\<close> events were unsent.\<close>

definition history_answer :: "net_env \<Rightarrow> acu_net \<Rightarrow> idti_header \<Rightarrow> acu_event list \<Rightarrow> int \<Rightarrow> byte list option" where
  "history_answer env net hdr batch pending =
     response_packet env net hdr IDTI_CMD_SND_DATA IDTI_SUBCMD_READ IDTI_OBJ_HISTORY
       (concat (map (build_event_info env) batch))
       (if batch \<noteq> [] then 1 else 0) (of_nat (length batch))
       (word_of_int (if pending > 0xFFFF then 0xFFFF else pending))
       (if batch \<noteq> [] then of_nat IDTI_EVENT_INFO_LEN else 0)"

lemma response_packet_events [simp]:
  "response_packet env (net\<lparr> nt_events := ev \<rparr>) hdr cmd sub obj data b1 b2 b3 b4 =
   response_packet env net hdr cmd sub obj data b1 b2 b3 b4"
  by (simp add: response_packet_def response_payload_def)

lemma history_max_pos:
  "0 < nt_event_batch net \<Longrightarrow> 0 < history_max net hdr \<and> history_max net hdr \<le> 100"
  by (simp add: history_max_def)

lemma no_rewind: "\<not> asks_again hdr \<Longrightarrow> history_rewind env net hdr = net"
  by (simp add: history_rewind_def asks_again_def split: option.splits)

lemma history_batch_feed:
  assumes "nt_events net = Some ev" "ev_inv ev" "ne_ev_ok env = all_ok" "0 < mx"
  shows "\<exists>pending. history_batch env net mx =
    (take (nat mx) (pending_list ev), pending, net\<lparr> nt_events := Some (snd (feed_fetch ev (nat mx))) \<rparr>)"
proof -
  have "int (nat mx) = mx" using assms(4) by simp
  then show ?thesis
    using assms fetch_feed [OF assms(2), of "nat mx"]
    by (cases "events_fetch all_ok ev mx") (auto simp: history_batch_def feed_fetch_def Let_def)
qed

text \<open>
  The handler in terms of the feed: the answer for the next batch is queued, and only when it was
  accepted the store takes one \<open>poll_once\<close> step.
\<close>

lemma history_request_feed:
  assumes ev: "nt_events net = Some ev" "ev_inv ev" "ne_ev_ok env = all_ok" "0 < nt_event_batch net"
    and na: "\<not> asks_again hdr"
  defines "n \<equiv> nat (history_max net hdr)"
  shows "\<exists>pending. handle_history_request env net hdr =
    (let batch = take n (pending_list ev);
         net2 = net\<lparr> nt_events := Some (snd (feed_fetch ev n)) \<rparr>
     in case history_answer env net hdr batch pending of
          None \<Rightarrow> net2
        | Some p \<Rightarrow>
            (let (sent, net3) = net_queue_send env net2 p
             in if \<not> sent \<or> batch = [] then net3
                else net3\<lparr> nt_last_batch_first_seq := e_seq (hd batch),
                           nt_events := Some (snd (poll_once feed_fetch feed_ack n ev)) \<rparr>))"
    (is "\<exists>pending. ?lhs = ?rhs pending")
proof -
  from history_max_pos [OF ev(4), of hdr] have mx: "0 < history_max net hdr" by simp
  define B where "B = take n (pending_list ev)"
  obtain pending where b: "history_batch env net (history_max net hdr) =
      (B, pending, net\<lparr> nt_events := Some (snd (feed_fetch ev n)) \<rparr>)"
    using history_batch_feed [OF ev(1-3) mx] unfolding n_def B_def by blast
  have step: "snd (poll_once feed_fetch feed_ack n ev) =
      snd (events_ack all_ok (snd (feed_fetch ev n)) (e_seq (B ! (length B - 1))))" if "B \<noteq> []"
    using that fetch_feed [OF ev(2), of n]
    by (simp add: poll_once_def B_def split_beta feed_ack_def last_conv_nth Let_def)
  let ?net2 = "net\<lparr> nt_events := Some (snd (feed_fetch ev n)) \<rparr>"
  have answer: "send_response env ?net2 hdr IDTI_CMD_SND_DATA IDTI_SUBCMD_READ IDTI_OBJ_HISTORY
      (concat (map (build_event_info env) B)) (if 0 < length B then 1 else 0) (of_nat (length B))
      (word_of_int (if pending > 0xFFFF then 0xFFFF else pending))
      (if 0 < length B then of_nat IDTI_EVENT_INFO_LEN else 0) =
    (case history_answer env net hdr B pending of
       None \<Rightarrow> (False, ?net2) | Some p \<Rightarrow> net_queue_send env ?net2 p)"
    unfolding send_response_def history_answer_def response_packet_events length_greater_0_conv by (rule refl)
  show ?thesis
  proof (intro exI [of _ pending], cases "history_answer env net hdr B pending")
    case None
    then show "?lhs = ?rhs pending"
      using answer unfolding handle_history_request_def no_rewind [OF na] b B_def [symmetric] Let_def prod.case by simp
  next
    case (Some p)
    obtain sent net3 where q: "net_queue_send env ?net2 p = (sent, net3)" by fastforce
    have "nt_events net3 = Some (snd (feed_fetch ev n))"
      using queue_frame(1) [of env ?net2 p] unfolding q by simp
    with Some q answer step show "?lhs = ?rhs pending"
      unfolding handle_history_request_def no_rewind [OF na] b B_def [symmetric] Let_def prod.case
      by (cases "B = []") (simp_all add: ev(3) hd_conv_nth)
  qed
qed

lemma sent_from_upd [simp]:
  "sent_from str fd (net\<lparr> nt_events := ev \<rparr>) = sent_from str fd net"
  "sent_from str fd (net\<lparr> nt_last_batch_first_seq := v \<rparr>) = sent_from str fd net"
  by (simp_all add: sent_from_def send_inv_def net_stream_def net_pending_def)

lemma net_stream_events [simp]: "net_stream (net\<lparr> nt_events := ev \<rparr>) = net_stream net"
  by (simp add: net_stream_def net_pending_def)

lemma send_inv_events [simp]: "send_inv (net\<lparr> nt_events := ev \<rparr>) = send_inv net"
  by (simp add: send_inv_def)

lemma poll_once_ev:
  assumes "ev_inv ev"
  shows "ev_inv (snd (poll_once feed_fetch feed_ack n ev))"
    and "pending_list (snd (poll_once feed_fetch feed_ack n ev)) = drop n (pending_list ev)"
  using feed.poll_once_pend [OF assms] by simp_all

text \<open>The two outcomes of a request: nothing left the log, or the answer with the batch was queued.\<close>

lemma history_outcomes:
  assumes ev: "nt_events net = Some ev" "ev_inv ev" "ne_ev_ok env = all_ok" "0 < nt_event_batch net"
    and na: "\<not> asks_again hdr" and conn: "send_inv net" "0 \<le> nt_client_fd net"
  defines "n \<equiv> nat (history_max net hdr)" and "net' \<equiv> handle_history_request env net hdr"
  obtains (kept) ev' where "nt_events net' = Some ev'" "ev_inv ev'" "pending_list ev' = pending_list ev"
  | (sent) pending p where "history_answer env net hdr (take n (pending_list ev)) pending = Some p"
      "take n (pending_list ev) \<noteq> []"
      "nt_events net' = Some (snd (poll_once feed_fetch feed_ack n ev))"
      "nt_last_batch_first_seq net' = e_seq (hd (take n (pending_list ev)))"
      "sent_from (net_stream net @ p) (nt_client_fd net) net'"
proof -
  let ?net2 = "net\<lparr> nt_events := Some (snd (feed_fetch ev n)) \<rparr>"
  define B where "B = take n (pending_list ev)"
  have keep: "ev_inv (snd (feed_fetch ev n))" "pending_list (snd (feed_fetch ev n)) = pending_list ev"
    using fetch_feed [OF ev(2)] by blast+
  obtain pending where step: "net' =
    (case history_answer env net hdr B pending of
       None \<Rightarrow> ?net2
     | Some p \<Rightarrow> (let (sent, net3) = net_queue_send env ?net2 p
          in if \<not> sent \<or> B = [] then net3
             else net3\<lparr> nt_last_batch_first_seq := e_seq (hd B),
                        nt_events := Some (snd (poll_once feed_fetch feed_ack n ev)) \<rparr>))"
    using history_request_feed [OF ev na] unfolding n_def net'_def B_def Let_def by blast
  show ?thesis
  proof (cases "history_answer env net hdr B pending")
    case None
    with step keep show ?thesis by (intro kept [of "snd (feed_fetch ev n)"]) simp_all
  next
    case (Some p)
    obtain r net3 where q: "net_queue_send env ?net2 p = (r, net3)" by fastforce
    have evs: "nt_events net3 = Some (snd (feed_fetch ev n))"
      using queue_frame(1) [of env ?net2 p] unfolding q by simp
    show ?thesis
    proof (cases "r \<and> B \<noteq> []")
      case True
      have "sent_from (net_stream net @ p) (nt_client_fd net) net3"
        using queue_sent [OF _ _ q] conn True by simp
      with True Some q step show ?thesis by (intro sent [of pending p]) (simp_all add: B_def)
    next
      case False
      with Some q step evs keep show ?thesis by (intro kept [of "snd (feed_fetch ev n)"]) auto
    qed
  qed
qed

lemma rewind_ev_inv: "ev_inv ev \<Longrightarrow> ev_inv (snd (events_rewind_to_seq ok ev v))"
  by (auto simp: events_rewind_to_seq_def set_sent_seq_def ev_inv_def Let_def split: option.splits)

section \<open>A connection that takes its answers\<close>

text \<open>\<open>r\<close> answers will be taken whole by the kernel, and nothing waits in the buffer.\<close>

definition taking :: "nat \<Rightarrow> acu_net \<Rightarrow> bool" where
  "taking r net \<longleftrightarrow> 0 \<le> nt_client_fd net \<and> nt_send_buf net = [] \<and> nt_send_off net = 0
     \<and> kn_sends net = replicate r (Takes NET_SEND_BUF_CAP)"

lemma queue_taken:
  assumes t: "taking (Suc r) net" and d: "data \<noteq> []" "length data \<le> NET_SEND_BUF_CAP"
    and q: "net_queue_send env net data = (b, net')"
  shows "b" "taking r net'" "kn_wire net' = kn_wire net @ data"
proof -
  let ?net1 = "net\<lparr> nt_send_buf := data \<rparr>"
  have "flush_loop env (Takes NET_SEND_BUF_CAP # replicate r (Takes NET_SEND_BUF_CAP)) ?net1 =
    (True, net\<lparr> nt_send_buf := data, nt_send_off := length data, kn_wire := kn_wire net @ data,
       kn_sends := replicate r (Takes NET_SEND_BUF_CAP) \<rparr>)"
    using t d by (simp add: flush_loop.simps taking_def slice_def Let_def)
  then show "b" "taking r net'" "kn_wire net' = kn_wire net @ data"
    using t d q by (auto simp: net_queue_send_def net_flush_send_def taking_def Let_def split: option.splits)
qed

text \<open>Every event that may be sent has an 8-byte id, so a full batch fits the answer.\<close>

definition ids_ok :: "acu_events \<Rightarrow> bool" where
  "ids_ok ev \<longleftrightarrow> (\<forall>e \<in> set (pending_list ev). length (e_id e) = 8)"

lemma history_answer_fits:
  assumes src: "length (src_addr hdr) = 5" and es: "\<forall>e \<in> set es. length (e_id e) = 8" "length es \<le> 100"
  obtains p where "history_answer env net hdr es pending = Some p" "p \<noteq> []" "length p \<le> NET_SEND_BUF_CAP"
proof -
  have len: "length (concat (map (build_event_info env) es)) \<le> 18000"
    using es length_event_infos [of es env] by simp
  obtain p where p: "history_answer env net hdr es pending = Some p"
    using response_packet_Some [OF len] unfolding history_answer_def by blast
  from response_packet_built(3) [OF src p [unfolded history_answer_def]]
  have "46 \<le> length p" "length p \<le> NET_SEND_BUF_CAP" using len by (simp_all add: payload_length)
  with p show ?thesis by (intro that [of p]) auto
qed

text \<open>Requests one after the other.\<close>

primrec history_polls :: "net_env \<Rightarrow> idti_header \<Rightarrow> nat \<Rightarrow> acu_net \<Rightarrow> acu_net" where
  "history_polls env hdr 0 net = net"
| "history_polls env hdr (Suc r) net = history_polls env hdr r (handle_history_request env net hdr)"

lemma ids_ok_subset: "ids_ok ev \<Longrightarrow> set (pending_list ev') \<subseteq> set (pending_list ev) \<Longrightarrow> ids_ok ev'"
  by (auto simp: ids_ok_def)

text \<open>One poll over such a connection: the next batch has left the log, in one frame on the wire.\<close>

lemma history_poll_taken:
  assumes ev: "nt_events net = Some ev" "ev_inv ev" "ne_ev_ok env = all_ok" "0 < nt_event_batch net"
    and na: "\<not> asks_again hdr" and t: "taking (Suc r) net"
    and src: "length (src_addr hdr) = 5" and ids: "ids_ok ev"
  defines "n \<equiv> nat (history_max net hdr)" and "net' \<equiv> handle_history_request env net hdr"
  shows "\<exists>ev' p pending. nt_events net' = Some ev' \<and> ev_inv ev' \<and> ids_ok ev'
    \<and> pending_list ev' = drop n (pending_list ev)
    \<and> taking r net' \<and> nt_event_batch net' = nt_event_batch net
    \<and> history_answer env net hdr (take n (pending_list ev)) pending = Some p
    \<and> kn_wire net' = kn_wire net @ p"
proof -
  let ?net2 = "net\<lparr> nt_events := Some (snd (feed_fetch ev n)) \<rparr>"
  define B where "B = take n (pending_list ev)"
  have n: "0 < n" "n \<le> 100" using history_max_pos [OF ev(4), of hdr] by (auto simp: n_def)
  have keep: "ev_inv (snd (feed_fetch ev n))" "pending_list (snd (feed_fetch ev n)) = pending_list ev"
    using fetch_feed [OF ev(2)] by blast+
  obtain pending where step: "net' =
    (case history_answer env net hdr B pending of
       None \<Rightarrow> ?net2
     | Some p \<Rightarrow> (let (sent, net3) = net_queue_send env ?net2 p
          in if \<not> sent \<or> B = [] then net3
             else net3\<lparr> nt_last_batch_first_seq := e_seq (hd B),
                        nt_events := Some (snd (poll_once feed_fetch feed_ack n ev)) \<rparr>))"
    using history_request_feed [OF ev na] unfolding n_def net'_def B_def Let_def by blast
  have "\<forall>e \<in> set B. length (e_id e) = 8" "length B \<le> 100"
    using ids n unfolding B_def ids_ok_def by (auto dest: in_set_takeD)
  from history_answer_fits [OF src this] obtain p where p: "history_answer env net hdr B pending = Some p"
    "p \<noteq> []" "length p \<le> NET_SEND_BUF_CAP" by blast
  obtain b net3 where q: "net_queue_send env ?net2 p = (b, net3)" by fastforce
  have t2: "taking (Suc r) ?net2" using t by (simp add: taking_def)
  note taken = queue_taken [OF t2 p(2,3) q]
  have frame: "nt_events net3 = Some (snd (feed_fetch ev n))" "nt_event_batch net3 = nt_event_batch net"
    using queue_frame(1,2) [of env ?net2 p] unfolding q by simp_all
  show ?thesis
  proof (cases "B = []")
    case True
    then have pend: "pending_list ev = []" using n by (simp add: B_def)
    have net': "net' = net3" using step p(1) q True by simp
    show ?thesis
      unfolding net' using taken frame keep pend p(1) True
      by (intro exI [of _ "snd (feed_fetch ev n)"] exI [of _ p] exI [of _ pending])
        (simp add: ids_ok_def B_def)
  next
    case False
    let ?ev' = "snd (poll_once feed_fetch feed_ack n ev)"
    have net': "net' = net3\<lparr> nt_last_batch_first_seq := e_seq (hd B), nt_events := Some ?ev' \<rparr>"
      using step p(1) q False taken(1) by simp
    have "ids_ok ?ev'"
      by (rule ids_ok_subset [OF ids]) (auto simp: poll_once_ev [OF ev(2)] dest: in_set_dropD)
    then show ?thesis
      unfolding net' using taken frame poll_once_ev [OF ev(2), of n] p(1)
      by (intro exI [of _ ?ev'] exI [of _ p] exI [of _ pending]) (simp add: taking_def B_def)
  qed
qed

lemma history_max_batch: "nt_event_batch net' = nt_event_batch net \<Longrightarrow> history_max net' hdr = history_max net hdr"
  by (simp add: history_max_def)

lemma history_polls_taken:
  assumes "ne_ev_ok env = all_ok" "\<not> asks_again hdr" "length (src_addr hdr) = 5"
  shows "nt_events net = Some ev \<Longrightarrow> ev_inv ev \<Longrightarrow> ids_ok ev \<Longrightarrow> 0 < nt_event_batch net \<Longrightarrow> taking r net \<Longrightarrow>
    log_of (history_polls env hdr r net) = drop (r * nat (history_max net hdr)) (pending_list ev)
    \<and> taking 0 (history_polls env hdr r net)"
proof (induction r arbitrary: net ev)
  case 0
  then show ?case by (simp add: log_of_def)
next
  case (Suc r)
  let ?n = "nat (history_max net hdr)" and ?net' = "handle_history_request env net hdr"
  obtain ev' where e: "nt_events ?net' = Some ev'" "ev_inv ev'" "ids_ok ev'"
      "pending_list ev' = drop ?n (pending_list ev)" "taking r ?net'" "nt_event_batch ?net' = nt_event_batch net"
    using history_poll_taken [OF Suc.prems(1,2) assms(1) Suc.prems(4) assms(2) Suc.prems(5) assms(3) Suc.prems(3)]
    by blast
  from Suc.IH [OF e(1,2,3) _ e(5)] Suc.prems(4) e(4,6) history_max_batch [OF e(6), of hdr]
  show ?case by (simp add: add.commute)
qed

section \<open>Properties\<close>

text \<open>
  An event leaves the unsent list only with an answer: after a request for the log either
  the unsent list is what it was, or exactly the next batch (at most one event, or up to 100 when
  the request is a blocking one) has left it, and the frame that holds this batch has been
  queued whole behind everything sent before.
\<close>

theorem history_never_loses:
  assumes "nt_events net = Some ev" "ev_inv ev" "ne_ev_ok env = all_ok" "0 < nt_event_batch net"
    and "\<not> asks_again hdr" "send_inv net" "0 \<le> nt_client_fd net"
  shows "log_of (handle_history_request env net hdr) = log_of net
    \<or> (\<exists>pending p. history_answer env net hdr (take (nat (history_max net hdr)) (log_of net)) pending = Some p
        \<and> sent_from (net_stream net @ p) (nt_client_fd net) (handle_history_request env net hdr)
        \<and> log_of (handle_history_request env net hdr) = drop (nat (history_max net hdr)) (log_of net))"
proof (rule history_outcomes [OF assms])
  fix ev'
  assume "nt_events (handle_history_request env net hdr) = Some ev'" "pending_list ev' = pending_list ev"
  then show ?thesis using assms(1) by (simp add: log_of_def)
next
  fix pending p
  assume "history_answer env net hdr (take (nat (history_max net hdr)) (pending_list ev)) pending = Some p"
    "nt_events (handle_history_request env net hdr) =
       Some (snd (poll_once feed_fetch feed_ack (nat (history_max net hdr)) ev))"
    "sent_from (net_stream net @ p) (nt_client_fd net) (handle_history_request env net hdr)"
  then show ?thesis using assms(1) poll_once_ev [OF assms(2)] by (auto simp: log_of_def)
qed

lemma demo_log: "log_of (demo_net outs) = [demo_event 4 100, demo_event 5 200]"
  "nt_events (demo_net outs) = Some (demo_store 2)" "nt_event_batch (demo_net outs) = 200"
  "ne_ev_ok demo_env = all_ok" "\<not> asks_again (demo_hdr 6 2 1)" "history_max (demo_net outs) (demo_hdr 6 2 1) = 100"
  by (simp_all add: log_of_def demo_net_def pending_list_def demo_simps demo_env_def asks_again_def demo_hdr_def
      history_max_def)

lemma demo_taking: "taking 1 (demo_net [Takes 36724])" "ids_ok (demo_store 2)"
  "length (src_addr (demo_hdr cmd sub obj)) = 5"
  by (simp_all add: taking_def demo_net_def ids_ok_def pending_list_def demo_simps demo_hdr_def)

lemma demo_drained: "log_of (handle_history_request demo_env (demo_net [Takes 36724]) (demo_hdr 6 2 1)) = []"
  using history_polls_taken [OF demo_log(4,5) demo_taking(3) demo_log(2) demo_inv demo_taking(2) _ demo_taking(1)]
    demo_log(1) [of "[Takes 36724]"]
  by (simp add: demo_log log_of_def)

theorem history_never_loses_witness:
  "log_of (handle_history_request demo_env (demo_net [Send_error]) (demo_hdr 6 2 1)) = [demo_event 4 100, demo_event 5 200]
   \<or> log_of (handle_history_request demo_env (demo_net [Send_error]) (demo_hdr 6 2 1)) = []"
  using history_never_loses [OF demo_log(2) demo_inv demo_log(4) _ demo_log(5) demo_net_ok(1), of "[Send_error]"]
  by (auto simp: demo_log demo_net_ok(3))





end
