(* ===== verification/Net_Serve.thy ===== *)
theory Net_Serve
  imports Net
begin

text \<open>
  Serving requests over an unbroken connection. First the invariant of the connection
  (\<open>conn_ok\<close>), kept by every handler whatever the databases do; then the receive loop: it ends,
  stays inside its buffer, leaves room for the next bytes, and how the network cuts the byte
  stream into pieces makes no difference to what the requests do.
\<close>

section \<open>The connection invariant\<close>

fun goes_on :: "send_outcome \<Rightarrow> bool" where
  "goes_on (Takes k) = (0 < k)"
| "goes_on Would_block = True"
| "goes_on Send_error = False"

definition conn_ok :: "acu_net \<Rightarrow> bool" where
  "conn_ok net \<longleftrightarrow> send_inv net \<and> read_watched net \<and> 0 \<le> nt_client_fd net
     \<and> list_all goes_on (kn_sends net) \<and> length (nt_recv_buf net) = NET_RECV_BUF_CAP"

definition same_conn :: "acu_net \<Rightarrow> acu_net \<Rightarrow> bool" where
  "same_conn net net' \<longleftrightarrow> nt_client_fd net' = nt_client_fd net \<and> nt_recv_len net' = nt_recv_len net
     \<and> nt_recv_buf net' = nt_recv_buf net \<and> nt_listen_fd net' = nt_listen_fd net \<and> nt_loop net' = nt_loop net"

text \<open>A transfer in progress always has room in its record buffer, so its loop ends.\<close>

definition ub_ok :: "acu_net \<Rightarrow> bool" where
  "ub_ok net \<longleftrightarrow> (case nt_userbin net of None \<Rightarrow> True | Some ub \<Rightarrow> ub_active ub \<longrightarrow> rec_fits ub)"

definition served :: "acu_net \<Rightarrow> acu_net \<Rightarrow> bool" where
  "served net net' \<longleftrightarrow> conn_ok net' \<and> ub_ok net' \<and> same_conn net net'"

lemma served_refl: "conn_ok net \<Longrightarrow> ub_ok net \<Longrightarrow> served net net"
  by (simp add: served_def same_conn_def)

lemma served_trans: "served net net1 \<Longrightarrow> served net1 net2 \<Longrightarrow> served net net2"
  by (simp add: served_def same_conn_def)

lemma conn_ok_upd [simp]:
  "conn_ok (net\<lparr> nt_events := a \<rparr>) = conn_ok net"
  "conn_ok (net\<lparr> nt_last_batch_first_seq := b \<rparr>) = conn_ok net"
  "conn_ok (net\<lparr> nt_userbin := c \<rparr>) = conn_ok net"
  "conn_ok (net\<lparr> nt_users := d \<rparr>) = conn_ok net"
  "conn_ok (net\<lparr> nt_force_open := e \<rparr>) = conn_ok net"
  "conn_ok (net\<lparr> nt_settings_db := f \<rparr>) = conn_ok net"
  "conn_ok (net\<lparr> kn_calls := g \<rparr>) = conn_ok net"
  "conn_ok (net\<lparr> kn_clock := h \<rparr>) = conn_ok net"
  "conn_ok (net\<lparr> nt_last_activity := i \<rparr>) = conn_ok net"
  "conn_ok (net\<lparr> nt_recv_len := j \<rparr>) = conn_ok net"
  by (simp_all add: conn_ok_def send_inv_def read_watched_def)

lemma ub_ok_upd [simp]:
  "ub_ok (net\<lparr> nt_events := a \<rparr>) = ub_ok net"
  "ub_ok (net\<lparr> nt_last_batch_first_seq := b \<rparr>) = ub_ok net"
  "ub_ok (net\<lparr> nt_users := d \<rparr>) = ub_ok net"
  "ub_ok (net\<lparr> nt_force_open := e \<rparr>) = ub_ok net"
  "ub_ok (net\<lparr> nt_settings_db := f \<rparr>) = ub_ok net"
  "ub_ok (net\<lparr> kn_calls := g \<rparr>) = ub_ok net"
  "ub_ok (net\<lparr> kn_clock := h \<rparr>) = ub_ok net"
  "ub_ok (net\<lparr> nt_last_activity := i \<rparr>) = ub_ok net"
  "ub_ok (net\<lparr> nt_recv_len := j \<rparr>) = ub_ok net"
  "ub_ok (net\<lparr> nt_recv_buf := k \<rparr>) = ub_ok net"
  by (simp_all add: ub_ok_def)

lemma same_conn_upd [simp]:
  "same_conn net (net'\<lparr> nt_events := a \<rparr>) = same_conn net net'"
  "same_conn net (net'\<lparr> nt_last_batch_first_seq := b \<rparr>) = same_conn net net'"
  "same_conn net (net'\<lparr> nt_userbin := c \<rparr>) = same_conn net net'"
  "same_conn net (net'\<lparr> nt_users := d \<rparr>) = same_conn net net'"
  "same_conn net (net'\<lparr> nt_force_open := e \<rparr>) = same_conn net net'"
  "same_conn net (net'\<lparr> nt_settings_db := f \<rparr>) = same_conn net net'"
  "same_conn net (net'\<lparr> kn_calls := g \<rparr>) = same_conn net net'"
  "same_conn net (net'\<lparr> kn_clock := h \<rparr>) = same_conn net net'"
  by (simp_all add: same_conn_def)

text \<open>A client watched for reading is not touched by watching it for reading.\<close>

lemma watched_mod: "read_watched net \<Longrightarrow> loop_mod (nt_loop net) (nt_client_fd net) ACU_LOOP_READ = Some (nt_loop net)"
proof -
  assume "read_watched net"
  then obtain i where i: "find_entry (nt_loop net) (nt_client_fd net) = Some i"
    "le_events (nt_loop net ! i) = ACU_LOOP_READ"
    by (auto simp: read_watched_def loop_lookup_def)
  then have "(nt_loop net ! i)\<lparr> le_events := ACU_LOOP_READ \<rparr> = nt_loop net ! i"
    by (intro loop_entry.equality) simp_all
  then show ?thesis by (simp add: loop_mod_def i(1))
qed

lemma flush_loop_kept:
  "list_all goes_on outs \<Longrightarrow>
   same_conn net (snd (flush_loop env outs net)) \<and> list_all goes_on (kn_sends (snd (flush_loop env outs net)))
     \<and> nt_userbin (snd (flush_loop env outs net)) = nt_userbin net"
proof (induction env outs net rule: flush_loop.induct)
  case (1 env outs net)
  from 1(2) show ?case
    apply (subst (1 2 3) flush_loop.simps)
    using 1(1) by (auto simp: Let_def same_conn_def split: list.splits send_outcome.splits)
qed

lemma flush_kept:
  assumes "conn_ok net" "ub_ok net"
  shows "served net (net_flush_send env net)"
proof -
  obtain b net1 where fl: "flush_loop env (kn_sends net) net = (b, net1)" by fastforce
  have k: "same_conn net net1" "list_all goes_on (kn_sends net1)" "nt_userbin net1 = nt_userbin net"
    using flush_loop_kept [of "kn_sends net" net env] assms(1) by (simp_all add: fl conn_ok_def)
  have "length (nt_send_buf net1) \<le> nt_send_off net1" if b
    using flush_loop_done [of env "kn_sends net" net net1] that fl k(1) assms(1)
    by (simp add: same_conn_def conn_ok_def)
  with k have c: "same_conn net (net_flush_send env net)" "list_all goes_on (kn_sends (net_flush_send env net))"
    "nt_userbin (net_flush_send env net) = nt_userbin net"
    using watched_mod [of net] assms(1)
    by (auto simp: net_flush_send_def fl same_conn_def conn_ok_def Let_def)
  then have fd: "0 \<le> nt_client_fd (net_flush_send env net)" using assms(1) by (simp add: same_conn_def conn_ok_def)
  then have "send_inv (net_flush_send env net)"
    using flush_sent [of net env] assms(1) by (auto simp: sent_from_def conn_ok_def)
  moreover have "read_watched (net_flush_send env net)"
    by (rule read_watched_flush) (use assms(1) fd in \<open>auto simp: conn_ok_def\<close>)
  ultimately show ?thesis
    using c fd assms by (simp add: served_def conn_ok_def ub_ok_def same_conn_def)
qed

lemma queue_kept:
  assumes ok: "conn_ok net" "ub_ok net"
  shows "served net (snd (net_queue_send env net data))"
proof -
  define net1 where "net1 = (if nt_send_off net > 0
    then net\<lparr> nt_send_buf := drop (nt_send_off net) (nt_send_buf net), nt_send_off := 0 \<rparr> else net)"
  have s1: "served net net1"
    using ok by (auto simp: net1_def served_def conn_ok_def same_conn_def ub_ok_def send_inv_def read_watched_def)
  have off: "nt_send_off net1 = 0" by (simp add: net1_def)
  show ?thesis
  proof (cases "length (nt_send_buf net1) + length data > NET_SEND_BUF_CAP")
    case True
    then show ?thesis using ok s1 by (simp add: net_queue_send_def net1_def [symmetric] Let_def conn_ok_def)
  next
    case False
    let ?net2 = "net1\<lparr> nt_send_buf := nt_send_buf net1 @ data \<rparr>"
    have s2: "served net ?net2"
      using s1 False off by (auto simp: served_def conn_ok_def same_conn_def ub_ok_def send_inv_def read_watched_def)
    then have "served ?net2 (net_flush_send env ?net2)" by (intro flush_kept) (simp_all add: served_def)
    with False ok s2 show ?thesis
      by (auto simp: net_queue_send_def net1_def [symmetric] Let_def conn_ok_def intro: served_trans)
  qed
qed

lemma response_kept [keeps_inv]:
  "conn_ok net \<Longrightarrow> ub_ok net \<Longrightarrow> served net (snd (send_response env net hdr cmd sub obj data a b c d))"
  by (auto simp: send_response_def served_refl queue_kept split: option.splits)

lemma same_conn_refl [simp]: "same_conn net net"
  by (simp add: same_conn_def)

text \<open>A state that differs from \<open>net\<close> in objects only may be served in its place.\<close>

lemma response_kept_from:
  "conn_ok net0 \<Longrightarrow> ub_ok net0 \<Longrightarrow> same_conn net net0 \<Longrightarrow>
   served net (snd (send_response env net0 hdr cmd sub obj data a b c d))"
  using response_kept [of net0] by (simp add: served_def same_conn_def)

lemma ack_kept_from:
  "conn_ok net0 \<Longrightarrow> ub_ok net0 \<Longrightarrow> same_conn net net0 \<Longrightarrow> served net (send_ack env net0 hdr ack)"
  by (simp add: send_ack_def response_kept_from)

lemma store_event_kept [simp]:
  "conn_ok (net_store_event env net code m i s a r) = conn_ok net"
  "ub_ok (net_store_event env net code m i s a r) = ub_ok net"
  "same_conn net0 (net_store_event env net code m i s a r) = same_conn net0 net"
  by (simp_all add: net_store_event_def split: option.splits)

lemma push_system_event_kept [simp]:
  "conn_ok (net_push_system_event env net code a r) = conn_ok net"
  "ub_ok (net_push_system_event env net code a r) = ub_ok net"
  "same_conn net0 (net_push_system_event env net code a r) = same_conn net0 net"
  by (simp_all add: net_push_system_event_def)

lemma force_open_kept [simp]:
  "conn_ok (net_apply_force_open env net on) = conn_ok net"
  "ub_ok (net_apply_force_open env net on) = ub_ok net"
  "same_conn net0 (net_apply_force_open env net on) = same_conn net0 net"
  by (simp_all add: net_apply_force_open_def Let_def)

lemma time_sync_kept [simp]:
  "conn_ok (apply_time_sync env net data) = conn_ok net"
  "ub_ok (apply_time_sync env net data) = ub_ok net"
  "same_conn net0 (apply_time_sync env net data) = same_conn net0 net"
  by (simp_all add: apply_time_sync_def Let_def split: option.splits)

section \<open>The transfer keeps its record buffer usable\<close>

definition ub_fine :: "user_bin \<Rightarrow> bool" where
  "ub_fine ub \<longleftrightarrow> (ub_active ub \<longrightarrow> rec_fits ub)"

lemma ub_ok_userbin [simp]: "ub_ok (net\<lparr> nt_userbin := Some ub \<rparr>) = ub_fine ub"
  by (simp add: ub_ok_def ub_fine_def)

lemma ub_ok_Some: "ub_ok net \<Longrightarrow> nt_userbin net = Some ub \<Longrightarrow> ub_fine ub"
  by (simp add: ub_ok_def ub_fine_def)

lemma start_fine: "ub_fine ub \<Longrightarrow> userbin_start ok ub u ts tc obj = (r, ub', u') \<Longrightarrow> ub_fine ub'"
  by (auto simp: userbin_start_def userbin_abort_def ub_fine_def rec_fits_def Let_def
      split: if_splits prod.splits bool.splits)

lemma receive_start_fine: "ub_fine ub \<Longrightarrow> ub_fine (snd (userbin_receive_start ok ub u obj))"
  by (auto simp: userbin_receive_start_def ub_fine_def rec_fits_def Let_def)

lemma receive_chunk_fine: "ub_fine ub \<Longrightarrow> ub_fine (snd (userbin_receive_chunk ok ub u index cap))"
  by (auto simp: userbin_receive_chunk_def ub_fine_def rec_fits_def Let_def split: option.splits)

lemma continue_returns:
  assumes "ub_fine ub"
  obtains st ub' u' where "userbin_continue ok ub u index data = Some (st, ub', u')" "ub_fine ub'"
proof (cases "ub_active ub")
  case False
  then show ?thesis using assms by (intro that [of USERBIN_FAILED ub u]) (simp_all add: userbin_continue_def)
next
  case True
  with assms have fits: "rec_fits ub" by (simp add: ub_fine_def)
  obtain ub1 u1 where c: "consume_bytes ok (ub, u) data = Some (ub1, u1)" "rec_fits ub1"
    using consume_foldl [of "(ub, u)" ok data] push_bytes_fits [of "(ub, u)" ok data] fits
    by (cases "foldl (push_byte ok) (ub, u) data") auto
  have "\<exists>st ub' u'. userbin_continue ok ub u index data = Some (st, ub', u') \<and> ub_fine ub'"
    unfolding userbin_continue_def using assms c
    by (auto simp: userbin_finish_def ub_fine_def rec_fits_def Let_def split: prod.splits)
  then show ?thesis using that by blast
qed

section \<open>Every handler keeps the connection\<close>

lemma history_kept: "conn_ok net \<Longrightarrow> ub_ok net \<Longrightarrow> served net (handle_history_request env net hdr)"
proof -
  assume ok: "conn_ok net" "ub_ok net"
  obtain batch pend net2 where b: "history_batch env (history_rewind env net hdr) (history_max net hdr) = (batch, pend, net2)"
    using prod_cases3 by blast
  have "conn_ok net2 \<and> ub_ok net2 \<and> same_conn net net2"
    using b ok by (auto simp: history_batch_def history_rewind_def Let_def split: option.splits prod.splits if_splits)
  then have "served net (snd (send_response env net2 hdr 5 2 1 (concat (map (build_event_info env) batch))
      (if 0 < length batch then 1 else 0) (of_nat (length batch))
      (word_of_int (if pend > 0xFFFF then 0xFFFF else pend)) (if 0 < length batch then of_nat 36 else 0)))"
    by (intro response_kept_from) auto
  then show ?thesis
    unfolding handle_history_request_def b Let_def prod.case
    by (auto simp: served_def split: prod.splits)
qed

lemma firmware_kept: "conn_ok net \<Longrightarrow> ub_ok net \<Longrightarrow> served net (handle_firmware_request env net hdr)"
  by (simp add: handle_firmware_request_def response_kept)

lemma lcd_kept: "conn_ok net \<Longrightarrow> ub_ok net \<Longrightarrow> served net (snd (handle_lcd_request env net hdr))"
  by (simp add: handle_lcd_request_def Let_def response_kept served_refl)

lemma userbin_send_kept: "conn_ok net \<Longrightarrow> ub_ok net \<Longrightarrow> served net (handle_userbin_send env net hdr pkt is_start)"
proof (cases "nt_userbin net")
  case None
  moreover assume "conn_ok net" "ub_ok net"
  ultimately show ?thesis by (simp add: handle_userbin_send_def ack_kept_from)
next
  case (Some ub)
  assume ok: "conn_ok net" "ub_ok net"
  note fine = ub_ok_Some [OF ok(2) Some]
  show ?thesis
  proof (cases is_start)
    case True
    let ?obj = "if length (frame_data hdr pkt) \<ge> 1 then frame_data hdr pkt ! 0 else IDTI_USERBIN_OBJ_INFO"
    obtain r ub' where s: "userbin_receive_start (ne_us_ok env) ub (nt_users net) ?obj = (r, ub')" by fastforce
    from receive_start_fine [OF fine, of "ne_us_ok env" "nt_users net" ?obj] have "ub_fine ub'" unfolding s by simp
    with True Some s ok show ?thesis
      unfolding handle_userbin_send_def Let_def
      by (auto intro!: ack_kept_from response_kept_from split: option.splits)
  next
    case False
    obtain r ub' where s: "userbin_receive_chunk (ne_us_ok env) ub (nt_users net) (be16 (frame_data hdr pkt)) 14464
        = (r, ub')" by fastforce
    from receive_chunk_fine [OF fine, of "ne_us_ok env" "nt_users net" "be16 (frame_data hdr pkt)" 14464]
    have "ub_fine ub'" unfolding s by simp
    with False Some s ok show ?thesis
      unfolding handle_userbin_send_def Let_def
      by (auto intro!: ack_kept_from response_kept_from split: option.splits)
  qed
qed

lemma userbin_write_kept:
  assumes ok: "conn_ok net" "ub_ok net"
  obtains ack net1 where "userbin_write env net data is_start = Some (ack, net1)"
    "conn_ok net1" "ub_ok net1" "same_conn net net1"
proof (cases "nt_userbin net")
  case None
  then show ?thesis using ok by (intro that [of IDTI_ACK_FAIL net]) (simp_all add: userbin_write_def)
next
  case (Some ub)
  note fine = ub_ok_Some [OF ok(2) Some]
  obtain r ub1 u1 where st: "userbin_start (ne_us_ok env) ub (nt_users net) (be32 data) (be32 (drop 4 data)) (data ! 8)
      = (r, ub1, u1)" using prod_cases3 by blast
  obtain s ub2 u2 where co: "userbin_continue (ne_us_ok env) ub (nt_users net) (be16 data) (drop 2 data)
      = Some (s, ub2, u2)" "ub_fine ub2" by (rule continue_returns [OF fine])
  have "\<exists>ack net1. userbin_write env net data is_start = Some (ack, net1)
      \<and> conn_ok net1 \<and> ub_ok net1 \<and> same_conn net net1"
    using ok st co start_fine [OF fine st] by (simp add: userbin_write_def Some Let_def)
  then show ?thesis using that by blast
qed

lemma userbin_request_kept:
  assumes ok: "conn_ok net" "ub_ok net"
  obtains b net1 where "handle_userbin_request env net hdr pkt = Some (b, net1)" "served net net1"
proof -
  obtain ack net1 where w: "userbin_write env net (frame_data hdr pkt) (object hdr = IDTI_OBJ_USERBIN_START) = Some (ack, net1)"
    "conn_ok net1" "ub_ok net1" "same_conn net net1" by (rule userbin_write_kept [OF ok])
  have "\<exists>b net1. handle_userbin_request env net hdr pkt = Some (b, net1) \<and> served net net1"
    unfolding handle_userbin_request_def Let_def w(1)
    using userbin_send_kept [OF ok] served_refl [OF ok] ack_kept_from [OF w(2-4)] by auto
  then show ?thesis using that by blast
qed

lemma usercmd_request_kept: "conn_ok net \<Longrightarrow> ub_ok net \<Longrightarrow> served net (snd (handle_usercmd_request env net hdr pkt))"
  by (auto simp: handle_usercmd_request_def Let_def served_refl intro!: ack_kept_from response_kept_from
      split: prod.splits usercmd_status.splits)

lemma force_open_request_kept:
  "conn_ok net \<Longrightarrow> ub_ok net \<Longrightarrow> served net (snd (handle_force_open_request env net hdr pkt))"
  by (auto simp: handle_force_open_request_def Let_def served_refl intro!: ack_kept_from response_kept_from)

lemma setting_acks_kept:
  "conn_ok net0 \<Longrightarrow> ub_ok net0 \<Longrightarrow> same_conn net net0 \<Longrightarrow> served net (send_result_ack env net0 hdr v)"
  "conn_ok net0 \<Longrightarrow> ub_ok net0 \<Longrightarrow> same_conn net net0 \<Longrightarrow> served net (send_fail_ack env net0 hdr)"
  "conn_ok net0 \<Longrightarrow> ub_ok net0 \<Longrightarrow> same_conn net net0 \<Longrightarrow> served net (send_setting_response env net0 hdr data)"
  by (simp_all add: send_result_ack_def send_fail_ack_def send_setting_response_def response_kept_from)

lemma setting_read_kept: "conn_ok net \<Longrightarrow> ub_ok net \<Longrightarrow> served net (snd (handle_setting_read env net hdr))"
  by (auto simp: handle_setting_read_def served_refl intro!: setting_acks_kept split: option.splits)

lemma setting_write_kept: "conn_ok net \<Longrightarrow> ub_ok net \<Longrightarrow> served net (snd (handle_setting_write env net hdr pkt))"
proof -
  assume ok: "conn_ok net" "ub_ok net"
  have ack: "served net (send_result_ack env (net\<lparr> nt_settings_db := db \<rparr>) hdr v)" for db v
    using ok by (intro setting_acks_kept) simp_all
  have nak: "served net (send_result_ack env net hdr v)" for v
    using ok by (intro setting_acks_kept) simp_all
  show ?thesis
    using ack nak served_refl [OF ok]
    by (auto simp: handle_setting_write_def Let_def served_def split: option.splits)
qed

lemma event_store_request_kept:
  "conn_ok net \<Longrightarrow> ub_ok net \<Longrightarrow> served net (snd (handle_event_store_request env net hdr pkt))"
proof -
  assume ok: "conn_ok net" "ub_ok net"
  obtain ack net1 where i: "event_index_change env net hdr (frame_data hdr pkt) = (ack, net1)" by fastforce
  then have "conn_ok net1 \<and> ub_ok net1 \<and> same_conn net net1"
    using ok by (auto simp: event_index_change_def Let_def split: option.splits if_splits prod.splits)
  then show ?thesis
    using ok i by (auto simp: handle_event_store_request_def Let_def served_refl
        intro!: ack_kept_from response_kept_from split: option.splits prod.splits)
qed

text \<open>The whole dispatch: it returns, and the connection is as before.\<close>

lemma request_kept:
  assumes ok: "conn_ok net" "ub_ok net"
  obtains net' where "handle_request env net hdr pkt = Some net'" "served net net'"
proof -
  define net0 where "net0 = (if frame_option hdr AND IDTI_FOPT_TIME_SYNC \<noteq> 0
    then apply_time_sync env net (frame_data hdr pkt) else net)"
  have s0: "served net net0" and ok0: "conn_ok net0" "ub_ok net0"
    using ok by (simp_all add: net0_def served_def)
  have chain: "served net c" if "served net b" "conn_ok b \<Longrightarrow> ub_ok b \<Longrightarrow> served b c" for b c
    using that served_trans by (auto simp: served_def)
  obtain b1 net1 where h1: "handle_userbin_request env net0 hdr pkt = Some (b1, net1)" "served net0 net1"
    by (rule userbin_request_kept [OF ok0])
  obtain b2 net2 where h2: "handle_usercmd_request env net1 hdr pkt = (b2, net2)" by fastforce
  obtain b3 net3 where h3: "handle_force_open_request env net2 hdr pkt = (b3, net3)" by fastforce
  obtain b4 net4 where h4: "handle_setting_read env net3 hdr = (b4, net4)" by fastforce
  obtain b5 net5 where h5: "handle_setting_write env net4 hdr pkt = (b5, net5)" by fastforce
  obtain b6 net6 where h6: "handle_event_store_request env net5 hdr pkt = (b6, net6)" by fastforce
  obtain b7 net7 where h7: "handle_lcd_request env net6 hdr = (b7, net7)" by fastforce
  have s1: "served net net1" using served_trans [OF s0 h1(2)] .
  have s2: "served net net2" using chain [OF s1, of net2] usercmd_request_kept [of net1 env hdr pkt] h2 by simp
  have s3: "served net net3" using chain [OF s2, of net3] force_open_request_kept [of net2 env hdr pkt] h3 by simp
  have s4: "served net net4" using chain [OF s3, of net4] setting_read_kept [of net3 env hdr] h4 by simp
  have s5: "served net net5" using chain [OF s4, of net5] setting_write_kept [of net4 env hdr pkt] h5 by simp
  have s6: "served net net6" using chain [OF s5, of net6] event_store_request_kept [of net5 env hdr pkt] h6 by simp
  have s7: "served net net7" using chain [OF s6, of net7] lcd_kept [of net6 env hdr] h7 by simp
  have s8: "served net (send_ack env net7 hdr IDTI_ACK_FAIL)"
    by (rule ack_kept_from) (use s7 in \<open>auto simp: served_def\<close>)
  have hist: "served net (handle_history_request env net0 hdr)" "served net (handle_firmware_request env net0 hdr)"
    using served_trans [OF s0] history_kept [OF ok0] firmware_kept [OF ok0] by blast+
  have "\<exists>net'. handle_request env net hdr pkt = Some net' \<and> served net net'"
    unfolding handle_request_def net0_def [symmetric] Let_def
    using s1 s2 s3 s4 s5 s6 s7 s8 hist h1(1) h2 h3 h4 h5 h6 h7 by (auto split: bool.splits)
  then show ?thesis using that by blast
qed

section \<open>The receive loop\<close>

lemma avail_inside: "consumed \<le> nt_recv_len net \<Longrightarrow> nt_recv_len net \<le> NET_RECV_BUF_CAP \<Longrightarrow>
    avail_bytes net consumed = nt_recv_len net - consumed"
  by (simp add: avail_bytes_def of_nat_diff [symmetric] del: of_nat_diff)

lemma frame_loop_done:
  "conn_ok net \<Longrightarrow> ub_ok net \<Longrightarrow> consumed \<le> nt_recv_len net \<Longrightarrow> nt_recv_len net \<le> NET_RECV_BUF_CAP \<Longrightarrow>
   \<exists>net' c. frame_loop env net consumed = Done (net', c) \<and> served net net'
     \<and> c \<le> nt_recv_len net \<and> nt_recv_len net - c \<le> 65534"
proof (induction env net consumed rule: frame_loop.induct)
  case (1 env net consumed)
  note IH = 1(1) and ok = 1(2,3) and le = 1(4,5)
  let ?n = "nt_recv_len net - consumed" and ?pkt = "drop consumed (nt_recv_buf net)"
  have av: "avail_bytes net consumed = ?n" by (rule avail_inside [OF le])
  show ?case
  proof (cases "?n < 44")
    case True
    then show ?thesis using av le served_refl [OF ok] by (subst frame_loop.simps) simp
  next
    case False
    then have inside: "\<not> consumed + 44 > NET_RECV_BUF_CAP" using le by simp
    show ?thesis
    proof (cases "idti_header_parse (take ?n ?pkt)")
      case None
      then show ?thesis using av False inside served_refl [OF ok] by (subst frame_loop.simps) simp
    next
      case (Some hdr)
      have pl: "unat (packet_length hdr) < 65536" by (rule unat_u16_bound)
      show ?thesis
      proof (cases "?n < unat (packet_length hdr)")
        case True
        then show ?thesis using av False inside Some le pl served_refl [OF ok] by (subst frame_loop.simps) simp
      next
        case False2: False
        let ?c = "consumed + unat (packet_length hdr)"
        have c: "?c \<le> nt_recv_len net" "\<not> ?c > NET_RECV_BUF_CAP" using False2 le by simp_all
        obtain net1 where h: "handle_request env net hdr ?pkt = Some net1" "served net net1"
          by (rule request_kept [OF ok])
        have s1: "conn_ok net1" "ub_ok net1" "nt_recv_len net1 = nt_recv_len net"
          using h(2) by (auto simp: served_def same_conn_def)
        have "\<exists>net' d. frame_loop env net1 ?c = Done (net', d) \<and> served net1 net'
            \<and> d \<le> nt_recv_len net1 \<and> nt_recv_len net1 - d \<le> 65534"
          using IH [of ?pkt hdr net1] False False2 inside Some av c h s1 le by simp
        then show ?thesis
          using av False False2 inside Some c h s1 served_trans [OF h(2)]
          by (subst frame_loop.simps) auto
      qed
    qed
  qed
qed

text \<open>Between two callbacks there is room for at least two more bytes.\<close>

definition idle_ok :: "acu_net \<Rightarrow> bool" where
  "idle_ok net \<longleftrightarrow> conn_ok net \<and> ub_ok net \<and> nt_recv_len net \<le> 65534"

lemma conn_ok_recv_buf:
  "conn_ok net \<Longrightarrow> length b = NET_RECV_BUF_CAP \<Longrightarrow> conn_ok (net\<lparr> nt_recv_buf := b \<rparr>)"
  by (simp add: conn_ok_def send_inv_def read_watched_def)

lemma shift_kept:
  assumes "conn_ok net" "ub_ok net" "c \<le> nt_recv_len net" "nt_recv_len net - c \<le> 65534"
    "nt_recv_len net \<le> NET_RECV_BUF_CAP"
  shows "idle_ok (shift_buffer net c)" "nt_client_fd (shift_buffer net c) = nt_client_fd net"
    "nt_loop (shift_buffer net c) = nt_loop net" "nt_listen_fd (shift_buffer net c) = nt_listen_fd net"
proof -
  have "length (nt_recv_buf net) = NET_RECV_BUF_CAP" using assms(1) by (simp add: conn_ok_def)
  then have "length (blit 0 (slice c (nt_recv_len net - c) (nt_recv_buf net)) (nt_recv_buf net)) = NET_RECV_BUF_CAP"
    using assms(3,5) by simp
  with assms show "idle_ok (shift_buffer net c)"
    by (auto simp: shift_buffer_def idle_ok_def conn_ok_recv_buf)
  show "nt_client_fd (shift_buffer net c) = nt_client_fd net" "nt_loop (shift_buffer net c) = nt_loop net"
    "nt_listen_fd (shift_buffer net c) = nt_listen_fd net"
    by (simp_all add: shift_buffer_def)
qed

lemma client_ready_kept:
  assumes ok: "idle_ok net" and bs: "bs \<noteq> []" and ev: "events AND ACU_LOOP_READ \<noteq> 0"
  shows "\<exists>net'. net_on_client_ready env (Receives bs) events net = Done net' \<and> idle_ok net'
    \<and> nt_client_fd net' = nt_client_fd net \<and> nt_loop net' = nt_loop net \<and> nt_listen_fd net' = nt_listen_fd net"
proof -
  define net0 where "net0 = (if events AND ACU_LOOP_WRITE \<noteq> 0 then net_flush_send env net else net)"
  have "served net net0"
    using ok flush_kept [of net env] served_refl [of net] by (simp add: net0_def idle_ok_def)
  then have ok0: "conn_ok net0" "ub_ok net0" and same: "nt_client_fd net0 = nt_client_fd net"
    "nt_recv_len net0 = nt_recv_len net" "nt_loop net0 = nt_loop net" "nt_listen_fd net0 = nt_listen_fd net"
    by (auto simp: served_def same_conn_def)
  let ?k = "NET_RECV_BUF_CAP - nt_recv_len net0"
  define new where "new = take ?k bs"
  have room: "nt_recv_len net \<le> 65534" using ok by (simp add: idle_ok_def)
  have new: "new \<noteq> []" "nt_recv_len net0 + length new \<le> NET_RECV_BUF_CAP"
    using bs room same by (auto simp: new_def)
  define net1 where "net1 = net0\<lparr> nt_recv_buf := blit (nt_recv_len net0) new (nt_recv_buf net0),
    nt_recv_len := nt_recv_len net0 + length new, nt_last_activity := ne_monotonic env \<rparr>"
  have "length (nt_recv_buf net0) = NET_RECV_BUF_CAP" using ok0 by (simp add: conn_ok_def)
  then have ok1: "conn_ok net1" "ub_ok net1" using ok0 new(2) by (simp_all add: net1_def conn_ok_recv_buf)
  have n1: "nt_recv_len net1 \<le> NET_RECV_BUF_CAP" "nt_client_fd net1 = nt_client_fd net"
    "nt_loop net1 = nt_loop net" "nt_listen_fd net1 = nt_listen_fd net"
    using new(2) same by (simp_all add: net1_def)
  obtain net2 c where l: "frame_loop env net1 0 = Done (net2, c)" "served net1 net2"
    "c \<le> nt_recv_len net1" "nt_recv_len net1 - c \<le> 65534"
    using frame_loop_done [OF ok1 _ n1(1), of 0 env] by auto
  have s2: "conn_ok net2" "ub_ok net2" "nt_recv_len net2 = nt_recv_len net1" "nt_client_fd net2 = nt_client_fd net1"
    "nt_loop net2 = nt_loop net1" "nt_listen_fd net2 = nt_listen_fd net1"
    using l(2) by (auto simp: served_def same_conn_def)
  have fd0: "\<not> nt_client_fd net0 < 0" using ok0 by (simp add: conn_ok_def)
  have "net_on_client_ready env (Receives bs) events net = Done (shift_buffer net2 c)"
    unfolding net_on_client_ready_def net0_def [symmetric] Let_def recv_outcome.case new_def [symmetric]
      net1_def [symmetric] l(1) using ev fd0 new(1) by simp
  with shift_kept [OF s2(1,2)] s2 l(3,4) n1 show ?thesis by simp
qed

text \<open>An example.\<close>

lemma demo_idle: "list_all goes_on outs \<Longrightarrow> idle_ok (demo_net outs)"
  by (simp add: idle_ok_def conn_ok_def demo_net_ok ub_ok_def) (simp add: demo_net_def userbin_create_def)

end
