(* ===== verification/Net_Stream.thy ===== *)
theory Net_Stream
  imports Net_Serve
begin

text \<open>
  The byte stream of a connection and the requests in it. Requests depend on the receive buffer
  only through their own frame, and their effect does not depend on what the buffer holds; so
  serving the frames one by one (\<open>serve\<close>) is a specification of the receive callback, and
  \<open>feed_pieces\<close>, the callback run over any cutting of the stream, implements it.
\<close>

section \<open>Forgetting the receive side\<close>

definition strip :: "acu_net \<Rightarrow> acu_net" where
  "strip net = net\<lparr> nt_recv_buf := [], nt_recv_len := 0, nt_last_activity := 0 \<rparr>"

lemma strip_select [simp]:
  "nt_listen_fd (strip net) = nt_listen_fd net" "nt_client_fd (strip net) = nt_client_fd net"
  "nt_send_buf (strip net) = nt_send_buf net" "nt_send_off (strip net) = nt_send_off net"
  "nt_door_status (strip net) = nt_door_status net" "nt_events (strip net) = nt_events net"
  "nt_event_batch (strip net) = nt_event_batch net"
  "nt_last_batch_first_seq (strip net) = nt_last_batch_first_seq net"
  "nt_userbin (strip net) = nt_userbin net" "nt_users_set (strip net) = nt_users_set net"
  "nt_users (strip net) = nt_users net" "nt_force_open (strip net) = nt_force_open net"
  "nt_on_force_open (strip net) = nt_on_force_open net" "nt_settings_db (strip net) = nt_settings_db net"
  "nt_on_setting_changed (strip net) = nt_on_setting_changed net" "nt_loop (strip net) = nt_loop net"
  "nt_device_category (strip net) = nt_device_category net" "nt_device_type (strip net) = nt_device_type net"
  "nt_time_sync_enabled (strip net) = nt_time_sync_enabled net" "nt_layout (strip net) = nt_layout net"
  "kn_wire (strip net) = kn_wire net" "kn_sends (strip net) = kn_sends net" "kn_clock (strip net) = kn_clock net"
  "kn_closed (strip net) = kn_closed net" "kn_calls (strip net) = kn_calls net"
  by (simp_all add: strip_def)

lemma strip_update [simp]:
  "strip net\<lparr> nt_client_fd := a1 \<rparr> = strip (net\<lparr> nt_client_fd := a1 \<rparr>)"
  "strip net\<lparr> nt_send_buf := a2 \<rparr> = strip (net\<lparr> nt_send_buf := a2 \<rparr>)"
  "strip net\<lparr> nt_send_off := a3 \<rparr> = strip (net\<lparr> nt_send_off := a3 \<rparr>)"
  "strip net\<lparr> nt_events := a4 \<rparr> = strip (net\<lparr> nt_events := a4 \<rparr>)"
  "strip net\<lparr> nt_last_batch_first_seq := a5 \<rparr> = strip (net\<lparr> nt_last_batch_first_seq := a5 \<rparr>)"
  "strip net\<lparr> nt_userbin := a6 \<rparr> = strip (net\<lparr> nt_userbin := a6 \<rparr>)"
  "strip net\<lparr> nt_users := a7 \<rparr> = strip (net\<lparr> nt_users := a7 \<rparr>)"
  "strip net\<lparr> nt_force_open := a8 \<rparr> = strip (net\<lparr> nt_force_open := a8 \<rparr>)"
  "strip net\<lparr> nt_settings_db := a9 \<rparr> = strip (net\<lparr> nt_settings_db := a9 \<rparr>)"
  "strip net\<lparr> nt_loop := b1 \<rparr> = strip (net\<lparr> nt_loop := b1 \<rparr>)"
  "strip net\<lparr> kn_wire := b2 \<rparr> = strip (net\<lparr> kn_wire := b2 \<rparr>)"
  "strip net\<lparr> kn_sends := b3 \<rparr> = strip (net\<lparr> kn_sends := b3 \<rparr>)"
  "strip net\<lparr> kn_clock := b4 \<rparr> = strip (net\<lparr> kn_clock := b4 \<rparr>)"
  "strip net\<lparr> kn_closed := b5 \<rparr> = strip (net\<lparr> kn_closed := b5 \<rparr>)"
  "strip net\<lparr> kn_calls := b6 \<rparr> = strip (net\<lparr> kn_calls := b6 \<rparr>)"
  "strip net\<lparr> nt_recv_len := 0 \<rparr> = strip (net\<lparr> nt_recv_len := 0 \<rparr>)"
  by (simp_all add: strip_def)

lemma strip_drop [simp]: "net_drop_client env (strip net) = strip (net_drop_client env net)"
  by (simp add: net_drop_client_def Let_def split: option.splits prod.splits)

lemma strip_flush_loop [simp]:
  "flush_loop env outs (strip net) = map_prod id strip (flush_loop env outs net)"
proof (induction env outs net rule: flush_loop.induct)
  case (1 env outs net)
  show ?case
    apply (subst (1 2) flush_loop.simps)
    using 1 by (auto simp: Let_def id_def split: list.splits send_outcome.splits)
qed

lemma strip_flush [simp]: "net_flush_send env (strip net) = strip (net_flush_send env net)"
  by (auto simp: net_flush_send_def Let_def split: prod.splits option.splits)

lemma strip_queue [simp]:
  "net_queue_send env (strip net) data = map_prod id strip (net_queue_send env net data)"
  by (simp add: net_queue_send_def Let_def)

lemma strip_packet [simp]:
  "response_packet env (strip net) hdr cmd sub obj data a b c d = response_packet env net hdr cmd sub obj data a b c d"
  by (simp add: response_packet_def response_payload_def)

lemma strip_response [simp]:
  "send_response env (strip net) hdr cmd sub obj data a b c d =
   map_prod id strip (send_response env net hdr cmd sub obj data a b c d)"
  by (simp add: send_response_def split: option.splits)

lemma strip_ack [simp]: "send_ack env (strip net) hdr v = strip (send_ack env net hdr v)"
  by (simp add: send_ack_def)

lemma strip_store_event [simp]:
  "net_store_event env (strip net) code m i s a r = strip (net_store_event env net code m i s a r)"
  by (simp add: net_store_event_def net_event_def split: option.splits)

lemma strip_system_event [simp]:
  "net_push_system_event env (strip net) code a r = strip (net_push_system_event env net code a r)"
  by (simp add: net_push_system_event_def)

lemma strip_force_open [simp]: "net_apply_force_open env (strip net) on = strip (net_apply_force_open env net on)"
  by (simp add: net_apply_force_open_def Let_def)

lemma strip_time_sync [simp]: "apply_time_sync env (strip net) data = strip (apply_time_sync env net data)"
  by (simp add: apply_time_sync_def Let_def split: option.splits)

section \<open>Every handler commutes with it\<close>

lemma strip_history [simp]: "handle_history_request env (strip net) hdr = strip (handle_history_request env net hdr)"
proof -
  have r: "history_rewind env (strip net) hdr = strip (history_rewind env net hdr)"
    by (simp add: history_rewind_def split: option.splits)
  have b: "history_batch env (strip n) mx = map_prod id (map_prod id strip) (history_batch env n mx)" for n mx
    by (simp add: history_batch_def Let_def split: option.splits prod.splits)
  have m: "history_max (strip net) hdr = history_max net hdr" by (simp add: history_max_def)
  obtain batch pend net2 where h: "history_batch env (history_rewind env net hdr) (history_max net hdr) = (batch, pend, net2)"
    using prod_cases3 by blast
  show ?thesis
    unfolding handle_history_request_def m r b h Let_def prod.case map_prod_simp id_apply strip_response
    by (auto split: prod.splits)
qed

lemma strip_firmware [simp]: "handle_firmware_request env (strip net) hdr = strip (handle_firmware_request env net hdr)"
  by (simp add: handle_firmware_request_def)

lemma strip_lcd [simp]: "handle_lcd_request env (strip net) hdr = map_prod id strip (handle_lcd_request env net hdr)"
  by (simp add: handle_lcd_request_def Let_def)

lemma strip_userbin_send [simp]:
  "handle_userbin_send env (strip net) hdr pkt st = strip (handle_userbin_send env net hdr pkt st)"
  by (simp add: handle_userbin_send_def Let_def split: option.splits prod.splits)

lemma strip_userbin_write [simp]:
  "userbin_write env (strip net) data st = map_option (map_prod id strip) (userbin_write env net data st)"
  by (auto simp: userbin_write_def Let_def split: option.splits prod.splits)

lemma strip_userbin_request [simp]:
  "handle_userbin_request env (strip net) hdr pkt = map_option (map_prod id strip) (handle_userbin_request env net hdr pkt)"
  by (auto simp: handle_userbin_request_def Let_def split: option.splits)

lemma strip_usercmd [simp]:
  "handle_usercmd_request env (strip net) hdr pkt = map_prod id strip (handle_usercmd_request env net hdr pkt)"
  by (simp add: handle_usercmd_request_def Let_def split: prod.splits usercmd_status.splits)

lemma strip_force_open_request [simp]:
  "handle_force_open_request env (strip net) hdr pkt = map_prod id strip (handle_force_open_request env net hdr pkt)"
  by (simp add: handle_force_open_request_def Let_def)

lemma strip_request_key [simp]: "request_key (strip net) hdr sp = request_key net hdr sp"
  unfolding request_key_def strip_select by (rule refl)

lemma strip_setting_answer [simp]: "setting_answer env (strip net) hdr sp = setting_answer env net hdr sp"
  unfolding setting_answer_def device_basis_def strip_request_key strip_select by (rule refl)

lemma strip_setting_store [simp]: "setting_store env (strip net) hdr d sp = setting_store env net hdr d sp"
  unfolding setting_store_def strip_request_key strip_select by (rule refl)

lemma strip_setting_acks [simp]:
  "send_result_ack env (strip net) hdr v = strip (send_result_ack env net hdr v)"
  "send_fail_ack env (strip net) hdr = strip (send_fail_ack env net hdr)"
  "send_setting_response env (strip net) hdr d = strip (send_setting_response env net hdr d)"
  by (simp_all add: send_result_ack_def send_fail_ack_def send_setting_response_def)

lemma strip_setting_read [simp]:
  "handle_setting_read env (strip net) hdr = map_prod id strip (handle_setting_read env net hdr)"
  by (simp add: handle_setting_read_def split: option.splits)

lemma strip_setting_write [simp]:
  "handle_setting_write env (strip net) hdr pkt = map_prod id strip (handle_setting_write env net hdr pkt)"
  by (simp add: handle_setting_write_def Let_def split: option.splits)

lemma strip_event_store [simp]:
  "handle_event_store_request env (strip net) hdr pkt = map_prod id strip (handle_event_store_request env net hdr pkt)"
proof -
  have i: "event_index_change env (strip net) hdr d = map_prod id strip (event_index_change env net hdr d)" for d
    by (simp add: event_index_change_def Let_def split: option.splits prod.splits)
  have c: "event_count_reply env (strip net) = event_count_reply env net" by (simp add: event_count_reply_def)
  show ?thesis
    by (simp add: handle_event_store_request_def i c Let_def split: option.splits prod.splits)
qed

lemma strip_request [simp]:
  "handle_request env (strip net) hdr pkt = map_option strip (handle_request env net hdr pkt)"
proof -
  define net0 where "net0 = (if frame_option hdr AND IDTI_FOPT_TIME_SYNC \<noteq> 0
    then apply_time_sync env net (frame_data hdr pkt) else net)"
  have s0: "(if frame_option hdr AND IDTI_FOPT_TIME_SYNC \<noteq> 0
    then apply_time_sync env (strip net) (frame_data hdr pkt) else strip net) = strip net0"
    by (simp add: net0_def)
  show ?thesis
  proof (cases "handle_userbin_request env net0 hdr pkt")
    case None
    then show ?thesis
      unfolding handle_request_def s0 net0_def [symmetric] Let_def strip_userbin_request by simp
  next
    case (Some r1)
    obtain b1 net1 where h1: "r1 = (b1, net1)" by fastforce
    obtain b2 net2 where h2: "handle_usercmd_request env net1 hdr pkt = (b2, net2)" by fastforce
    obtain b3 net3 where h3: "handle_force_open_request env net2 hdr pkt = (b3, net3)" by fastforce
    obtain b4 net4 where h4: "handle_setting_read env net3 hdr = (b4, net4)" by fastforce
    obtain b5 net5 where h5: "handle_setting_write env net4 hdr pkt = (b5, net5)" by fastforce
    obtain b6 net6 where h6: "handle_event_store_request env net5 hdr pkt = (b6, net6)" by fastforce
    obtain b7 net7 where h7: "handle_lcd_request env net6 hdr = (b7, net7)" by fastforce
    show ?thesis
      unfolding handle_request_def s0 net0_def [symmetric] Let_def strip_userbin_request Some h1
      by (cases b1; cases b2; cases b3; cases b4; cases b5; cases b6; cases b7)
        (simp_all add: h2 h3 h4 h5 h6 h7)
  qed
qed

section \<open>Frames\<close>

text \<open>The handlers read the packet only through \<open>frame_data\<close>.\<close>

lemma request_frame_data:
  assumes "frame_data hdr pkt = frame_data hdr pkt'"
  shows "handle_request env net hdr pkt = handle_request env net hdr pkt'"
  unfolding handle_request_def handle_userbin_request_def handle_userbin_send_def handle_usercmd_request_def
    handle_force_open_request_def handle_setting_write_def handle_event_store_request_def assms
  by (rule refl)

text \<open>A frame the parser accepts, whole.\<close>

definition wf_frame :: "byte list \<Rightarrow> bool" where
  "wf_frame f \<longleftrightarrow> (\<exists>h. idti_header_parse f = Some h \<and> unat (packet_length h) = length f)"

text \<open>The parser looks at 44 bytes.\<close>

lemma parse_take: "44 \<le> length buf \<Longrightarrow> idti_header_parse (take 44 buf) = idti_header_parse buf"
  by (simp add: idti_header_parse_def Let_def be16_def be32_def slice_def min_def drop_take)

lemma parse_agree:
  "44 \<le> length a \<Longrightarrow> 44 \<le> length b \<Longrightarrow> take 44 a = take 44 b \<Longrightarrow> idti_header_parse a = idti_header_parse b"
  by (metis parse_take)

lemma wf_frame_length: "wf_frame f \<Longrightarrow> 46 \<le> length f \<and> length f < 65536"
proof -
  assume "wf_frame f"
  then obtain h where h: "idti_header_parse f = Some h" "unat (packet_length h) = length f"
    by (auto simp: wf_frame_def)
  from header_parse_lengths(1) [OF h(1)] tail_len_cases [of "frame_option h"] h(2)
    unat_u16_bound [of "packet_length h"]
  show ?thesis by auto
qed

lemma wf_frame_parse:
  assumes "idti_header_parse f = Some h" "unat (packet_length h) = length f" "44 \<le> n"
  shows "idti_header_parse (take n (f @ rest)) = Some h" and "frame_data h (f @ rest) = frame_data h f"
proof -
  have len: "46 \<le> length f" using assms wf_frame_length [of f] by (auto simp: wf_frame_def)
  show "idti_header_parse (take n (f @ rest)) = Some h"
    using assms len by (subst parse_agree [of _ f]) (auto simp: min_def)
  show "frame_data h (f @ rest) = frame_data h f"
    using header_parse_lengths(1) [OF assms(1)] assms(2) by (simp add: frame_data_def slice_append_left)
qed

text \<open>The specification: frames served one after the other.\<close>

primrec serve :: "net_env \<Rightarrow> byte list list \<Rightarrow> acu_net \<Rightarrow> acu_net option" where
  "serve env [] net = Some net"
| "serve env (f # fs) net =
    (case idti_header_parse f of
       None \<Rightarrow> None
     | Some h \<Rightarrow> (case handle_request env net h f of None \<Rightarrow> None | Some net1 \<Rightarrow> serve env fs net1))"

lemma serve_append:
  "serve env (fs @ gs) net = (case serve env fs net of None \<Rightarrow> None | Some net1 \<Rightarrow> serve env gs net1)"
  by (induction fs arbitrary: net) (simp_all split: option.splits)

text \<open>The beginning of a frame whose end has not arrived.\<close>

definition begins_frame :: "byte list \<Rightarrow> bool" where
  "begins_frame p \<longleftrightarrow> (\<exists>f rest. wf_frame f \<and> f = p @ rest \<and> rest \<noteq> [])"

lemma begins_frame_length: "begins_frame p \<Longrightarrow> length p \<le> 65534"
proof -
  assume "begins_frame p"
  then obtain rest where r: "wf_frame (p @ rest)" "rest \<noteq> []" by (auto simp: begins_frame_def)
  then have "0 < length rest" by simp
  moreover have "length p + length rest < 65536" using wf_frame_length [OF r(1)] by simp
  ultimately show ?thesis by linarith
qed

lemma begins_Nil: "wf_frame f \<Longrightarrow> begins_frame []"
  using wf_frame_length [of f] by (force simp: begins_frame_def)

section \<open>The receive loop serves the frames\<close>

text \<open>Less than a frame is left: the loop stops there.\<close>

lemma frame_loop_rests:
  assumes "conn_ok net" "consumed \<le> nt_recv_len net" "nt_recv_len net \<le> NET_RECV_BUF_CAP"
    and "slice consumed (nt_recv_len net - consumed) (nt_recv_buf net) = part" "part = [] \<or> begins_frame part"
  shows "frame_loop env net consumed = Done (net, consumed)" "length part = nt_recv_len net - consumed"
proof -
  let ?n = "nt_recv_len net - consumed" and ?pkt = "drop consumed (nt_recv_buf net)"
  have len: "length (nt_recv_buf net) = NET_RECV_BUF_CAP" using assms(1) by (simp add: conn_ok_def)
  show n: "length part = ?n" using assms(2-4) len by (metis le_add_diff_inverse length_slice)
  have part: "take ?n ?pkt = part" using assms(4) by (simp add: slice_def)
  have av: "avail_bytes net consumed = ?n" by (rule avail_inside [OF assms(2,3)])
  show "frame_loop env net consumed = Done (net, consumed)"
  proof (cases "?n < 44")
    case True
    then show ?thesis using av by (subst frame_loop.simps) simp
  next
    case False
    then have "part \<noteq> []" using n by auto
    then obtain f rest where f: "wf_frame f" "f = part @ rest" "rest \<noteq> []"
      using assms(5) by (auto simp: begins_frame_def)
    then obtain h where h: "idti_header_parse f = Some h" "unat (packet_length h) = length f"
      by (auto simp: wf_frame_def)
    have "idti_header_parse part = Some h"
      using parse_agree [of part f] False n f(2) h(1) by simp
    moreover have "?n < unat (packet_length h)" using n f(2,3) h(2) by simp
    moreover have "\<not> consumed + 44 > NET_RECV_BUF_CAP" using False assms(2,3) by simp
    ultimately show ?thesis
      using av False by (subst frame_loop.simps) (simp add: part)
  qed
qed

text \<open>A whole frame is there: it is served as if it stood alone, and the loop goes on behind it.\<close>

lemma frame_loop_one:
  assumes "conn_ok net" "ub_ok net" "consumed \<le> nt_recv_len net" "nt_recv_len net \<le> NET_RECV_BUF_CAP"
    and "slice consumed (nt_recv_len net - consumed) (nt_recv_buf net) = f @ behind" "wf_frame f"
  obtains h net1 where "idti_header_parse f = Some h" "handle_request env net h f = Some net1" "served net net1"
    "frame_loop env net consumed = frame_loop env net1 (consumed + length f)" "consumed + length f \<le> nt_recv_len net"
proof -
  let ?n = "nt_recv_len net - consumed" and ?pkt = "drop consumed (nt_recv_buf net)"
  have len: "length (nt_recv_buf net) = NET_RECV_BUF_CAP" using assms(1) by (simp add: conn_ok_def)
  have av: "avail_bytes net consumed = ?n" by (rule avail_inside [OF assms(3,4)])
  obtain h where h: "idti_header_parse f = Some h" "unat (packet_length h) = length f"
    using assms(6) by (auto simp: wf_frame_def)
  note fl = wf_frame_length [OF assms(6)]
  have cut: "take ?n ?pkt = f @ behind" using assms(5) by (simp add: slice_def)
  have n: "?n = length f + length behind"
    using arg_cong [OF cut, of length] len assms(3,4) by simp
  have pkt: "?pkt = f @ drop (length f) ?pkt"
    using cut n by (metis append_eq_conv_conj append_take_drop_id le_add1 min.absorb2 take_take)
  obtain net1 where r: "handle_request env net h ?pkt = Some net1" "served net net1"
    by (rule request_kept [OF assms(1,2)])
  have "frame_data h ?pkt = frame_data h f"
    using wf_frame_parse(2) [OF h, of 44 "drop (length f) ?pkt"] pkt by simp
  from request_frame_data [OF this, of env net] r(1) have rf: "handle_request env net h f = Some net1" by simp
  have "idti_header_parse (take ?n ?pkt) = Some h"
    using wf_frame_parse(1) [OF h, of ?n behind] n fl cut by simp
  moreover have "\<not> ?n < 44" "\<not> consumed + 44 > NET_RECV_BUF_CAP" "\<not> ?n < length f" "\<not> consumed + length f > NET_RECV_BUF_CAP"
    using n fl assms(3,4) by linarith+
  ultimately have "frame_loop env net consumed = frame_loop env net1 (consumed + length f)"
    using av r(1) h(2) by (subst frame_loop.simps) simp
  moreover have "consumed + length f \<le> nt_recv_len net" using n assms(3) fl by linarith
  ultimately show thesis using that [OF h(1) rf r(2)] by blast
qed

lemma frame_loop_serves:
  "conn_ok net \<Longrightarrow> ub_ok net \<Longrightarrow> consumed \<le> nt_recv_len net \<Longrightarrow> nt_recv_len net \<le> NET_RECV_BUF_CAP \<Longrightarrow>
   slice consumed (nt_recv_len net - consumed) (nt_recv_buf net) = concat fs @ part \<Longrightarrow>
   \<forall>f \<in> set fs. wf_frame f \<Longrightarrow> part = [] \<or> begins_frame part \<Longrightarrow>
   \<exists>net'. frame_loop env net consumed = Done (net', nt_recv_len net - length part) \<and> served net net'
     \<and> serve env fs (strip net) = Some (strip net')"
proof (induction fs arbitrary: net consumed)
  case Nil
  have "slice consumed (nt_recv_len net - consumed) (nt_recv_buf net) = part" using Nil.prems(5) by simp
  note rests = frame_loop_rests [OF Nil.prems(1,3,4) this Nil.prems(7)]
  have "nt_recv_len net - length part = consumed" using rests(2) Nil.prems(3) by simp
  then show ?case using rests(1) [of env] served_refl [OF Nil.prems(1,2)] by simp
next
  case (Cons f fs)
  let ?c = "consumed + length f" and ?rest = "concat fs @ part"
  have cut: "slice consumed (nt_recv_len net - consumed) (nt_recv_buf net) = f @ ?rest" using Cons.prems(5) by simp
  have "wf_frame f" using Cons.prems(6) by simp
  then obtain h net1 where one: "idti_header_parse f = Some h" "handle_request env net h f = Some net1" "served net net1"
    "frame_loop env net consumed = frame_loop env net1 ?c" "?c \<le> nt_recv_len net"
    by (rule frame_loop_one [OF Cons.prems(1-4) cut, where env = env])
  have s1: "conn_ok net1" "ub_ok net1" "nt_recv_len net1 = nt_recv_len net" "nt_recv_buf net1 = nt_recv_buf net"
    using one(3) by (auto simp: served_def same_conn_def)
  have "nt_recv_len net1 - ?c = nt_recv_len net - consumed - length f" using s1(3) by simp
  then have "slice ?c (nt_recv_len net1 - ?c) (nt_recv_buf net1) =
      drop (length f) (slice consumed (nt_recv_len net - consumed) (nt_recv_buf net))"
    using s1(4) by (simp add: slice_def drop_take add.commute)
  then have "slice ?c (nt_recv_len net1 - ?c) (nt_recv_buf net1) = ?rest" unfolding cut by simp
  then obtain net' where l: "frame_loop env net1 ?c = Done (net', nt_recv_len net1 - length part)"
    "served net1 net'" "serve env fs (strip net1) = Some (strip net')"
    using Cons.IH [OF s1(1,2), of ?c] Cons.prems(4,6,7) s1(3) one(5) by auto
  have "serve env (f # fs) (strip net) = Some (strip net')" using one(1,2) l(3) by simp
  then show ?case using l one(4) s1(3) served_trans [OF one(3) l(2)] by simp
qed

section \<open>One callback\<close>

definition held :: "acu_net \<Rightarrow> byte list" where
  "held net = take (nt_recv_len net) (nt_recv_buf net)"

lemma held_shift:
  assumes "c \<le> nt_recv_len net" "nt_recv_len net \<le> length (nt_recv_buf net)"
  shows "held (shift_buffer net c) = drop c (held net)"
  using assms by (simp add: shift_buffer_def held_def blit_def slice_def drop_take min_def)

lemma strip_shift: "strip (shift_buffer net c) = strip net"
  by (simp add: shift_buffer_def strip_def)

lemma client_ready_serves:
  assumes ok: "idle_ok net" and bs: "bs \<noteq> []" "length bs \<le> NET_RECV_BUF_CAP - nt_recv_len net"
    and split: "held net @ bs = concat fs @ part" "\<forall>f \<in> set fs. wf_frame f" "part = [] \<or> begins_frame part"
  shows "\<exists>net'. net_on_client_ready env (Receives bs) ACU_LOOP_READ net = Done net' \<and> idle_ok net'
    \<and> held net' = part \<and> serve env fs (strip net) = Some (strip net')"
proof -
  have oks: "conn_ok net" "ub_ok net" "nt_recv_len net \<le> 65534" and fd: "\<not> nt_client_fd net < 0"
    and len: "length (nt_recv_buf net) = NET_RECV_BUF_CAP"
    using ok by (auto simp: idle_ok_def conn_ok_def)
  define net1 where "net1 = net\<lparr> nt_recv_buf := blit (nt_recv_len net) bs (nt_recv_buf net),
    nt_recv_len := nt_recv_len net + length bs, nt_last_activity := ne_monotonic env \<rparr>"
  have fit: "nt_recv_len net + length bs \<le> NET_RECV_BUF_CAP" using bs oks(3) by simp
  have ok1: "conn_ok net1" "ub_ok net1" "nt_recv_len net1 \<le> NET_RECV_BUF_CAP"
    using oks fit len by (simp_all add: net1_def conn_ok_recv_buf)
  have h1: "held net1 = held net @ bs"
    using fit len oks(3) by (simp add: held_def net1_def blit_def min_def)
  have st: "strip net1 = strip net" by (simp add: net1_def strip_def)
  have "slice 0 (nt_recv_len net1 - 0) (nt_recv_buf net1) = concat fs @ part"
    using h1 split(1) by (simp add: slice_def held_def)
  moreover have le0: "0 \<le> nt_recv_len net1" by simp
  ultimately obtain net2 where l: "frame_loop env net1 0 = Done (net2, nt_recv_len net1 - length part)"
    "served net1 net2" "serve env fs (strip net1) = Some (strip net2)"
    using frame_loop_serves [OF ok1(1,2) le0 ok1(3) _ split(2,3), where env = env] by auto
  let ?c = "nt_recv_len net1 - length part"
  have s2: "conn_ok net2" "ub_ok net2" "nt_recv_len net2 = nt_recv_len net1" "nt_recv_buf net2 = nt_recv_buf net1"
    using l(2) by (auto simp: served_def same_conn_def)
  have len1: "length (nt_recv_buf net1) = NET_RECV_BUF_CAP" using ok1(1) by (simp add: conn_ok_def)
  have total: "length (concat fs) + length part = nt_recv_len net1"
    using arg_cong [OF h1 [unfolded split(1)], of length] ok1(3) len1 by (simp add: held_def)
  have "length part \<le> 65534" using split(3) begins_frame_length by auto
  then have "nt_recv_len net2 - ?c \<le> 65534" using s2(3) total by simp
  from shift_kept(1) [OF s2(1,2) _ this] have "idle_ok (shift_buffer net2 ?c)" using s2(3) ok1(3) by simp
  moreover have "net_on_client_ready env (Receives bs) ACU_LOOP_READ net = Done (shift_buffer net2 ?c)"
    using l(1) fd bs by (simp add: net_on_client_ready_def net1_def Let_def)
  moreover have "held (shift_buffer net2 ?c) = part"
  proof -
    have "held net2 = concat fs @ part" using s2(3,4) h1 split(1) by (simp add: held_def)
    moreover have "?c = length (concat fs)" using total by simp
    ultimately show ?thesis using s2(3,4) ok1(3) len1 by (subst held_shift) auto
  qed
  ultimately show ?thesis using l(3) st by (auto simp: strip_shift)
qed

section \<open>Any cutting of the stream\<close>

text \<open>
  The bytes the manager sends arrive in pieces; a callback takes what fits into the buffer, the
  rest of the piece is left to the next one. \<open>None\<close>: the buffer was full, or the callback
  left its buffer or did not return.
\<close>

function feed_pieces :: "net_env \<Rightarrow> byte list list \<Rightarrow> acu_net \<Rightarrow> acu_net option" where
  "feed_pieces env [] net = Some net"
| "feed_pieces env (p # ps) net =
    (let k = min (length p) (NET_RECV_BUF_CAP - nt_recv_len net)
     in if k = 0 then None
        else case net_on_client_ready env (Receives (take k p)) ACU_LOOP_READ net of
               Done net1 \<Rightarrow> feed_pieces env (if k < length p then drop k p # ps else ps) net1
             | Left_buffer \<Rightarrow> None
             | Stuck \<Rightarrow> None)"
  by pat_completeness auto
termination
  by (relation "measure (\<lambda>(env, ps, net). length (concat ps) + length ps)") auto

text \<open>A prefix of a sequence of frames is some of the frames and the beginning of one.\<close>

lemma split_frames:
  "x @ y = concat fs @ part \<Longrightarrow> \<forall>f \<in> set fs. wf_frame f \<Longrightarrow> part = [] \<or> begins_frame part \<Longrightarrow>
   \<exists>fs1 fs2 p. fs = fs1 @ fs2 \<and> x = concat fs1 @ p \<and> p @ y = concat fs2 @ part \<and> (p = [] \<or> begins_frame p)"
proof (induction fs arbitrary: x)
  case Nil
  have "x = [] \<or> begins_frame x"
  proof (cases "part = []")
    case True
    then show ?thesis using Nil.prems(1) by simp
  next
    case False
    then obtain f rest where f: "wf_frame f" "f = part @ rest" "rest \<noteq> []"
      using Nil.prems(3) by (auto simp: begins_frame_def)
    then have "f = x @ (y @ rest)" "y @ rest \<noteq> []" using Nil.prems(1) by auto
    with f(1) show ?thesis unfolding begins_frame_def by blast
  qed
  then show ?case using Nil.prems(1) by (intro exI [of _ "[]"] exI [of _ x]) auto
next
  case (Cons f fs)
  then have eq: "x @ y = f @ (concat fs @ part)" by simp
  from eq consider us where "x = f @ us" "us @ y = concat fs @ part"
    | us where "f = x @ us" "us \<noteq> []" "y = us @ concat fs @ part"
    unfolding append_eq_append_conv2 by (metis append_Nil2 append_Nil)
  then show ?case
  proof cases
    case 1
    from Cons.IH [OF 1(2)] Cons.prems(2,3) obtain fs1 fs2 p where
      "fs = fs1 @ fs2" "us = concat fs1 @ p" "p @ y = concat fs2 @ part" "p = [] \<or> begins_frame p"
      by auto
    with 1(1) show ?thesis by (intro exI [of _ "f # fs1"] exI [of _ fs2] exI [of _ p]) simp
  next
    case 2
    have "begins_frame x" using 2(1,2) Cons.prems(2) by (auto simp: begins_frame_def)
    with 2 show ?thesis by (intro exI [of _ "[]"] exI [of _ "f # fs"] exI [of _ x]) simp
  qed
qed

lemma feed_pieces_serve:
  "idle_ok net \<Longrightarrow> held net @ concat ps = concat fs @ part \<Longrightarrow> \<forall>p \<in> set ps. p \<noteq> [] \<Longrightarrow>
   \<forall>f \<in> set fs. wf_frame f \<Longrightarrow> part = [] \<or> begins_frame part \<Longrightarrow> held net = [] \<or> begins_frame (held net) \<Longrightarrow>
   \<exists>net'. feed_pieces env ps net = Some net' \<and> idle_ok net' \<and> held net' = part
     \<and> serve env fs (strip net) = Some (strip net')"
proof (induction env ps net arbitrary: fs rule: feed_pieces.induct)
  case (1 env net)
  have fs: "fs = []"
  proof (cases fs)
    case (Cons f gs)
    then have eq: "held net = f @ (concat gs @ part)" using 1(2) by simp
    have f: "46 \<le> length f" using Cons 1(4) wf_frame_length by auto
    then have "held net \<noteq> []" using eq by auto
    then obtain g rest where g: "wf_frame g" "g = held net @ rest" "rest \<noteq> []"
      using 1(6) by (auto simp: begins_frame_def)
    obtain h where h: "idti_header_parse g = Some h" "unat (packet_length h) = length g"
      using g(1) by (auto simp: wf_frame_def)
    obtain h' where h': "idti_header_parse f = Some h'" "unat (packet_length h') = length f"
      using Cons 1(4) by (auto simp: wf_frame_def)
    have "idti_header_parse g = idti_header_parse f"
      using f g(2) eq by (intro parse_agree) auto
    then have "length g = length f" using h h' by simp
    then show ?thesis using g(2,3) eq by simp
  qed
  then show ?case using 1 by simp
next
  case (2 env p ps net)
  define k where "k = min (length p) (NET_RECV_BUF_CAP - nt_recv_len net)"
  let ?rest = "if k < length p then drop k p # ps else ps"
  have p: "p \<noteq> []" using "2.prems"(3) by simp
  have room: "nt_recv_len net \<le> 65534" using "2.prems"(1) by (simp add: idle_ok_def)
  have k: "k \<noteq> 0" "length (take k p) \<le> NET_RECV_BUF_CAP - nt_recv_len net" "take k p \<noteq> []"
    using p room by (auto simp: k_def)
  have rest: "take k p @ concat ?rest = concat (p # ps)" "\<forall>q \<in> set ?rest. q \<noteq> []"
    using "2.prems"(3) by auto
  have "(held net @ take k p) @ concat ?rest = concat fs @ part"
    using "2.prems"(2) rest(1) by simp
  from split_frames [OF this "2.prems"(4,5)] obtain fs1 fs2 q where
    q: "fs = fs1 @ fs2" "held net @ take k p = concat fs1 @ q" "q @ concat ?rest = concat fs2 @ part"
      "q = [] \<or> begins_frame q" by blast
  have wf: "\<forall>f \<in> set fs1. wf_frame f" "\<forall>f \<in> set fs2. wf_frame f" using "2.prems"(4) q(1) by auto
  obtain net1 where c: "net_on_client_ready env (Receives (take k p)) ACU_LOOP_READ net = Done net1"
    "idle_ok net1" "held net1 = q" "serve env fs1 (strip net) = Some (strip net1)"
    using client_ready_serves [OF "2.prems"(1) k(3,2) q(2) wf(1) q(4)] by blast
  have "\<exists>net'. feed_pieces env ?rest net1 = Some net' \<and> idle_ok net' \<and> held net' = part
     \<and> serve env fs2 (strip net1) = Some (strip net')"
    by (rule "2.IH" [OF k_def k(1) c(1,2)]) (use c(3) q(3,4) rest(2) wf(2) "2.prems"(5) in auto)
  moreover have "feed_pieces env (p # ps) net = feed_pieces env ?rest net1"
    using k(1) c(1) by (simp add: k_def [symmetric] Let_def)
  ultimately show ?case using q(1) c(4) by (auto simp: serve_append)
qed

section \<open>Properties\<close>

text \<open>
  C12. The manager's byte stream is served frame by frame: however the network cuts well-formed
  frames into pieces, the callbacks return, keep exactly the unfinished last frame in the
  receive buffer, and leave the server in the state that handling the complete frames one after
  the other gives.
\<close>

theorem stream_cuts_do_not_matter:
  assumes "idle_ok net" and "held net = []" and "\<forall>p \<in> set ps. p \<noteq> []"
    and "concat ps = concat fs @ part" and "\<forall>f \<in> set fs. wf_frame f" and "part = [] \<or> begins_frame part"
  shows "\<exists>net'. feed_pieces env ps net = Some net' \<and> idle_ok net' \<and> held net' = part
    \<and> serve env fs (strip net) = Some (strip net')"
  by (rule feed_pieces_serve) (use assms in auto)

text \<open>A request for the history, as the manager sends it.\<close>

definition demo_frame :: "byte list" where
  "demo_frame = [2, 0, 46, 2, 8, 1, 44, 1, 1, 1, 1, 0, 0, 0, 4, 9, 8, 7, 6, 5, 0, 0, 0, 77, 0, 0, 0, 3,
     0, 6, 2, 64, 0, 1, 0, 0, 0, 0, 0, 0, 0, 0, 0, 0, 8, 3]"

lemma demo_frame_wf: "wf_frame demo_frame"
  by (simp add: wf_frame_def demo_frame_def idti_header_parse_def tail_len_def be16_def Let_def)

theorem stream_cuts_do_not_matter_witness:
  "\<exists>net'. feed_pieces demo_env [take 10 demo_frame, drop 10 demo_frame @ take 5 demo_frame] (demo_net [Takes 20])
     = Some net' \<and> held net' = take 5 demo_frame
    \<and> serve demo_env [demo_frame] (strip (demo_net [Takes 20])) = Some (strip net')"
proof -
  have begins: "begins_frame (take 5 demo_frame)"
    using demo_frame_wf unfolding begins_frame_def
    by (intro exI [of _ demo_frame] exI [of _ "drop 5 demo_frame"]) (simp add: demo_frame_def)
  have held: "held (demo_net [Takes 20]) = []" by (simp add: held_def demo_net_def)
  have pieces: "\<forall>p \<in> set [take 10 demo_frame, drop 10 demo_frame @ take 5 demo_frame]. p \<noteq> []"
    "concat [take 10 demo_frame, drop 10 demo_frame @ take 5 demo_frame] = concat [demo_frame] @ take 5 demo_frame"
    by (simp_all add: demo_frame_def)
  have frames: "\<forall>f \<in> set [demo_frame]. wf_frame f" using demo_frame_wf by simp
  have idle: "idle_ok (demo_net [Takes 20])" by (rule demo_idle) simp
  from stream_cuts_do_not_matter [OF idle held pieces frames disjI2 [OF begins], of demo_env]
  show ?thesis by blast
qed

end
