(* ===== verification/Net_Machine.thy ===== *)
theory Net_Machine
  imports Net_Serve
begin

text \<open>
  The network server as a state machine: a step is one callback of the event loop, one call of
  the daemon, or the kernel accepting more bytes. The invariant of the reachable states ties the
  server's state to its registration with the loop, and makes every callback return.
\<close>

section \<open>Steps\<close>

text \<open>
  \<open>kernel\<close> gives the outcomes of the coming \<open>send\<close> calls; a connection that breaks shows at
  the next \<open>recv\<close>. \<open>accept\<close> returns -1 or a descriptor that is not in use. \<open>elsewhere\<close> is
  another component (discovery) registering a descriptor of its own.
\<close>

inductive net_step :: "acu_net \<Rightarrow> acu_net \<Rightarrow> bool" where
  kernel: "list_all goes_on outs \<Longrightarrow> net_step net (net\<lparr> kn_sends := outs \<rparr>)"
| client_ready: "0 \<le> nt_client_fd net \<Longrightarrow> net_on_client_ready env rcv events net = Done net' \<Longrightarrow> net_step net net'"
| listen_ready: "loop_lookup (nt_loop net) fd = None \<Longrightarrow> net_step net (net_on_listen_ready env fd net)"
| inactivity: "net_step net (net_check_inactivity env net)"
| access_event: "net_step net (net_push_event env net result access_id door m r)"
| system_event: "net_step net (net_push_system_event env net code m r)"
| door_status: "net_step net (net_set_door_status net v)"
| force_open: "net_step net (net_apply_force_open env net on)"
| event_store: "net_step net (net_set_event_store net store batch)"
| users: "net_step net (net_set_users net u)"
| settings: "net_step net (net_set_settings_db net db)"
| userbin: "net_step net (net_set_userbin net (Some userbin_create))"
| identity: "net_step net (net_set_device_identity net cat typ)"
| layout: "net_step net (net_set_module_layout net lay)"
| time_sync: "net_step net (net_set_time_sync net b)"
| timeout: "net_step net (net_set_inactivity_timeout net sec)"
| open_handler: "net_step net (net_set_force_open_handler net b)"
| setting_handler: "net_step net (net_set_setting_changed_handler net b)"
| elsewhere: "loop_lookup (nt_loop net) fd = None \<Longrightarrow> loop_add (nt_loop net) fd ev (Some (Cb_elsewhere k)) = Some l \<Longrightarrow>
    net_step net (net\<lparr> nt_loop := l \<rparr>)"

text \<open>A server starts with \<open>net_init\<close> and \<open>net_attach_loop\<close> on a fresh registry.\<close>

inductive net_reachable :: "acu_net \<Rightarrow> bool" where
  start: "net_init fd True True u clock = Some net0 \<Longrightarrow> net_attach_loop net0 loop_create = (True, net) \<Longrightarrow>
    net_reachable net"
| step: "net_reachable net \<Longrightarrow> net_step net net' \<Longrightarrow> net_reachable net'"

section \<open>The invariant\<close>

text \<open>
  The listening socket is watched; a descriptor registered for the client callback is the
  present client's; without a client nothing of the last connection is left.
\<close>

definition only_client :: "net_callback acu_loop \<Rightarrow> int \<Rightarrow> bool" where
  "only_client l c \<longleftrightarrow> (\<forall>fd ev. loop_lookup l fd = Some (ev, Cb_client_ready) \<longrightarrow> fd = c)"

definition registered :: "acu_net \<Rightarrow> bool" where
  "registered net \<longleftrightarrow> loop_inv (nt_loop net)
     \<and> loop_lookup (nt_loop net) (nt_listen_fd net) = Some (ACU_LOOP_READ, Cb_listen_ready)
     \<and> only_client (nt_loop net) (nt_client_fd net)"

definition no_transfer :: "acu_net \<Rightarrow> bool" where
  "no_transfer net \<longleftrightarrow> (case nt_userbin net of None \<Rightarrow> True | Some ub \<Rightarrow> \<not> userbin_in_progress ub)"

definition nothing_left :: "acu_net \<Rightarrow> bool" where
  "nothing_left net \<longleftrightarrow> nt_recv_len net = 0 \<and> nt_send_buf net = [] \<and> nt_send_off net = 0 \<and> no_transfer net"

definition net_inv :: "acu_net \<Rightarrow> bool" where
  "net_inv net \<longleftrightarrow> registered net \<and> list_all goes_on (kn_sends net)
     \<and> length (nt_recv_buf net) = NET_RECV_BUF_CAP
     \<and> (if 0 \<le> nt_client_fd net then idle_ok net else nothing_left net)"

lemma client_watched: "idle_ok net \<Longrightarrow>
  loop_lookup (nt_loop net) (nt_client_fd net) = Some (ACU_LOOP_READ, Cb_client_ready)"
  by (simp add: idle_ok_def conn_ok_def read_watched_def)

lemma net_inv_upd [simp]:
  "net_inv (net\<lparr> nt_events := a \<rparr>) = net_inv net"
  "net_inv (net\<lparr> nt_event_batch := b \<rparr>) = net_inv net"
  "net_inv (net\<lparr> nt_door_status := c \<rparr>) = net_inv net"
  "net_inv (net\<lparr> nt_users := d \<rparr>) = net_inv net"
  "net_inv (net\<lparr> nt_users_set := e \<rparr>) = net_inv net"
  "net_inv (net\<lparr> nt_force_open := f \<rparr>) = net_inv net"
  "net_inv (net\<lparr> nt_settings_db := g \<rparr>) = net_inv net"
  "net_inv (net\<lparr> nt_layout := h \<rparr>) = net_inv net"
  "net_inv (net\<lparr> nt_time_sync_enabled := i \<rparr>) = net_inv net"
  "net_inv (net\<lparr> nt_inactivity_seconds := j \<rparr>) = net_inv net"
  "net_inv (net\<lparr> nt_on_force_open := k \<rparr>) = net_inv net"
  "net_inv (net\<lparr> nt_on_setting_changed := l \<rparr>) = net_inv net"
  "net_inv (net\<lparr> nt_device_category := m, nt_device_type := n \<rparr>) = net_inv net"
  "net_inv (net\<lparr> kn_calls := q \<rparr>) = net_inv net"
  by (simp_all add: net_inv_def registered_def nothing_left_def no_transfer_def idle_ok_def conn_ok_def
      ub_ok_def send_inv_def read_watched_def)

section \<open>Every step keeps it\<close>

lemma drop_no_transfer: "no_transfer (net_drop_client env net)"
  by (auto simp: no_transfer_def net_drop_client_def userbin_abort_def userbin_in_progress_def Let_def
      split: option.splits prod.splits)

lemma lookup_nonneg: "loop_inv l \<Longrightarrow> loop_lookup l fd = Some x \<Longrightarrow> 0 \<le> fd"
  by (cases x) (use loop_lookup_iff [OF loop_inv_distinct, of l fd] in \<open>auto simp: loop_inv_def\<close>)

lemma registered_drop:
  assumes "registered net" "nt_client_fd net \<noteq> nt_listen_fd net"
  shows "registered (net_drop_client env net)"
    and "loop_lookup (nt_loop (net_drop_client env net)) fd \<noteq> Some (ev, Cb_client_ready)"
proof -
  let ?l = "nt_loop (net_drop_client env net)"
  have inv: "loop_inv (nt_loop net)"
    and listen: "loop_lookup (nt_loop net) (nt_listen_fd net) = Some (ACU_LOOP_READ, Cb_listen_ready)"
    and only: "loop_lookup (nt_loop net) fd = Some (ev, Cb_client_ready) \<Longrightarrow> fd = nt_client_fd net" for fd ev
    using assms(1) by (auto simp: registered_def only_client_def)
  have "loop_inv ?l \<and> loop_lookup ?l (nt_listen_fd net) = Some (ACU_LOOP_READ, Cb_listen_ready)
    \<and> (\<forall>fd ev. loop_lookup ?l fd \<noteq> Some (ev, Cb_client_ready))"
  proof (cases "0 \<le> nt_client_fd net")
    case True
    then show ?thesis
      using loop_inv_remove [OF inv] listen only assms(2)
      by (auto simp: drop_client_loop loop_lookup_remove [OF inv])
  next
    case False
    then show ?thesis
      using inv listen only lookup_nonneg [OF inv] by (fastforce simp: drop_client_nothing)
  qed
  then show "registered (net_drop_client env net)" "loop_lookup ?l fd \<noteq> Some (ev, Cb_client_ready)"
    by (simp_all add: registered_def only_client_def frame_simps)
qed

lemma net_inv_drop:
  assumes "net_inv net"
  shows "net_inv (net_drop_client env net)" "nothing_left (net_drop_client env net)"
proof -
  have "nt_client_fd net \<noteq> nt_listen_fd net" if "0 \<le> nt_client_fd net"
    using assms that client_watched [of net] by (auto simp: net_inv_def registered_def)
  moreover have "nt_client_fd net \<noteq> nt_listen_fd net" if "\<not> 0 \<le> nt_client_fd net"
    using assms that lookup_nonneg [of "nt_loop net" "nt_listen_fd net"] by (auto simp: net_inv_def registered_def)
  ultimately have "registered (net_drop_client env net)"
    using assms registered_drop(1) by (auto simp: net_inv_def)
  then show "nothing_left (net_drop_client env net)" "net_inv (net_drop_client env net)"
    using assms drop_no_transfer by (simp_all add: net_inv_def nothing_left_def frame_simps)
qed

text \<open>Without a client no descriptor has the client callback.\<close>

lemma no_client_registered:
  assumes "net_inv net" "nt_client_fd net < 0"
  shows "loop_lookup (nt_loop net) fd \<noteq> Some (ev, Cb_client_ready)"
  using assms lookup_nonneg [of "nt_loop net" fd] by (force simp: net_inv_def registered_def only_client_def)

lemma net_inv_accept:
  assumes inv: "net_inv net" and fresh: "loop_lookup (nt_loop net) fd = None"
  shows "net_inv (net_on_listen_ready env fd net)"
proof (cases "fd < 0")
  case True
  then show ?thesis using inv by (simp add: net_on_listen_ready_def)
next
  case fd: False
  define net1 where "net1 = (if nt_client_fd net \<ge> 0 then net_drop_client env net else net)"
  define net2 where "net2 = net1\<lparr> nt_client_fd := fd, nt_last_activity := ne_monotonic env, nt_recv_len := 0,
    nt_send_buf := [], nt_send_off := 0, kn_wire := [] \<rparr>"
  have i1: "net_inv net1" "nothing_left net1" "nt_client_fd net1 < 0"
    using net_inv_drop [OF inv] inv by (auto simp: net1_def net_inv_def)
  have "loop_inv (nt_loop net)" using inv by (simp add: net_inv_def registered_def)
  then have absent: "loop_lookup (nt_loop net1) fd = None"
    using fresh by (simp add: net1_def drop_client_loop loop_lookup_remove)
  have r1: "loop_inv (nt_loop net1)" "loop_lookup (nt_loop net1) (nt_listen_fd net1) = Some (ACU_LOOP_READ, Cb_listen_ready)"
    using i1(1) by (simp_all add: net_inv_def registered_def)
  have r2: "registered net2" using r1 no_client_registered [OF i1(1,3)] by (simp add: registered_def only_client_def net2_def)
  have ne: "nt_client_fd net2 \<noteq> nt_listen_fd net2" using r1 absent by (auto simp: net2_def)
  have res: "net_on_listen_ready env fd net = (case loop_add (nt_loop net2) fd ACU_LOOP_READ (Some Cb_client_ready) of
      None \<Rightarrow> net_drop_client env net2 | Some l \<Rightarrow> net2\<lparr> nt_loop := l \<rparr>)"
    unfolding net_on_listen_ready_def Let_def net1_def [symmetric] net2_def [symmetric] using fd by simp
  have k: "list_all goes_on (kn_sends net2)" "length (nt_recv_buf net2) = NET_RECV_BUF_CAP"
    using i1(1) by (simp_all add: net_inv_def net2_def)
  show ?thesis
  proof (cases "loop_add (nt_loop net2) fd ACU_LOOP_READ (Some Cb_client_ready)")
    case None
    then show ?thesis
      using registered_drop(1) [OF r2 ne] k drop_no_transfer [of env net2]
      by (simp add: res net_inv_def nothing_left_def frame_simps)
  next
    case (Some l)
    have l2: "nt_loop net2 = nt_loop net1" by (simp add: net2_def)
    have look: "loop_inv l" "loop_lookup l = (loop_lookup (nt_loop net1))(fd \<mapsto> (ACU_LOOP_READ, Cb_client_ready))"
      using Some loop_inv_add [OF r1(1)] loop_lookup_add [OF r1(1)] unfolding l2 by blast+
    have "registered (net2\<lparr> nt_loop := l \<rparr>)"
      using look r1(2) ne no_client_registered [OF i1(1,3)] by (auto simp: registered_def only_client_def net2_def)
    moreover have "ub_ok net2"
      using i1(2) by (auto simp: net2_def nothing_left_def no_transfer_def ub_ok_def userbin_in_progress_def
          split: option.splits)
    ultimately show ?thesis
      using k look fd
      by (simp add: res Some net_inv_def idle_ok_def conn_ok_def read_watched_def send_inv_def ub_ok_def)
        (simp add: net2_def)
  qed
qed

lemma net_inv_idle:
  assumes "net_inv net" "idle_ok net'" "nt_client_fd net' = nt_client_fd net" "nt_loop net' = nt_loop net"
    "nt_listen_fd net' = nt_listen_fd net"
  shows "net_inv net'"
proof -
  have "list_all goes_on (kn_sends net')" "length (nt_recv_buf net') = NET_RECV_BUF_CAP" "0 \<le> nt_client_fd net'"
    using assms(2) by (simp_all add: idle_ok_def conn_ok_def)
  moreover have "registered net'"
    using assms(1) unfolding net_inv_def registered_def assms(3-5) by blast
  ultimately show ?thesis using assms(2) by (simp add: net_inv_def)
qed

lemma flush_inv:
  assumes inv: "net_inv net" and fd: "0 \<le> nt_client_fd net"
  shows "net_inv (net_flush_send env net)" "0 \<le> nt_client_fd (net_flush_send env net)"
proof -
  have ok: "idle_ok net" using inv fd by (simp add: net_inv_def)
  then have s: "served net (net_flush_send env net)" by (intro flush_kept) (simp_all add: idle_ok_def)
  then have "idle_ok (net_flush_send env net)" using ok by (simp add: served_def same_conn_def idle_ok_def)
  from net_inv_idle [OF inv this] s show "net_inv (net_flush_send env net)"
    by (simp add: served_def same_conn_def)
  show "0 \<le> nt_client_fd (net_flush_send env net)" using s fd by (simp add: served_def same_conn_def)
qed

lemma client_ready_cases:
  assumes inv: "net_inv net" and fd: "0 \<le> nt_client_fd net"
  shows "\<exists>net'. net_on_client_ready env rcv events net = Done net' \<and> net_inv net'"
proof (cases "\<exists>bs. rcv = Receives bs \<and> bs \<noteq> [] \<and> events AND ACU_LOOP_READ \<noteq> 0")
  case True
  then obtain bs where r: "rcv = Receives bs" "bs \<noteq> []" "events AND ACU_LOOP_READ \<noteq> 0" by blast
  have "idle_ok net" using inv fd by (simp add: net_inv_def)
  from client_ready_kept [OF this r(2,3)] show ?thesis using net_inv_idle [OF inv] by (auto simp: r(1))
next
  case False
  define net0 where "net0 = (if events AND ACU_LOOP_WRITE \<noteq> 0 then net_flush_send env net else net)"
  have n0: "net_inv net0" using inv flush_inv [OF inv fd] by (simp add: net0_def)
  show ?thesis
  proof (cases "events AND ACU_LOOP_READ = 0 \<or> nt_client_fd net0 < 0")
    case True
    with n0 show ?thesis unfolding net_on_client_ready_def net0_def [symmetric] Let_def by simp
  next
    case read: False
    have "rcv = Recv_would_block \<or> rcv = Recv_closed \<or> rcv = Receives []"
      using read False by (cases rcv) auto
    with read n0 net_inv_drop(1) [OF n0] show ?thesis
      unfolding net_on_client_ready_def net0_def [symmetric] Let_def by auto
  qed
qed

lemma store_event_inv [simp]: "net_inv (net_store_event env net code m i s a r) = net_inv net"
  by (simp add: net_store_event_def split: option.splits)

lemma push_inv [simp]:
  "net_inv (net_push_event env net result access_id door m r) = net_inv net"
  "net_inv (net_push_system_event env net code m r) = net_inv net"
  "net_inv (net_apply_force_open env net on) = net_inv net"
  by (simp_all add: net_push_event_def net_push_system_event_def net_apply_force_open_def Let_def)

lemma setter_inv [simp]:
  "net_inv (net_set_door_status net v) = net_inv net"
  "net_inv (net_set_event_store net store batch) = net_inv net"
  "net_inv (net_set_users net u) = net_inv net"
  "net_inv (net_set_settings_db net db) = net_inv net"
  "net_inv (net_set_device_identity net cat typ) = net_inv net"
  "net_inv (net_set_module_layout net lay) = net_inv net"
  "net_inv (net_set_time_sync net b) = net_inv net"
  "net_inv (net_set_inactivity_timeout net sec) = net_inv net"
  "net_inv (net_set_force_open_handler net b) = net_inv net"
  "net_inv (net_set_setting_changed_handler net b) = net_inv net"
  by (simp_all add: net_set_door_status_def net_set_users_def net_set_settings_db_def
      net_set_device_identity_def net_set_module_layout_def net_set_time_sync_def
      net_set_inactivity_timeout_def net_set_force_open_handler_def net_set_setting_changed_handler_def
      net_set_event_store_def Let_def split: option.split)

lemma set_userbin_inv: "net_inv net \<Longrightarrow> net_inv (net_set_userbin net (Some userbin_create))"
  by (cases "0 \<le> nt_client_fd net") (simp_all add: net_set_userbin_def net_inv_def registered_def nothing_left_def no_transfer_def idle_ok_def conn_ok_def
      ub_ok_def send_inv_def read_watched_def userbin_create_def userbin_in_progress_def)

lemma elsewhere_inv:
  assumes inv: "net_inv net" and new: "loop_lookup (nt_loop net) fd = None"
    and add: "loop_add (nt_loop net) fd ev (Some (Cb_elsewhere k)) = Some l"
  shows "net_inv (net\<lparr> nt_loop := l \<rparr>)"
proof -
  have i: "loop_inv (nt_loop net)" using inv by (simp add: net_inv_def registered_def)
  note l = loop_inv_add [OF i add] loop_lookup_add [OF i add]
  then have "registered (net\<lparr> nt_loop := l \<rparr>)"
    using inv new by (auto simp: net_inv_def registered_def only_client_def)
  moreover have "idle_ok (net\<lparr> nt_loop := l \<rparr>)" if "idle_ok net"
    using that l new by (auto simp: idle_ok_def conn_ok_def read_watched_def ub_ok_def)
  ultimately show ?thesis using inv by (auto simp: net_inv_def nothing_left_def no_transfer_def)
qed

lemma net_inv_step: "net_step net net' \<Longrightarrow> net_inv net \<Longrightarrow> net_inv net'"
proof (induction rule: net_step.induct)
  case (kernel outs net)
  then show ?case
    by (cases "0 \<le> nt_client_fd net") (simp_all add: net_inv_def registered_def nothing_left_def no_transfer_def idle_ok_def conn_ok_def
        ub_ok_def read_watched_def)
next
  case (client_ready net env rcv events net')
  with client_ready_cases [of net env rcv events] show ?case by auto
next
  case (listen_ready net fd env)
  then show ?case by (intro net_inv_accept)
next
  case (inactivity net env)
  then show ?case using net_inv_drop by (simp add: net_check_inactivity_def Let_def)
next
  case (elsewhere net fd ev k l)
  then show ?case by (intro elsewhere_inv)
qed (simp_all add: set_userbin_inv)

lemma net_inv_start:
  assumes "net_init fd True True u clock = Some net0" "net_attach_loop net0 loop_create = (True, net)"
  shows "net_inv net"
proof -
  have fd: "0 \<le> fd" "nt_listen_fd net0 = fd" "list_all goes_on (kn_sends net0)"
    "length (nt_recv_buf net0) = NET_RECV_BUF_CAP" "nt_client_fd net0 = -1" "nothing_left net0"
    using assms(1) by (auto simp: net_init_def nothing_left_def no_transfer_def split: if_splits)
  obtain l where l: "loop_add loop_create fd ACU_LOOP_READ (Some Cb_listen_ready) = Some l" "net = net0\<lparr> nt_loop := l \<rparr>"
    using assms(2) fd by (auto simp: net_attach_loop_def split: option.splits)
  note k = loop_inv_add [OF loop_inv_create l(1)] loop_lookup_add [OF loop_inv_create l(1)]
  have "registered net" using k fd by (simp add: l(2) registered_def only_client_def loop_lookup_def loop_create_def find_entry_def)
  then show ?thesis using fd by (simp add: net_inv_def l(2) nothing_left_def no_transfer_def)
qed

lemma reachable_inv: "net_reachable net \<Longrightarrow> net_inv net"
  by (induction rule: net_reachable.induct) (auto intro: net_inv_start net_inv_step)

section \<open>Properties\<close>


definition demo_start :: acu_net where
  "demo_start = snd (net_attach_loop (the (net_init 4 True True demo_users 1000)) loop_create)"

definition demo_server :: acu_net where
  "demo_server = net_on_listen_ready demo_env 5 demo_start"

lemma demo_start_state: "nt_loop demo_start = [\<lparr> le_fd = 4, le_events = 1, le_cb = Cb_listen_ready \<rparr>]"
  "nt_client_fd demo_start = -1" "nt_listen_fd demo_start = 4"
  by (simp_all add: demo_start_def net_init_def net_attach_loop_def loop_create_def loop_add_def find_entry_def)

lemma demo_reachable: "net_reachable demo_server"
proof -
  have "net_reachable demo_start"
    by (rule start [of 4 demo_users 1000 "the (net_init 4 True True demo_users 1000)"])
      (simp_all add: demo_start_def net_init_def net_attach_loop_def loop_create_def loop_add_def find_entry_def)
  moreover have "loop_lookup (nt_loop demo_start) 5 = None"
    by (simp add: demo_start_state loop_lookup_def find_entry_def)
  ultimately show ?thesis unfolding demo_server_def by (blast intro: step listen_ready)
qed

lemma demo_server_client: "nt_client_fd demo_server = 5" "nt_listen_fd demo_server = 4"
  by (simp_all add: demo_server_def net_on_listen_ready_def demo_start_state loop_add_def find_entry_def)




end
