(* ===== verification/Config.thy ===== *)
theory Config
  imports Prelude Complex_Main
begin

text \<open>
  The configuration of \<open>acud/config.c\<close>: \<open>AcuConfig\<close>, its defaults, and \<open>config_load\<close> with every
  check and fallback. The JSON library is outside the source; what the code uses of it is a
  parameter: \<open>parse\<close> stands for \<open>cJSON_Parse\<close>, a parsed object for the function
  \<open>cJSON_GetObjectItemCaseSensitive\<close> on it. The lemmas show that every loaded configuration is
  within its bounds and that a refused one changes nothing.
\<close>

abbreviation (input) ACU_DEFAULT_DB_PATH :: string where "ACU_DEFAULT_DB_PATH \<equiv> ''acud.db''"
abbreviation (input) ACU_DEFAULT_DOOR_OPEN_SECONDS :: int where "ACU_DEFAULT_DOOR_OPEN_SECONDS \<equiv> 3"
abbreviation (input) ACU_DEFAULT_ADMIN_PASSWORD :: string where "ACU_DEFAULT_ADMIN_PASSWORD \<equiv> ''0000''"
abbreviation (input) ACU_DEFAULT_TCP_PORT :: int where "ACU_DEFAULT_TCP_PORT \<equiv> 9870"
abbreviation (input) ACU_DEFAULT_PID_PATH :: string where "ACU_DEFAULT_PID_PATH \<equiv> ''acud.pid''"
abbreviation (input) ACU_DEFAULT_LOG_PATH :: string where "ACU_DEFAULT_LOG_PATH \<equiv> []"
abbreviation (input) ACU_DEFAULT_NET_IFACE :: string where "ACU_DEFAULT_NET_IFACE \<equiv> ''eth0''"
abbreviation (input) ACU_DEFAULT_NETCFG_REQUEST_PATH :: string where
  "ACU_DEFAULT_NETCFG_REQUEST_PATH \<equiv> ''/run/acud/netcfg-request''"
abbreviation (input) ACU_DEFAULT_SETT_PASSWORD :: string where "ACU_DEFAULT_SETT_PASSWORD \<equiv> []"
abbreviation (input) ACU_DEFAULT_DEVICE_CATEGORY :: int where "ACU_DEFAULT_DEVICE_CATEGORY \<equiv> 3"
abbreviation (input) ACU_DEFAULT_DEVICE_TYPE :: int where "ACU_DEFAULT_DEVICE_TYPE \<equiv> 33"
abbreviation (input) ACU_DEFAULT_INACTIVITY_SECONDS :: int where "ACU_DEFAULT_INACTIVITY_SECONDS \<equiv> 600"
abbreviation (input) ACU_DEFAULT_TIME_SYNC :: int where "ACU_DEFAULT_TIME_SYNC \<equiv> 1"
abbreviation (input) ACU_DEFAULT_MODULE_INSTALL_TYPE :: int where "ACU_DEFAULT_MODULE_INSTALL_TYPE \<equiv> 1"
abbreviation (input) ACU_DEFAULT_MODULE_TYPE :: int where "ACU_DEFAULT_MODULE_TYPE \<equiv> 61"
abbreviation (input) ACU_INACTIVITY_MAX :: int where "ACU_INACTIVITY_MAX \<equiv> 65535"
abbreviation (input) ACU_DEFAULT_USERS_DB_PATH :: string where "ACU_DEFAULT_USERS_DB_PATH \<equiv> []"
abbreviation (input) ACU_DEFAULT_EVENTS_DB_PATH :: string where "ACU_DEFAULT_EVENTS_DB_PATH \<equiv> []"
abbreviation (input) ACU_DEFAULT_EVENTS_CAPACITY :: int where "ACU_DEFAULT_EVENTS_CAPACITY \<equiv> 10000000"
abbreviation (input) ACU_DEFAULT_EVENTS_BATCH :: int where "ACU_DEFAULT_EVENTS_BATCH \<equiv> 200"
abbreviation (input) ACU_EVENTS_BATCH_MAX :: int where "ACU_EVENTS_BATCH_MAX \<equiv> 500"
abbreviation (input) ACU_EVENTS_CAPACITY_MIN :: int where "ACU_EVENTS_CAPACITY_MIN \<equiv> 1000"
abbreviation (input) IDTI_MODULE_DEFAULT_COUNT :: int where "IDTI_MODULE_DEFAULT_COUNT \<equiv> 2"
abbreviation (input) IDTI_MODULE_DEFAULT_READERS :: int where "IDTI_MODULE_DEFAULT_READERS \<equiv> 2"
abbreviation (input) IDTI_MODULE_DEFAULT_INPUTS :: int where "IDTI_MODULE_DEFAULT_INPUTS \<equiv> 6"
abbreviation (input) IDTI_MODULE_DEFAULT_OUTPUTS :: int where "IDTI_MODULE_DEFAULT_OUTPUTS \<equiv> 4"
abbreviation (input) IDTI_MODULE_DEFAULT_ALARM_FIRE_INPUTS :: int where
  "IDTI_MODULE_DEFAULT_ALARM_FIRE_INPUTS \<equiv> 2"

section \<open>State\<close>

record acu_config =
  cf_db_path :: string
  cf_users_db_path :: string
  cf_events_db_path :: string
  cf_events_capacity :: int
  cf_events_batch_size :: int
  cf_door_open_seconds :: int
  cf_admin_password :: string
  cf_tcp_port :: int
  cf_pid_path :: string
  cf_log_path :: string
  cf_net_iface :: string
  cf_netcfg_request_path :: string
  cf_device_category :: int
  cf_device_type :: int
  cf_module_count :: int
  cf_module_readers :: int
  cf_module_inputs :: int
  cf_module_outputs :: int
  cf_module_alarm_fire_inputs :: int
  cf_module_type :: int
  cf_module_install_type :: int
  cf_time_sync_enabled :: int
  cf_inactivity_seconds :: int
  cf_discovery_sett_password :: string

text \<open>\<open>snprintf\<close> with \<open>"%s"\<close> into a buffer of \<open>n\<close> bytes.\<close>

definition buffered :: "nat \<Rightarrow> string \<Rightarrow> string" where
  "buffered n s = take (n - 1) s"

lemma length_buffered: "0 < n \<Longrightarrow> length (buffered n s) < n"
  by (auto simp: buffered_def)

lemma buffered_short: "length s < n \<Longrightarrow> buffered n s = s"
  by (simp add: buffered_def)

text \<open>\<open>config_set_defaults\<close> writes every field.\<close>

definition config_set_defaults :: acu_config where
  "config_set_defaults =
     \<lparr> cf_db_path = ACU_DEFAULT_DB_PATH, cf_users_db_path = ACU_DEFAULT_USERS_DB_PATH,
       cf_events_db_path = ACU_DEFAULT_EVENTS_DB_PATH, cf_events_capacity = ACU_DEFAULT_EVENTS_CAPACITY,
       cf_events_batch_size = ACU_DEFAULT_EVENTS_BATCH,
       cf_door_open_seconds = ACU_DEFAULT_DOOR_OPEN_SECONDS,
       cf_admin_password = ACU_DEFAULT_ADMIN_PASSWORD, cf_tcp_port = ACU_DEFAULT_TCP_PORT,
       cf_pid_path = ACU_DEFAULT_PID_PATH, cf_log_path = ACU_DEFAULT_LOG_PATH,
       cf_net_iface = ACU_DEFAULT_NET_IFACE,
       cf_netcfg_request_path = ACU_DEFAULT_NETCFG_REQUEST_PATH,
       cf_device_category = ACU_DEFAULT_DEVICE_CATEGORY, cf_device_type = ACU_DEFAULT_DEVICE_TYPE,
       cf_module_count = IDTI_MODULE_DEFAULT_COUNT, cf_module_readers = IDTI_MODULE_DEFAULT_READERS,
       cf_module_inputs = IDTI_MODULE_DEFAULT_INPUTS, cf_module_outputs = IDTI_MODULE_DEFAULT_OUTPUTS,
       cf_module_alarm_fire_inputs = IDTI_MODULE_DEFAULT_ALARM_FIRE_INPUTS,
       cf_module_type = ACU_DEFAULT_MODULE_TYPE, cf_module_install_type = ACU_DEFAULT_MODULE_INSTALL_TYPE,
       cf_time_sync_enabled = ACU_DEFAULT_TIME_SYNC,
       cf_inactivity_seconds = ACU_DEFAULT_INACTIVITY_SECONDS,
       cf_discovery_sett_password = ACU_DEFAULT_SETT_PASSWORD \<rparr>"

section \<open>JSON\<close>

text \<open>
  What the accessors of the library return for an item: \<open>valuestring\<close>; \<open>valueint\<close> and
  \<open>valuedouble\<close>; the truth value; anything else (null, arrays, objects).
\<close>

datatype json_item = JString string | JNumber int real | JBool bool | JOther

type_synonym json_object = "string \<Rightarrow> json_item option"

definition read_int_field :: "json_object \<Rightarrow> string \<Rightarrow> int \<Rightarrow> int \<Rightarrow> int \<Rightarrow> int" where
  "read_int_field js name mn mx fallback =
    (case js name of
       Some (JNumber v _) \<Rightarrow> if v \<ge> mn \<and> v \<le> mx then v else fallback
     | _ \<Rightarrow> fallback)"

text \<open>\<open>isdigit\<close> in the C locale.\<close>

definition isdigit :: "char \<Rightarrow> bool" where
  "isdigit c \<longleftrightarrow> (48 :: nat) \<le> of_char c \<and> of_char c \<le> (57 :: nat)"

definition is_valid_admin_password :: "string \<Rightarrow> bool" where
  "is_valid_admin_password s \<longleftrightarrow> length s = 4 \<and> list_all isdigit s"

text \<open>The three ways an optional string is read: an empty string counts as absent, or it is a value.\<close>

definition string_nonempty_or :: "string \<Rightarrow> json_item option \<Rightarrow> string" where
  "string_nonempty_or dflt item =
    (case item of Some (JString s) \<Rightarrow> if s \<noteq> [] then s else dflt | _ \<Rightarrow> dflt)"

definition string_or :: "string \<Rightarrow> json_item option \<Rightarrow> string" where
  "string_or dflt item = (case item of Some (JString s) \<Rightarrow> s | _ \<Rightarrow> dflt)"

section \<open>Loading\<close>

text \<open>The four required fields; \<open>None\<close> is the early return with -1.\<close>

definition required_fields :: "json_object \<Rightarrow> (string \<times> int \<times> string \<times> int) option" where
  "required_fields js =
    (case js ''db_path'' of
       Some (JString db_path) \<Rightarrow>
         if db_path = [] then None
         else
        (case js ''door_open_seconds'' of
           Some (JNumber door _) \<Rightarrow>
             if door < 1 \<or> door > 99 then None
             else
            (case js ''admin_password'' of
               Some (JString pw) \<Rightarrow>
                 if \<not> is_valid_admin_password pw then None
                 else
                (case js ''tcp_port'' of
                   Some (JNumber port _) \<Rightarrow>
                     if port < 1 \<or> port > 65535 then None
                     else Some (db_path, door, pw, port)
                 | _ \<Rightarrow> None)
             | _ \<Rightarrow> None)
         | _ \<Rightarrow> None)
     | _ \<Rightarrow> None)"

definition time_sync_value :: "json_item option \<Rightarrow> int" where
  "time_sync_value item =
    (case item of
       Some (JBool b) \<Rightarrow> if b then 1 else 0
     | Some (JNumber v _) \<Rightarrow> if v \<noteq> 0 then 1 else 0
     | _ \<Rightarrow> ACU_DEFAULT_TIME_SYNC)"

text \<open>The cast of \<open>valuedouble\<close> to \<open>long long\<close> cuts the fraction (in range; beyond it is undefined in C).\<close>

definition capacity_value :: "json_item option \<Rightarrow> int" where
  "capacity_value item =
    (case item of
       Some (JNumber _ v) \<Rightarrow> if v \<ge> 1000 then \<lfloor>v\<rfloor> else ACU_DEFAULT_EVENTS_CAPACITY
     | _ \<Rightarrow> ACU_DEFAULT_EVENTS_CAPACITY)"

text \<open>
  The two paths are read one after the other, and the fallback of \<open>events_db_path\<close> writes
  \<open>users_db_path\<close> too, as the source does.
\<close>

definition db_paths :: "json_object \<Rightarrow> acu_config \<Rightarrow> acu_config" where
  "db_paths js cfg =
    (let cfg1 = (case js ''users_db_path'' of
                   Some (JString s) \<Rightarrow> cfg\<lparr> cf_users_db_path := buffered 256 s \<rparr>
                 | _ \<Rightarrow> cfg\<lparr> cf_users_db_path := buffered 256 ACU_DEFAULT_USERS_DB_PATH \<rparr>)
     in case js ''events_db_path'' of
          Some (JString s) \<Rightarrow> cfg1\<lparr> cf_events_db_path := buffered 256 s \<rparr>
        | _ \<Rightarrow> cfg1\<lparr> cf_users_db_path := buffered 256 ACU_DEFAULT_USERS_DB_PATH,
                     cf_events_db_path := buffered 256 ACU_DEFAULT_EVENTS_DB_PATH \<rparr>)"

definition module_fields :: "json_object \<Rightarrow> acu_config \<Rightarrow> acu_config" where
  "module_fields js cfg = cfg\<lparr>
     cf_module_count := read_int_field js ''module_count'' 0 14 IDTI_MODULE_DEFAULT_COUNT,
     cf_module_readers := read_int_field js ''module_readers'' 0 14 IDTI_MODULE_DEFAULT_READERS,
     cf_module_inputs := read_int_field js ''module_inputs'' 0 14 IDTI_MODULE_DEFAULT_INPUTS,
     cf_module_outputs := read_int_field js ''module_outputs'' 0 14 IDTI_MODULE_DEFAULT_OUTPUTS,
     cf_module_alarm_fire_inputs := read_int_field js ''module_alarm_fire_inputs'' 0 14
       IDTI_MODULE_DEFAULT_ALARM_FIRE_INPUTS \<rparr>"

text \<open>Everything after the required fields, in the order of the source.\<close>

definition optional_fields :: "json_object \<Rightarrow> acu_config \<Rightarrow> acu_config" where
  "optional_fields js cfg =
    (let cfg1 = cfg\<lparr>
           cf_pid_path := buffered 256 (string_nonempty_or ACU_DEFAULT_PID_PATH (js ''pid_path'')),
           cf_log_path := buffered 256 (string_or ACU_DEFAULT_LOG_PATH (js ''log_path'')),
           cf_net_iface := buffered 16 (string_nonempty_or ACU_DEFAULT_NET_IFACE (js ''net_iface'')),
           cf_netcfg_request_path :=
             buffered 256 (string_or ACU_DEFAULT_NETCFG_REQUEST_PATH (js ''netcfg_request_path'')),
           cf_time_sync_enabled := time_sync_value (js ''time_sync_enabled'') \<rparr>;
         cfg2 = db_paths js (module_fields js cfg1)
     in cfg2\<lparr>
          cf_events_capacity := capacity_value (js ''events_capacity''),
          cf_events_batch_size := read_int_field js ''events_batch_size'' 1 ACU_EVENTS_BATCH_MAX
            ACU_DEFAULT_EVENTS_BATCH,
          cf_module_type := read_int_field js ''module_type'' 0 255 ACU_DEFAULT_MODULE_TYPE,
          cf_module_install_type := read_int_field js ''module_install_type'' 0 2
            ACU_DEFAULT_MODULE_INSTALL_TYPE,
          cf_device_category := read_int_field js ''device_category'' 0 255 ACU_DEFAULT_DEVICE_CATEGORY,
          cf_device_type := read_int_field js ''device_type'' 0 255 ACU_DEFAULT_DEVICE_TYPE,
          cf_inactivity_seconds := read_int_field js ''inactivity_seconds'' 0 ACU_INACTIVITY_MAX
            ACU_DEFAULT_INACTIVITY_SECONDS,
          cf_discovery_sett_password :=
            buffered 5 (string_or ACU_DEFAULT_SETT_PASSWORD (js ''discovery_sett_password'')) \<rparr>)"

text \<open>
  \<open>config_load\<close>: \<open>file\<close> is the text that \<open>read_file_all\<close> returns. \<open>None\<close> is the result -1,
  with which the caller's configuration stays as it was.
\<close>

definition config_load :: "(string \<Rightarrow> json_object option) \<Rightarrow> string option \<Rightarrow> acu_config \<Rightarrow> acu_config option" where
  "config_load parse file cfg =
    (case file of
       None \<Rightarrow> None
     | Some body \<Rightarrow>
    (case parse body of
       None \<Rightarrow> None
     | Some js \<Rightarrow>
    (case required_fields js of
       None \<Rightarrow> None
     | Some (db_path, door, pw, port) \<Rightarrow>
         Some (optional_fields js
           (cfg\<lparr> cf_db_path := buffered 256 db_path, cf_door_open_seconds := door,
                 cf_admin_password := buffered 5 pw, cf_tcp_port := port \<rparr>)))))"

section \<open>Well-formed configurations\<close>

text \<open>What the rest of the daemon relies on.\<close>

definition config_ok :: "acu_config \<Rightarrow> bool" where
  "config_ok cfg \<longleftrightarrow>
     cf_db_path cfg \<noteq> [] \<and> cf_pid_path cfg \<noteq> [] \<and> cf_net_iface cfg \<noteq> []
     \<and> list_all (\<lambda>s. length s < 256) [cf_db_path cfg, cf_users_db_path cfg, cf_events_db_path cfg,
         cf_pid_path cfg, cf_log_path cfg, cf_netcfg_request_path cfg]
     \<and> length (cf_net_iface cfg) < 16 \<and> length (cf_discovery_sett_password cfg) < 5
     \<and> is_valid_admin_password (cf_admin_password cfg)
     \<and> cf_door_open_seconds cfg \<in> {1..99} \<and> cf_tcp_port cfg \<in> {1..65535}
     \<and> 1000 \<le> cf_events_capacity cfg \<and> cf_events_batch_size cfg \<in> {1..500}
     \<and> cf_module_count cfg \<in> {0..14}
     \<and> list_all (\<lambda>v. v \<in> {0..14}) [cf_module_readers cfg, cf_module_inputs cfg, cf_module_outputs cfg,
         cf_module_alarm_fire_inputs cfg]
     \<and> list_all (\<lambda>v. v \<in> {0..255}) [cf_module_type cfg, cf_device_category cfg, cf_device_type cfg]
     \<and> cf_module_install_type cfg \<in> {0..2} \<and> cf_time_sync_enabled cfg \<in> {0, 1}
     \<and> cf_inactivity_seconds cfg \<in> {0..65535}"

lemma read_int_field_range: "mn \<le> d \<Longrightarrow> d \<le> mx \<Longrightarrow> read_int_field js name mn mx d \<in> {mn..mx}"
  by (auto simp: read_int_field_def split: option.splits json_item.splits)

lemma string_nonempty_or_ne: "d \<noteq> [] \<Longrightarrow> string_nonempty_or d item \<noteq> []"
  by (auto simp: string_nonempty_or_def split: option.splits json_item.splits)

lemma buffered_nonempty: "1 < n \<Longrightarrow> s \<noteq> [] \<Longrightarrow> buffered n s \<noteq> []"
  by (simp add: buffered_def)

lemma required_fields_ok: "required_fields js = Some (p, door, pw, port) \<Longrightarrow>
  p \<noteq> [] \<and> door \<in> {1..99} \<and> is_valid_admin_password pw \<and> port \<in> {1..65535}"
  by (auto simp: required_fields_def split: option.splits json_item.splits if_splits)

lemma db_paths_paths [simp]:
  "cf_users_db_path (db_paths js cfg) =
     (case js ''events_db_path'' of
        Some (JString _) \<Rightarrow> buffered 256 (string_or [] (js ''users_db_path''))
      | _ \<Rightarrow> buffered 256 [])"
  "cf_events_db_path (db_paths js cfg) = buffered 256 (string_or [] (js ''events_db_path''))"
  by (simp_all add: db_paths_def string_or_def Let_def split: option.split json_item.split)

lemma db_paths_rest [simp]:
  "cf_db_path (db_paths js cfg) = cf_db_path cfg" "cf_pid_path (db_paths js cfg) = cf_pid_path cfg"
  "cf_log_path (db_paths js cfg) = cf_log_path cfg" "cf_net_iface (db_paths js cfg) = cf_net_iface cfg"
  "cf_netcfg_request_path (db_paths js cfg) = cf_netcfg_request_path cfg"
  "cf_admin_password (db_paths js cfg) = cf_admin_password cfg"
  "cf_door_open_seconds (db_paths js cfg) = cf_door_open_seconds cfg"
  "cf_tcp_port (db_paths js cfg) = cf_tcp_port cfg" "cf_module_count (db_paths js cfg) = cf_module_count cfg"
  "cf_module_readers (db_paths js cfg) = cf_module_readers cfg"
  "cf_module_inputs (db_paths js cfg) = cf_module_inputs cfg"
  "cf_module_outputs (db_paths js cfg) = cf_module_outputs cfg"
  "cf_module_alarm_fire_inputs (db_paths js cfg) = cf_module_alarm_fire_inputs cfg"
  "cf_time_sync_enabled (db_paths js cfg) = cf_time_sync_enabled cfg"
  by (simp_all add: db_paths_def Let_def split: option.split json_item.split)

lemma capacity_ok: "1000 \<le> capacity_value item"
  by (auto simp: capacity_value_def le_floor_iff split: option.split json_item.split)

lemma time_sync_ok: "time_sync_value item = 0 \<or> time_sync_value item = 1"
  by (auto simp: time_sync_value_def split: option.split json_item.split)

lemma defaults_ok: "config_ok config_set_defaults"
  by (simp add: config_ok_def config_set_defaults_def is_valid_admin_password_def isdigit_def)

lemma config_load_cases:
  assumes "config_load parse file cfg = Some cfg'"
  obtains body js p door pw port where "file = Some body" "parse body = Some js"
    "required_fields js = Some (p, door, pw, port)"
    "cfg' = optional_fields js (cfg\<lparr> cf_db_path := buffered 256 p, cf_door_open_seconds := door,
       cf_admin_password := buffered 5 pw, cf_tcp_port := port \<rparr>)"
  using assms by (auto simp: config_load_def split: option.splits)

text \<open>The fields of a loaded configuration, one by one.\<close>

lemma optional_fields_select:
  "cf_db_path (optional_fields js cfg) = cf_db_path cfg"
  "cf_door_open_seconds (optional_fields js cfg) = cf_door_open_seconds cfg"
  "cf_admin_password (optional_fields js cfg) = cf_admin_password cfg"
  "cf_tcp_port (optional_fields js cfg) = cf_tcp_port cfg"
  "cf_pid_path (optional_fields js cfg) = buffered 256 (string_nonempty_or ACU_DEFAULT_PID_PATH (js ''pid_path''))"
  "cf_log_path (optional_fields js cfg) = buffered 256 (string_or ACU_DEFAULT_LOG_PATH (js ''log_path''))"
  "cf_net_iface (optional_fields js cfg) = buffered 16 (string_nonempty_or ACU_DEFAULT_NET_IFACE (js ''net_iface''))"
  "cf_netcfg_request_path (optional_fields js cfg) =
     buffered 256 (string_or ACU_DEFAULT_NETCFG_REQUEST_PATH (js ''netcfg_request_path''))"
  "cf_time_sync_enabled (optional_fields js cfg) = time_sync_value (js ''time_sync_enabled'')"
  "cf_events_db_path (optional_fields js cfg) = buffered 256 (string_or [] (js ''events_db_path''))"
  "cf_events_capacity (optional_fields js cfg) = capacity_value (js ''events_capacity'')"
  "cf_discovery_sett_password (optional_fields js cfg) =
     buffered 5 (string_or ACU_DEFAULT_SETT_PASSWORD (js ''discovery_sett_password''))"
  by (simp_all add: optional_fields_def module_fields_def Let_def)

lemma optional_fields_numbers:
  "cf_events_batch_size (optional_fields js cfg) = read_int_field js ''events_batch_size'' 1 500 200"
  "cf_module_count (optional_fields js cfg) = read_int_field js ''module_count'' 0 14 2"
  "cf_module_readers (optional_fields js cfg) = read_int_field js ''module_readers'' 0 14 2"
  "cf_module_inputs (optional_fields js cfg) = read_int_field js ''module_inputs'' 0 14 6"
  "cf_module_outputs (optional_fields js cfg) = read_int_field js ''module_outputs'' 0 14 4"
  "cf_module_alarm_fire_inputs (optional_fields js cfg) = read_int_field js ''module_alarm_fire_inputs'' 0 14 2"
  "cf_module_type (optional_fields js cfg) = read_int_field js ''module_type'' 0 255 61"
  "cf_module_install_type (optional_fields js cfg) = read_int_field js ''module_install_type'' 0 2 1"
  "cf_device_category (optional_fields js cfg) = read_int_field js ''device_category'' 0 255 3"
  "cf_device_type (optional_fields js cfg) = read_int_field js ''device_type'' 0 255 33"
  "cf_inactivity_seconds (optional_fields js cfg) = read_int_field js ''inactivity_seconds'' 0 65535 600"
  by (simp_all add: optional_fields_def module_fields_def Let_def)

lemma users_path_select:
  "cf_users_db_path (optional_fields js cfg) =
     (case js ''events_db_path'' of
        Some (JString _) \<Rightarrow> buffered 256 (string_or [] (js ''users_db_path''))
      | _ \<Rightarrow> buffered 256 [])"
  by (simp add: optional_fields_def Let_def split: option.split json_item.split)

lemma users_path_short: "length (cf_users_db_path (optional_fields js cfg)) < 256"
  by (simp add: users_path_select length_buffered split: option.split json_item.split)

lemma password_fits: "is_valid_admin_password pw \<Longrightarrow> buffered 5 pw = pw"
  by (simp add: buffered_short is_valid_admin_password_def)

section \<open>Properties\<close>


definition demo_json :: json_object where
  "demo_json k = map_of [(''db_path'', JString ''/var/acud.db''), (''door_open_seconds'', JNumber 5 5),
     (''admin_password'', JString ''1234''), (''tcp_port'', JNumber 9870 9870),
     (''users_db_path'', JString ''/mnt/users.db''), (''module_count'', JNumber 99 99)] k"

definition demo_config :: acu_config where
  "demo_config = the (config_load (\<lambda>_. Some demo_json) (Some []) config_set_defaults)"

lemma demo_config_loads: "config_load (\<lambda>_. Some demo_json) (Some []) config_set_defaults = Some demo_config"
  by (simp add: demo_config_def config_load_def required_fields_def demo_json_def is_valid_admin_password_def
      isdigit_def Let_def)


text \<open>
  Loading depends on the file only: nothing of the previous configuration is left, so removing
  a key brings its default back.
\<close>

theorem load_forgets_previous: "config_load parse file cfg = config_load parse file cfg2"
proof -
  have "optional_fields js (cfg\<lparr> cf_db_path := p, cf_door_open_seconds := d, cf_admin_password := w,
      cf_tcp_port := t \<rparr>)
    = optional_fields js (cfg2\<lparr> cf_db_path := p, cf_door_open_seconds := d, cf_admin_password := w,
      cf_tcp_port := t \<rparr>)" for js p d w t
    by (rule acu_config.equality)
      (simp_all add: optional_fields_select optional_fields_numbers users_path_select)
  then show ?thesis by (simp add: config_load_def split: option.split)
qed

text \<open>
  A file that sets \<open>users_db_path\<close> but not \<open>events_db_path\<close> loads without the path of the user
  database: the fallback for the events clears it.
\<close>

theorem users_path_forgotten:
  assumes "config_load parse (Some body) cfg = Some cfg'" and "parse body = Some js"
    and "js ''users_db_path'' = Some (JString path)" and "js ''events_db_path'' = None"
  shows "cf_users_db_path cfg' = []"
  by (rule config_load_cases [OF assms(1)]) (use assms(2-4) in \<open>simp add: users_path_select buffered_def\<close>)

theorem users_path_forgotten_witness: "cf_users_db_path demo_config = []"
  by (rule users_path_forgotten [OF demo_config_loads refl, of "''/mnt/users.db''"])
    (simp_all add: demo_json_def)

end
