(* ===== verification/Discover.thy ===== *)
theory Discover
  imports Prelude Config
begin

text \<open>
  The UDP discovery and network set-up service of \<open>acud/discover.c\<close>: the address arithmetic, the
  reply frame, the checks of a \<open>SETT\<close> request and the hand-over of its settings as a request file.
  What the operating system answers (the MAC file, the interface list, the routing table, the
  interface index, the file calls) is the environment. The lemmas tie the bit loops to network
  masks and say exactly which datagrams change the request file and how each is answered.
\<close>

abbreviation (input) NM_CMD_LEN :: nat where "NM_CMD_LEN \<equiv> 4"
abbreviation (input) NM_FRAME_LEN :: nat where "NM_FRAME_LEN \<equiv> 50"
abbreviation (input) NM_FRAME_PW_LEN :: nat where "NM_FRAME_PW_LEN \<equiv> 58"
abbreviation (input) NM_FIND_REQ_LEN :: nat where "NM_FIND_REQ_LEN \<equiv> 4"
abbreviation (input) NM_CMD_FIND :: string where "NM_CMD_FIND \<equiv> ''FIND''"
abbreviation (input) NM_CMD_IMIN :: string where "NM_CMD_IMIN \<equiv> ''IMIN''"
abbreviation (input) NM_CMD_SETT :: string where "NM_CMD_SETT \<equiv> ''SETT''"
abbreviation (input) NM_CMD_SETC :: string where "NM_CMD_SETC \<equiv> ''SETC''"
abbreviation (input) NM_CMD_FAIL :: string where "NM_CMD_FAIL \<equiv> ''FAIL''"
abbreviation (input) NM_RECV_CAP :: nat where "NM_RECV_CAP \<equiv> 256"
abbreviation (input) NM_OFF_COMMAND :: nat where "NM_OFF_COMMAND \<equiv> 0"
abbreviation (input) NM_OFF_MAC :: nat where "NM_OFF_MAC \<equiv> 4"
abbreviation (input) NM_OFF_TCP_MODE :: nat where "NM_OFF_TCP_MODE \<equiv> 10"
abbreviation (input) NM_OFF_IP :: nat where "NM_OFF_IP \<equiv> 11"
abbreviation (input) NM_OFF_NETMASK :: nat where "NM_OFF_NETMASK \<equiv> 15"
abbreviation (input) NM_OFF_GATEWAY :: nat where "NM_OFF_GATEWAY \<equiv> 19"
abbreviation (input) NM_OFF_PORT :: nat where "NM_OFF_PORT \<equiv> 23"
abbreviation (input) NM_OFF_SERIAL_BPS :: nat where "NM_OFF_SERIAL_BPS \<equiv> 31"
abbreviation (input) NM_OFF_SERIAL_DATABIT :: nat where "NM_OFF_SERIAL_DATABIT \<equiv> 32"
abbreviation (input) NM_OFF_SERIAL_PARITY :: nat where "NM_OFF_SERIAL_PARITY \<equiv> 33"
abbreviation (input) NM_OFF_SERIAL_STOPBIT :: nat where "NM_OFF_SERIAL_STOPBIT \<equiv> 34"
abbreviation (input) NM_OFF_SERIAL_FLOW :: nat where "NM_OFF_SERIAL_FLOW \<equiv> 35"
abbreviation (input) NM_OFF_INACTIVITY :: nat where "NM_OFF_INACTIVITY \<equiv> 41"
abbreviation (input) NM_OFF_FIRMWARE :: nat where "NM_OFF_FIRMWARE \<equiv> 44"
abbreviation (input) NM_OFF_CONNECT :: nat where "NM_OFF_CONNECT \<equiv> 48"
abbreviation (input) NM_OFF_PW_SET_FLAG :: nat where "NM_OFF_PW_SET_FLAG \<equiv> 49"
abbreviation (input) NM_OFF_PW_COMPANY :: nat where "NM_OFF_PW_COMPANY \<equiv> 50"
abbreviation (input) NM_OFF_PW_CUSTOM :: nat where "NM_OFF_PW_CUSTOM \<equiv> 54"
abbreviation (input) NM_TCPMODE_SERVER :: byte where "NM_TCPMODE_SERVER \<equiv> 2"
abbreviation (input) NM_PW_FLAG_ON :: byte where "NM_PW_FLAG_ON \<equiv> 1"
abbreviation (input) NM_PW_FLAG_OFF :: byte where "NM_PW_FLAG_OFF \<equiv> 0"
abbreviation (input) NM_PW_COMPANY :: string where "NM_PW_COMPANY \<equiv> ''IDTi''"
abbreviation (input) NM_SERIAL_BPS_115200 :: byte where "NM_SERIAL_BPS_115200 \<equiv> 255"
abbreviation (input) NM_SERIAL_DATABIT :: byte where "NM_SERIAL_DATABIT \<equiv> 8"
abbreviation (input) NM_SERIAL_PARITY :: byte where "NM_SERIAL_PARITY \<equiv> 0"
abbreviation (input) NM_SERIAL_STOPBIT :: byte where "NM_SERIAL_STOPBIT \<equiv> 1"
abbreviation (input) NM_SERIAL_FLOW :: byte where "NM_SERIAL_FLOW \<equiv> 0"
abbreviation (input) NM_FW_MAJOR :: byte where "NM_FW_MAJOR \<equiv> 1"
abbreviation (input) NM_FW_MINOR :: byte where "NM_FW_MINOR \<equiv> 0"
abbreviation (input) NM_PREFIX_MIN :: nat where "NM_PREFIX_MIN \<equiv> 8"
abbreviation (input) NM_PREFIX_MAX :: nat where "NM_PREFIX_MAX \<equiv> 30"

section \<open>State\<close>

text \<open>
  \<open>struct AcuDiscover\<close>; \<open>kd_sent\<close> are the datagrams given to \<open>sendto\<close> (always to the broadcast
  address; a failure is only logged), \<open>kd_request\<close> is the content of the request file.
\<close>

record acu_discover =
  dc_fd :: int
  dc_tcp_port :: int
  dc_iface :: string
  dc_ifindex :: nat
  dc_sett_password :: string
  dc_inactivity_seconds :: int
  dc_connected :: int
  dc_request_path :: string
  kd_sent :: "byte list list"
  kd_request :: "string option"

text \<open>An entry of \<open>getifaddrs\<close>; \<open>ia_inet\<close>: it has an address of family \<open>AF_INET\<close>.\<close>

record if_addr =
  ia_inet :: bool
  ia_name :: string
  ia_addr :: "byte list"
  ia_netmask :: "byte list option"

text \<open>
  \<open>de_mac_scan\<close>: the hexadecimal numbers \<open>fscanf\<close> converts from the address file of an interface;
  \<open>de_routes\<close>: the lines of \<open>/proc/net/route\<close> after the heading as \<open>sscanf\<close> converts them.
\<close>

record disc_env =
  de_mac_scan :: "string \<Rightarrow> nat list option"
  de_ifaddrs :: "if_addr list option"
  de_routes :: "(string \<times> nat \<times> nat) option list option"
  de_ifindex :: "string \<Rightarrow> nat"
  de_fopen_ok :: bool
  de_fflush_ok :: bool
  de_rename_ok :: bool

section \<open>Small helpers\<close>

definition text_bytes :: "string \<Rightarrow> byte list" where
  "text_bytes s = map of_char s"

text \<open>\<open>put_be16\<close> of an \<open>int\<close> cast to unsigned.\<close>

definition put_be16 :: "int \<Rightarrow> byte list" where
  "put_be16 v = put16 (word_of_int v)"

fun decimal :: "nat \<Rightarrow> string" where
  "decimal n = (if n < 10 then [char_of (48 + n)] else decimal (n div 10) @ [char_of (48 + n mod 10)])"

declare decimal.simps [simp del]

definition ip_to_text :: "byte list \<Rightarrow> string" where
  "ip_to_text ip = decimal (unat (ip ! 0)) @ ''.'' @ decimal (unat (ip ! 1)) @ ''.''
     @ decimal (unat (ip ! 2)) @ ''.'' @ decimal (unat (ip ! 3))"

text \<open>The counting loop of \<open>netmask_to_prefix\<close>.\<close>

function prefix_bits :: "u32 \<Rightarrow> nat \<Rightarrow> nat" where
  "prefix_bits m bits = (if bits < 32 \<and> bit m (31 - bits) then prefix_bits m (Suc bits) else bits)"
  by pat_completeness auto
termination
  by (relation "measure (\<lambda>(m, bits). 32 - bits)") auto

declare prefix_bits.simps [simp del]

text \<open>\<open>m & ((1UL << (32 - bits)) - 1)\<close> keeps the lowest \<open>32 - bits\<close> bits; \<open>None\<close> is -1.\<close>

definition netmask_to_prefix :: "byte list \<Rightarrow> nat option" where
  "netmask_to_prefix nmask =
    (let m = be32 nmask;
         bits = prefix_bits m 0;
         rest = (if bits = 32 then 0 else take_bit (32 - bits) m)
     in if rest = 0 then Some bits else None)"

definition same_subnet :: "byte list \<Rightarrow> byte list \<Rightarrow> nat \<Rightarrow> bool" where
  "same_subnet a b prefix =
     list_all (\<lambda>i. bit (a ! (i div 8)) (7 - i mod 8) = bit (b ! (i div 8)) (7 - i mod 8)) [0..<prefix]"

section \<open>What the system reports\<close>

text \<open>The boolean is the return value 0 (True) or -1 (False).\<close>

definition read_mac :: "disc_env \<Rightarrow> string \<Rightarrow> bool \<times> byte list" where
  "read_mac env iface =
    (case de_mac_scan env iface of
       None \<Rightarrow> (False, zeros 6)
     | Some ns \<Rightarrow> if length ns \<noteq> 6 then (False, zeros 6) else (True, map of_nat ns))"

fun find_ipv4 :: "string \<Rightarrow> if_addr list \<Rightarrow> (byte list \<times> byte list) option" where
  "find_ipv4 iface [] = None"
| "find_ipv4 iface (it # its) =
    (if \<not> ia_inet it then find_ipv4 iface its
     else if ia_name it \<noteq> iface then find_ipv4 iface its
     else Some (ia_addr it, case ia_netmask it of None \<Rightarrow> zeros 4 | Some nm \<Rightarrow> nm))"

definition read_ipv4 :: "disc_env \<Rightarrow> string \<Rightarrow> byte list \<times> byte list" where
  "read_ipv4 env iface =
    (case de_ifaddrs env of
       None \<Rightarrow> (zeros 4, zeros 4)
     | Some head \<Rightarrow> (case find_ipv4 iface head of None \<Rightarrow> (zeros 4, zeros 4) | Some r \<Rightarrow> r))"

fun find_gateway :: "string \<Rightarrow> (string \<times> nat \<times> nat) option list \<Rightarrow> byte list" where
  "find_gateway iface [] = zeros 4"
| "find_gateway iface (None # ls) = find_gateway iface ls"
| "find_gateway iface (Some (name, dest, gateway) # ls) =
    (if dest \<noteq> 0 \<or> name \<noteq> iface then find_gateway iface ls
     else [of_nat gateway, of_nat (gateway div 2 ^ 8), of_nat (gateway div 2 ^ 16), of_nat (gateway div 2 ^ 24)])"

definition read_gateway :: "disc_env \<Rightarrow> string \<Rightarrow> byte list" where
  "read_gateway env iface =
    (case de_routes env of None \<Rightarrow> zeros 4 | Some ls \<Rightarrow> find_gateway iface ls)"

section \<open>Frames\<close>

definition build_frame :: "disc_env \<Rightarrow> acu_discover \<Rightarrow> string \<Rightarrow> byte list" where
  "build_frame env d cmd4 =
    (let mac = snd (read_mac env (dc_iface d));
         (ip, nmask) = read_ipv4 env (dc_iface d);
         gw = read_gateway env (dc_iface d);
         out = zeros NM_FRAME_LEN;
         out = blit NM_OFF_COMMAND (text_bytes cmd4) out;
         out = blit NM_OFF_MAC mac out;
         out = out[NM_OFF_TCP_MODE := NM_TCPMODE_SERVER];
         out = blit NM_OFF_IP ip out;
         out = blit NM_OFF_NETMASK nmask out;
         out = blit NM_OFF_GATEWAY gw out;
         out = blit NM_OFF_PORT (put_be16 (dc_tcp_port d)) out;
         out = out[NM_OFF_SERIAL_BPS := NM_SERIAL_BPS_115200, NM_OFF_SERIAL_DATABIT := NM_SERIAL_DATABIT,
                   NM_OFF_SERIAL_PARITY := NM_SERIAL_PARITY, NM_OFF_SERIAL_STOPBIT := NM_SERIAL_STOPBIT,
                   NM_OFF_SERIAL_FLOW := NM_SERIAL_FLOW];
         out = blit NM_OFF_INACTIVITY (put_be16 (dc_inactivity_seconds d)) out;
         out = out[NM_OFF_FIRMWARE := NM_FW_MAJOR, NM_OFF_FIRMWARE + 1 := NM_FW_MINOR];
         out = out[NM_OFF_CONNECT := (if dc_connected d \<noteq> 0 then 1 else 0)]
     in out[NM_OFF_PW_SET_FLAG := (if dc_sett_password d \<noteq> [] then NM_PW_FLAG_ON else NM_PW_FLAG_OFF)])"

definition send_reply :: "acu_discover \<Rightarrow> byte list \<Rightarrow> acu_discover" where
  "send_reply d buf = d\<lparr> kd_sent := kd_sent d @ [buf] \<rparr>"

definition send_set_reply :: "disc_env \<Rightarrow> acu_discover \<Rightarrow> string \<Rightarrow> acu_discover" where
  "send_set_reply env d cmd4 = send_reply d (build_frame env d cmd4 @ zeros (NM_FRAME_PW_LEN - NM_FRAME_LEN))"

section \<open>Set-up requests\<close>

definition sett_is_for_us :: "disc_env \<Rightarrow> acu_discover \<Rightarrow> byte list \<Rightarrow> bool" where
  "sett_is_for_us env d req =
    (case read_mac env (dc_iface d) of
       (False, _) \<Rightarrow> False
     | (True, mine) \<Rightarrow> slice NM_OFF_MAC 6 req = mine)"

text \<open>\<open>strncmp(a, b, 4) == 0\<close> for C strings: equal up to the first zero among four bytes.\<close>

definition c_prefix4 :: "byte list \<Rightarrow> byte list" where
  "c_prefix4 bs = takeWhile (\<lambda>b. b \<noteq> 0) (take 4 bs)"

definition sett_password_ok :: "acu_discover \<Rightarrow> byte list \<Rightarrow> bool" where
  "sett_password_ok d req =
    (if dc_sett_password d = [] then True
     else if slice NM_OFF_PW_COMPANY 4 req \<noteq> text_bytes NM_PW_COMPANY then False
     else c_prefix4 (slice NM_OFF_PW_CUSTOM 4 req) = c_prefix4 (text_bytes (dc_sett_password d)))"

datatype sett_fault = Ip_zero | Ip_broadcast | Mask_gaps | Mask_range | Ip_is_gateway | Gateway_outside

definition sett_validate :: "byte list \<Rightarrow> sett_fault + nat" where
  "sett_validate req =
    (let ip = slice NM_OFF_IP 4 req;
         nmask = slice NM_OFF_NETMASK 4 req;
         gw = slice NM_OFF_GATEWAY 4 req
     in if ip ! 0 = 0 \<and> ip ! 1 = 0 \<and> ip ! 2 = 0 \<and> ip ! 3 = 0 then Inl Ip_zero
        else if ip ! 0 = 255 \<and> ip ! 1 = 255 \<and> ip ! 2 = 255 \<and> ip ! 3 = 255 then Inl Ip_broadcast
        else case netmask_to_prefix nmask of
               None \<Rightarrow> Inl Mask_gaps
             | Some prefix \<Rightarrow>
                 if prefix < NM_PREFIX_MIN \<or> prefix > NM_PREFIX_MAX then Inl Mask_range
                 else if ip = gw then Inl Ip_is_gateway
                 else if \<not> same_subnet ip gw prefix then Inl Gateway_outside
                 else Inr prefix)"

definition request_text :: "byte list \<Rightarrow> nat \<Rightarrow> string" where
  "request_text req prefix =
    (let ip = ip_to_text (slice NM_OFF_IP 4 req); gw = ip_to_text (slice NM_OFF_GATEWAY 4 req)
     in ''ip='' @ ip @ [CHR 0x0A] @ ''prefix='' @ decimal prefix @ [CHR 0x0A]
        @ ''gateway='' @ gw @ [CHR 0x0A] @ ''dns='' @ gw @ [CHR 0x0A])"

text \<open>The temporary file is renamed over the request file, or removed.\<close>

definition sett_write_request :: "disc_env \<Rightarrow> acu_discover \<Rightarrow> byte list \<Rightarrow> nat \<Rightarrow> bool \<times> acu_discover" where
  "sett_write_request env d req prefix =
    (if \<not> de_fopen_ok env then (False, d)
     else if \<not> de_fflush_ok env \<or> \<not> de_rename_ok env then (False, d)
     else (True, d\<lparr> kd_request := Some (request_text req prefix) \<rparr>))"

definition handle_sett :: "disc_env \<Rightarrow> acu_discover \<Rightarrow> byte list \<Rightarrow> acu_discover" where
  "handle_sett env d req =
    (if \<not> sett_is_for_us env d req then d
     else if dc_request_path d = [] then send_set_reply env d NM_CMD_FAIL
     else if \<not> sett_password_ok d req then send_set_reply env d NM_CMD_FAIL
     else case sett_validate req of
            Inl why \<Rightarrow> send_set_reply env d NM_CMD_FAIL
          | Inr prefix \<Rightarrow>
              (case sett_write_request env d req prefix of
                 (False, d1) \<Rightarrow> send_set_reply env d1 NM_CMD_FAIL
               | (True, d1) \<Rightarrow> send_set_reply env d1 NM_CMD_SETC))"

section \<open>The service\<close>

definition load_config :: "disc_env \<Rightarrow> acu_discover \<Rightarrow> acu_config \<Rightarrow> acu_discover" where
  "load_config env d cfg =
    (let iface = buffered 16 (if cf_net_iface cfg \<noteq> [] then cf_net_iface cfg else ''eth0'')
     in d\<lparr> dc_iface := iface, dc_sett_password := buffered 8 (cf_discovery_sett_password cfg),
           dc_inactivity_seconds := cf_inactivity_seconds cfg,
           dc_request_path := buffered 256 (cf_netcfg_request_path cfg),
           dc_tcp_port := cf_tcp_port cfg, dc_ifindex := de_ifindex env iface \<rparr>)"

text \<open>\<open>sock_fd\<close> is what \<open>socket\<close> returns; the socket options that fail are only logged.\<close>

definition discover_init :: "disc_env \<Rightarrow> int \<Rightarrow> bool \<Rightarrow> string option \<Rightarrow> acu_config \<Rightarrow> acu_discover option" where
  "discover_init env sock_fd bind_ok request cfg =
    (let d = load_config env \<lparr> dc_fd = 0, dc_tcp_port = 0, dc_iface = [], dc_ifindex = 0, dc_sett_password = [],
               dc_inactivity_seconds = 0, dc_connected = 0, dc_request_path = [], kd_sent = [],
               kd_request = request \<rparr> cfg
     in if sock_fd < 0 then None
        else if \<not> bind_ok then None
        else Some (d\<lparr> dc_fd := sock_fd \<rparr>))"

definition discover_apply_config :: "disc_env \<Rightarrow> acu_discover option \<Rightarrow> acu_config \<Rightarrow> acu_discover option" where
  "discover_apply_config env d cfg = map_option (\<lambda>d. load_config env d cfg) d"

definition discover_set_connected :: "acu_discover option \<Rightarrow> int \<Rightarrow> acu_discover option" where
  "discover_set_connected d conn = map_option (\<lambda>d. d\<lparr> dc_connected := conn \<rparr>) d"

definition discover_fd :: "acu_discover option \<Rightarrow> int" where
  "discover_fd d = (case d of None \<Rightarrow> -1 | Some d \<Rightarrow> dc_fd d)"

text \<open>
  \<open>rcv\<close> is what \<open>recvmsg\<close> returns: -1 (\<open>None\<close>), or the datagram and the interface index of its
  control message (0 when there is none). A longer datagram is cut to the buffer.
\<close>

definition discover_service :: "disc_env \<Rightarrow> (byte list \<times> nat) option \<Rightarrow> acu_discover \<Rightarrow> acu_discover" where
  "discover_service env rcv d =
    (case rcv of
       None \<Rightarrow> d
     | Some (dgram, in_ifindex) \<Rightarrow>
         let buf = take NM_RECV_CAP dgram
         in if length buf < NM_CMD_LEN then d
            else if dc_ifindex d \<noteq> 0 \<and> in_ifindex \<noteq> 0 \<and> in_ifindex \<noteq> dc_ifindex d then d
            else if length buf = NM_FIND_REQ_LEN \<and> slice 0 NM_CMD_LEN buf = text_bytes NM_CMD_FIND
            then send_reply d (build_frame env d NM_CMD_IMIN)
            else if length buf = NM_FRAME_PW_LEN \<and> slice 0 NM_CMD_LEN buf = text_bytes NM_CMD_SETT
            then handle_sett env d buf
            else d)"

section \<open>Addresses and masks\<close>

lemma prefix_bits_spec:
  "b \<le> 32 \<Longrightarrow> \<forall>i<b. bit m (31 - i) \<Longrightarrow>
   prefix_bits m b \<le> 32 \<and> (\<forall>i < prefix_bits m b. bit m (31 - i))
     \<and> (prefix_bits m b < 32 \<longrightarrow> \<not> bit m (31 - prefix_bits m b))"
proof (induction m b rule: prefix_bits.induct)
  case (1 m b)
  show ?case
  proof (cases "b < 32 \<and> bit m (31 - b)")
    case True
    then have "\<forall>i<Suc b. bit m (31 - i)" using "1.prems"(2) by (auto simp: less_Suc_eq)
    with True 1(1) show ?thesis by (subst (1 2 3 4) prefix_bits.simps) simp
  next
    case False
    with 1(2,3) show ?thesis by (subst (1 2 3 4) prefix_bits.simps) auto
  qed
qed

lemma bit_net_mask: "p \<le> 32 \<Longrightarrow> bit (NOT (mask (32 - p)) :: u32) n \<longleftrightarrow> n < 32 \<and> 32 - p \<le> n"
  by (auto simp: bit_simps)

lemma u32_eq_iff: "(v :: u32) = w \<longleftrightarrow> (\<forall>n<32. bit v n = bit w n)"
  by (auto intro: bit_word_eqI)

lemma netmask_to_prefix_iff:
  "netmask_to_prefix nm = Some p \<longleftrightarrow> p \<le> 32 \<and> be32 nm = NOT (mask (32 - p))"
proof
  let ?m = "be32 nm" and ?r = "prefix_bits (be32 nm) 0"
  note sp = prefix_bits_spec [of 0 ?m, simplified]
  {
    assume a: "netmask_to_prefix nm = Some p"
    then have p: "p = ?r" and low: "?r \<noteq> 32 \<Longrightarrow> take_bit (32 - ?r) ?m = 0"
      by (auto simp: netmask_to_prefix_def Let_def split: if_splits)
    have "?m = NOT (mask (32 - p))"
    proof (rule bit_word_eqI)
      fix n assume n: "n < LENGTH(32)"
      show "bit ?m n \<longleftrightarrow> bit (NOT (mask (32 - p)) :: u32) n"
      proof (cases "32 - p \<le> n")
        case True
        then have "31 - (31 - n) = n" "31 - n < ?r" using n p sp by auto
        then have "bit ?m n" using sp by metis
        then show ?thesis using True n p sp bit_net_mask [of p n] by simp
      next
        case False
        then have "?r \<noteq> 32" using p by auto
        then have "\<not> bit (take_bit (32 - ?r) ?m) n" using low by simp
        then have "\<not> bit ?m n" using False p by (simp add: bit_take_bit_iff)
        then show ?thesis using False bit_net_mask [of p n] sp p by simp
      qed
    qed
    then show "p \<le> 32 \<and> ?m = NOT (mask (32 - p))" using sp p by simp
  }
  assume a: "p \<le> 32 \<and> ?m = NOT (mask (32 - p))"
  then have b: "bit ?m (31 - i) \<longleftrightarrow> i < p" if "i < 32" for i using bit_net_mask [of p "31 - i"] that by auto
  have "\<not> p < ?r" using sp b [of p] a by (metis less_le_trans order_refl nat_less_le)
  moreover have "\<not> ?r < p" using sp b [of ?r] a by auto
  ultimately have r: "?r = p" by simp
  have "take_bit (32 - p) ?m = 0" using a by (simp add: take_bit_not_mask_eq_0)
  then show "netmask_to_prefix nm = Some p" by (simp add: netmask_to_prefix_def Let_def r)
qed

lemma bit_be32:
  assumes "i < 32"
  shows "bit (be32 a) (31 - i) = bit (a ! (i div 8)) (7 - i mod 8)"
proof -
  have q: "i div 8 = q \<and> i mod 8 = i - 8 * q" if "8 * q \<le> i" "i < 8 * q + 8" for q :: nat
    using that by (simp add: div_nat_eqI modulo_nat_def)
  have high: "8 \<le> n \<Longrightarrow> bit w n = False" for n and w :: byte
    using bit_imp_le_length [of w n] by auto
  consider "i < 8" | "8 \<le> i" "i < 16" | "16 \<le> i" "i < 24" | "24 \<le> i" using assms by linarith
  then show ?thesis
  proof cases
    case 1
    then show ?thesis by (auto simp: be32_def bit_simps high)
  next
    case 2
    then show ?thesis using q [of 1] by (auto simp: be32_def bit_simps high)
  next
    case 3
    then show ?thesis using q [of 2] by (auto simp: be32_def bit_simps high)
  next
    case 4
    then show ?thesis using q [of 3] assms by (auto simp: be32_def bit_simps high)
  qed
qed

lemma same_subnet_iff:
  assumes "p \<le> 32"
  shows "same_subnet a b p \<longleftrightarrow> be32 a AND NOT (mask (32 - p)) = be32 b AND NOT (mask (32 - p))"
proof -
  have "same_subnet a b p \<longleftrightarrow> (\<forall>i<p. bit (be32 a) (31 - i) = bit (be32 b) (31 - i))"
    using assms bit_be32 [of _ a] bit_be32 [of _ b] by (auto simp: same_subnet_def list_all_iff)
  also have "\<dots> \<longleftrightarrow> (\<forall>n<32. 32 - p \<le> n \<longrightarrow> bit (be32 a) n = bit (be32 b) n)"
  proof -
    have "bit (be32 a) n = bit (be32 b) n"
      if "\<forall>i<p. bit (be32 a) (31 - i) = bit (be32 b) (31 - i)" "n < 32" "32 - p \<le> n" for n
      using that(1) [rule_format, of "31 - n"] that(2,3) assms by simp
    moreover have "bit (be32 a) (31 - i) = bit (be32 b) (31 - i)"
      if "\<forall>n<32. 32 - p \<le> n \<longrightarrow> bit (be32 a) n = bit (be32 b) n" "i < p" for i
      using that(1) [rule_format, of "31 - i"] that(2) assms by simp
    ultimately show ?thesis by blast
  qed
  also have "\<dots> \<longleftrightarrow> be32 a AND NOT (mask (32 - p)) = be32 b AND NOT (mask (32 - p))"
    using assms by (auto simp: u32_eq_iff bit_simps)
  finally show ?thesis .
qed

section \<open>The reply carries the addresses\<close>

lemma slice_cong:
  assumes "length xs = length ys" "\<And>i. off \<le> i \<Longrightarrow> i < off + n \<Longrightarrow> i < length xs \<Longrightarrow> xs ! i = ys ! i"
  shows "slice off n xs = slice off n ys"
  by (rule nth_equalityI) (use assms in \<open>auto simp: slice_def\<close>)

lemma slice_update_other: "i < off \<or> off + n \<le> i \<Longrightarrow> slice off n (xs[i := v]) = slice off n xs"
  by (rule slice_cong) auto

lemma nth_blit_other:
  "o2 + length src \<le> length xs \<Longrightarrow> j < length xs \<Longrightarrow> j < o2 \<or> o2 + length src \<le> j \<Longrightarrow> blit o2 src xs ! j = xs ! j"
  by (auto simp: blit_def nth_append)

lemma slice_blit_other:
  "off + n \<le> o2 \<or> o2 + length src \<le> off \<Longrightarrow> o2 + length src \<le> length xs \<Longrightarrow>
   slice off n (blit o2 src xs) = slice off n xs"
  by (rule slice_cong) (auto intro!: nth_blit_other)

lemma length_put_be16 [simp]: "length (put_be16 v) = 2"
  by (simp add: put_be16_def)

lemma build_frame_fields:
  assumes "snd (read_mac env (dc_iface d)) = mac" "read_ipv4 env (dc_iface d) = (ip, nm)"
    "read_gateway env (dc_iface d) = gw" "length mac = 6" "length ip = 4" "length nm = 4" "length gw = 4"
    "length cmd4 = 4"
  shows "length (build_frame env d cmd4) = 50" "slice 0 4 (build_frame env d cmd4) = text_bytes cmd4"
    "slice 4 6 (build_frame env d cmd4) = mac"
    "slice 11 4 (build_frame env d cmd4) = ip" "slice 15 4 (build_frame env d cmd4) = nm"
    "slice 19 4 (build_frame env d cmd4) = gw" "slice 23 2 (build_frame env d cmd4) = put_be16 (dc_tcp_port d)"
  unfolding build_frame_def assms(1-3) Let_def prod.case
  using assms(4-8)
  by (simp_all add: slice_update_other slice_blit_other slice_blit_same text_bytes_def)

section \<open>Properties\<close>

text \<open>
  The bit loops are network arithmetic: a netmask has the length \<open>p\<close> exactly when it is the
  mask of \<open>p\<close> leading ones, and two addresses are found in one network exactly when they agree
  under that mask.
\<close>

theorem network_arithmetic:
  "(netmask_to_prefix nm = Some p \<longleftrightarrow> p \<le> 32 \<and> be32 nm = NOT (mask (32 - p)))
   \<and> (netmask_to_prefix nm = Some p \<longrightarrow>
        (same_subnet a b p \<longleftrightarrow> be32 a AND be32 nm = be32 b AND be32 nm))"
  using netmask_to_prefix_iff [of nm p] same_subnet_iff [of p a b] by auto

theorem network_arithmetic_witness:
  "netmask_to_prefix [255, 255, 240, 0] = Some 20
   \<and> (same_subnet [10, 1, 31, 7] [10, 1, 16, 1] 20
      \<longleftrightarrow> be32 [10, 1, 31, 7] AND be32 [255, 255, 240, 0] = be32 [10, 1, 16, 1] AND be32 [255, 255, 240, 0])"
proof -
  have "be32 [255, 255, 240, 0] = NOT (mask (32 - 20))" by (simp add: be32_def mask_eq_exp_minus_1)
  with network_arithmetic [of "[255, 255, 240, 0]" 20] show ?thesis by simp
qed

text \<open>What a set-up request needs to be accepted, in the terms of its address fields.\<close>

definition sett_accepted :: "disc_env \<Rightarrow> acu_discover \<Rightarrow> nat \<Rightarrow> byte list \<Rightarrow> nat \<Rightarrow> bool" where
  "sett_accepted env d idx req p \<longleftrightarrow>
     length req = 58 \<and> take 4 req = text_bytes ''SETT''
     \<and> (dc_ifindex d = 0 \<or> idx = 0 \<or> idx = dc_ifindex d)
     \<and> (\<exists>ns. de_mac_scan env (dc_iface d) = Some ns \<and> length ns = 6 \<and> slice 4 6 req = map of_nat ns)
     \<and> dc_request_path d \<noteq> []
     \<and> (dc_sett_password d = [] \<or> slice 50 4 req = text_bytes ''IDTi''
          \<and> c_prefix4 (slice 54 4 req) = c_prefix4 (text_bytes (dc_sett_password d)))
     \<and> (let ip = be32 (slice 11 4 req); nm = be32 (slice 15 4 req); gw = be32 (slice 19 4 req)
        in ip \<noteq> 0 \<and> ip \<noteq> 0xFFFFFFFF \<and> 8 \<le> p \<and> p \<le> 30 \<and> nm = NOT (mask (32 - p))
           \<and> ip \<noteq> gw \<and> ip AND nm = gw AND nm)
     \<and> de_fopen_ok env \<and> de_fflush_ok env \<and> de_rename_ok env"

lemma be32_eq_iff: "length a = 4 \<Longrightarrow> length b = 4 \<Longrightarrow> be32 a = be32 b \<longleftrightarrow> a = b"
  by (metis put32_of_be32)

lemma be32_const:
  "length a = 4 \<Longrightarrow> be32 a = 0 \<longleftrightarrow> a ! 0 = 0 \<and> a ! 1 = 0 \<and> a ! 2 = 0 \<and> a ! 3 = 0"
  "length a = 4 \<Longrightarrow> be32 a = 0xFFFFFFFF \<longleftrightarrow> a ! 0 = 255 \<and> a ! 1 = 255 \<and> a ! 2 = 255 \<and> a ! 3 = 255"
proof -
  assume l: "length a = 4"
  then obtain x y z w where a: "a = [x, y, z, w]"
    by (auto simp: length_Suc_conv numeral_eq_Suc)
  have "be32 [0, 0, 0, 0] = 0" "be32 [255, 255, 255, 255] = 0xFFFFFFFF" by (simp_all add: be32_def)
  with be32_eq_iff [OF l, of "[0, 0, 0, 0]"] be32_eq_iff [OF l, of "[255, 255, 255, 255]"]
  show "be32 a = 0 \<longleftrightarrow> a ! 0 = 0 \<and> a ! 1 = 0 \<and> a ! 2 = 0 \<and> a ! 3 = 0"
    "be32 a = 0xFFFFFFFF \<longleftrightarrow> a ! 0 = 255 \<and> a ! 1 = 255 \<and> a ! 2 = 255 \<and> a ! 3 = 255"
    by (simp_all add: a numeral_2_eq_2 numeral_3_eq_3)
qed

lemma sett_validate_iff:
  assumes "length req = 58"
  shows "sett_validate req = Inr p \<longleftrightarrow>
    (let ip = be32 (slice 11 4 req); nm = be32 (slice 15 4 req); gw = be32 (slice 19 4 req)
     in ip \<noteq> 0 \<and> ip \<noteq> 0xFFFFFFFF \<and> 8 \<le> p \<and> p \<le> 30 \<and> nm = NOT (mask (32 - p))
        \<and> ip \<noteq> gw \<and> ip AND nm = gw AND nm)"
proof -
  have l: "length (slice 11 4 req) = 4" "length (slice 15 4 req) = 4" "length (slice 19 4 req) = 4"
    using assms by simp_all
  let ?p = "netmask_to_prefix (slice 15 4 req)"
  note m = netmask_to_prefix_iff [of "slice 15 4 req" p] and sub = same_subnet_iff [of p "slice 11 4 req" "slice 19 4 req"]
  show ?thesis
  proof (cases ?p)
    case None
    then have "\<not> (p \<le> 30 \<and> be32 (slice 15 4 req) = NOT (mask (32 - p)))" using m by simp
    then show ?thesis unfolding sett_validate_def Let_def None option.case by auto
  next
    case (Some q)
    show ?thesis
    proof (cases "q = p")
      case True
      then show ?thesis
        using m sub Some
        unfolding sett_validate_def Let_def Some option.case be32_const(1) [OF l(1)] be32_const(2) [OF l(1)]
          be32_eq_iff [OF l(1,3)] by auto
    next
      case False
      then have "\<not> (p \<le> 30 \<and> be32 (slice 15 4 req) = NOT (mask (32 - p)))" using m Some by simp
      then show ?thesis using False unfolding sett_validate_def Let_def Some option.case by auto
    qed
  qed
qed

lemma for_us_iff:
  "sett_is_for_us env d req \<longleftrightarrow>
     (\<exists>ns. de_mac_scan env (dc_iface d) = Some ns \<and> length ns = 6 \<and> slice 4 6 req = map of_nat ns)"
  by (auto simp: sett_is_for_us_def read_mac_def split: option.splits)

lemma password_iff:
  "sett_password_ok d req \<longleftrightarrow> dc_sett_password d = [] \<or> slice 50 4 req = text_bytes ''IDTi''
     \<and> c_prefix4 (slice 54 4 req) = c_prefix4 (text_bytes (dc_sett_password d))"
  by (simp add: sett_password_ok_def)

text \<open>The service on a set-up request that arrives at the reported interface.\<close>

definition set_reply :: "disc_env \<Rightarrow> acu_discover \<Rightarrow> string \<Rightarrow> byte list" where
  "set_reply env d cmd4 = build_frame env d cmd4 @ zeros 8"

lemma build_frame_request [simp]: "build_frame env (d\<lparr> kd_request := r \<rparr>) = build_frame env d"
  by (simp add: build_frame_def fun_eq_iff)

lemma handle_sett_cases:
  "handle_sett env d req =
    (if \<not> sett_is_for_us env d req then d
     else case sett_validate req of
            Inr p \<Rightarrow> if dc_request_path d \<noteq> [] \<and> sett_password_ok d req
                        \<and> de_fopen_ok env \<and> de_fflush_ok env \<and> de_rename_ok env
                     then d\<lparr> kd_request := Some (request_text req p), kd_sent := kd_sent d @ [set_reply env d ''SETC''] \<rparr>
                     else d\<lparr> kd_sent := kd_sent d @ [set_reply env d ''FAIL''] \<rparr>
          | Inl _ \<Rightarrow> d\<lparr> kd_sent := kd_sent d @ [set_reply env d ''FAIL''] \<rparr>)"
  by (simp add: handle_sett_def send_set_reply_def send_reply_def set_reply_def sett_write_request_def
      split: sum.split)

lemma service_cases:
  "discover_service env (Some (req, idx)) d =
    (let buf = take 256 req; here = (dc_ifindex d = 0 \<or> idx = 0 \<or> idx = dc_ifindex d)
     in if \<not> here then d
        else if length buf = 4 \<and> take 4 buf = text_bytes ''FIND'' then send_reply d (build_frame env d ''IMIN'')
        else if length buf = 58 \<and> take 4 buf = text_bytes ''SETT'' then handle_sett env d buf
        else d)"
proof -
  have "length (take 256 req) \<noteq> 4 \<and> length (take 256 req) \<noteq> 58" if "length (take 256 req) < 4" using that by linarith
  then show ?thesis
    unfolding discover_service_def option.case prod.case Let_def slice_def drop_0 by argo
qed

lemma service_sett:
  assumes "length req = 58" "take 4 req = text_bytes ''SETT''" "dc_ifindex d = 0 \<or> idx = 0 \<or> idx = dc_ifindex d"
  shows "discover_service env (Some (req, idx)) d = handle_sett env d req"
  using assms by (simp add: service_cases)

lemma service_no_sett:
  assumes "\<not> (length req = 58 \<and> take 4 req = text_bytes ''SETT'' \<and> (dc_ifindex d = 0 \<or> idx = 0 \<or> idx = dc_ifindex d))"
  shows "discover_service env (Some (req, idx)) d = d
     \<or> discover_service env (Some (req, idx)) d = send_reply d (build_frame env d ''IMIN'')"
proof -
  have "length (take 256 req) = 58 \<Longrightarrow> length req = 58" by (simp add: min_def split: if_splits)
  moreover have "take 4 (take 256 req) = take 4 req" by (simp add: min_def)
  ultimately show ?thesis using assms unfolding service_cases Let_def by argo
qed

text \<open>
  C39. The network settings are handed over only for an acceptable request: for any datagram, the
  request file is replaced exactly when the datagram is a set-up request of the right length for
  this device's own hardware address, arriving at the reported interface, with the password when
  one is set, a proper address, a mask of 8 to 30 leading ones and a gateway that is another
  address of the same network; then it holds that address, length and gateway, and the answer is
  SETC. Otherwise the file stays as it was and no SETC is sent.
\<close>

theorem settings_only_when_accepted:
  "(\<exists>p. sett_accepted env d idx req p
      \<and> kd_request (discover_service env (Some (req, idx)) d) = Some (request_text req p)
      \<and> kd_sent (discover_service env (Some (req, idx)) d) = kd_sent d @ [set_reply env d ''SETC''])
   \<or> (\<nexists>p. sett_accepted env d idx req p)
      \<and> kd_request (discover_service env (Some (req, idx)) d) = kd_request d
      \<and> kd_sent (discover_service env (Some (req, idx)) d)
          \<in> {kd_sent d, kd_sent d @ [set_reply env d ''FAIL''], kd_sent d @ [build_frame env d ''IMIN'']}"
proof (cases "length req = 58 \<and> take 4 req = text_bytes ''SETT'' \<and> (dc_ifindex d = 0 \<or> idx = 0 \<or> idx = dc_ifindex d)")
  case False
  then show ?thesis
    using service_no_sett [OF False, of env] by (auto simp: sett_accepted_def send_reply_def)
next
  case True
  then have acc: "sett_accepted env d idx req p \<longleftrightarrow> sett_is_for_us env d req \<and> dc_request_path d \<noteq> []
      \<and> sett_password_ok d req \<and> sett_validate req = Inr p \<and> de_fopen_ok env \<and> de_fflush_ok env \<and> de_rename_ok env" for p
    unfolding sett_accepted_def for_us_iff password_iff sett_validate_iff [OF conjunct1 [OF True]] by blast
  from True have "discover_service env (Some (req, idx)) d = handle_sett env d req" by (intro service_sett) auto
  then show ?thesis unfolding acc handle_sett_cases by (auto split: sum.splits)
qed

definition demo_disc_env :: disc_env where
  "demo_disc_env = \<lparr> de_mac_scan = (\<lambda>_. Some [2, 0, 0, 0xAB, 0xCD, 1]),
     de_ifaddrs = Some [\<lparr> ia_inet = True, ia_name = ''lo'', ia_addr = [127, 0, 0, 1], ia_netmask = None \<rparr>,
       \<lparr> ia_inet = True, ia_name = ''eth0'', ia_addr = [192, 168, 0, 7], ia_netmask = Some [255, 255, 255, 0] \<rparr>],
     de_routes = Some [None, Some (''eth0'', 0, 0x0100A8C0)], de_ifindex = (\<lambda>_. 2),
     de_fopen_ok = True, de_fflush_ok = True, de_rename_ok = True \<rparr>"

definition demo_disc :: acu_discover where
  "demo_disc = the (discover_init demo_disc_env 8 True None config_set_defaults)"

lemma demo_disc_state: "dc_iface demo_disc = ''eth0''" "dc_request_path demo_disc \<noteq> []"
  "dc_sett_password demo_disc = []" "dc_ifindex demo_disc = 2" "kd_sent demo_disc = []" "kd_request demo_disc = None"
  by (simp_all add: demo_disc_def discover_init_def load_config_def config_set_defaults_def buffered_def
      demo_disc_env_def Let_def)

lemma demo_disc_reports: "read_ipv4 demo_disc_env ''eth0'' = ([192, 168, 0, 7], [255, 255, 255, 0])"
  "read_gateway demo_disc_env ''eth0'' = [192, 168, 0, 1]"
  "de_mac_scan demo_disc_env ''eth0'' = Some [2, 0, 0, 0xAB, 0xCD, 1]"
  by (simp_all add: read_ipv4_def read_gateway_def demo_disc_env_def)

lemma digits: "char_of (48 :: nat) = CHR ''0''" "char_of (49 :: nat) = CHR ''1''" "char_of (50 :: nat) = CHR ''2''"
  "char_of (52 :: nat) = CHR ''4''" "char_of (54 :: nat) = CHR ''6''" "char_of (55 :: nat) = CHR ''7''"
  "char_of (56 :: nat) = CHR ''8''" "char_of (57 :: nat) = CHR ''9''"
  by (simp_all add: char_of_def bit_0)

lemma demo_disc_files: "de_fopen_ok demo_disc_env" "de_fflush_ok demo_disc_env" "de_rename_ok demo_disc_env"
  by (simp_all add: demo_disc_env_def)

definition demo_sett :: "byte list" where
  "demo_sett = text_bytes ''SETT'' @ [2, 0, 0, 0xAB, 0xCD, 1, 2, 10, 1, 31, 7, 255, 255, 240, 0, 10, 1, 16, 1] @ zeros 35"

lemma demo_sett_accepted: "sett_accepted demo_disc_env demo_disc 2 demo_sett 20"
  by (simp add: sett_accepted_def demo_disc_state demo_disc_reports demo_disc_files demo_sett_def slice_def
      text_bytes_def be32_def mask_eq_exp_minus_1)

theorem settings_only_when_accepted_witness:
  "kd_sent (discover_service demo_disc_env (Some (demo_sett, 2)) demo_disc) = [set_reply demo_disc_env demo_disc ''SETC'']"
  using settings_only_when_accepted [of demo_disc_env demo_disc 2 demo_sett] demo_sett_accepted
  by (auto simp: demo_disc_state)

lemma slice_reply:
  "length f = 50 \<Longrightarrow> length c = 4 \<Longrightarrow> 4 \<le> off \<Longrightarrow> off + n \<le> 50 \<Longrightarrow> slice off n (c @ drop 4 f @ r) = slice off n f"
  by (simp add: slice_def)

text \<open>
  Settings round trip: what a device reports when it is searched for, sent back unchanged as a
  set-up request, is accepted and asks for exactly the address, the mask and the gateway the
  device has.
\<close>

theorem reported_settings_accepted:
  assumes "de_mac_scan env (dc_iface d) = Some ns" "length ns = 6"
    and "read_ipv4 env (dc_iface d) = (ip, nm)" "read_gateway env (dc_iface d) = gw"
    and "length ip = 4" "length nm = 4" "length gw = 4"
    and "be32 ip \<noteq> 0" "be32 ip \<noteq> 0xFFFFFFFF" "8 \<le> p" "p \<le> 30" "be32 nm = NOT (mask (32 - p))"
    and "ip \<noteq> gw" "be32 ip AND be32 nm = be32 gw AND be32 nm"
    and "dc_request_path d \<noteq> []" "dc_sett_password d = []"
    and "de_fopen_ok env" "de_fflush_ok env" "de_rename_ok env"
  shows "kd_request (discover_service env
      (Some (text_bytes ''SETT'' @ drop 4 (build_frame env d ''IMIN'') @ zeros 8, dc_ifindex d)) d)
    = Some (''ip='' @ ip_to_text ip @ [CHR 0x0A] @ ''prefix='' @ decimal p @ [CHR 0x0A]
        @ ''gateway='' @ ip_to_text gw @ [CHR 0x0A] @ ''dns='' @ ip_to_text gw @ [CHR 0x0A])"
proof -
  define f where "f = build_frame env d ''IMIN''"
  define req where "req = text_bytes ''SETT'' @ drop 4 f @ zeros 8"
  have mac: "snd (read_mac env (dc_iface d)) = map of_nat ns" "length (map of_nat ns :: byte list) = 6"
    using assms(1,2) by (simp_all add: read_mac_def)
  note fields = build_frame_fields [OF mac(1) assms(3,4) mac(2) assms(5,6,7), of "''IMIN''", folded f_def]
  have f: "length f = 50" using fields(1) by simp
  have c: "length (text_bytes ''SETT'') = 4" by (simp add: text_bytes_def)
  have len: "length req = 58" "take 4 req = text_bytes ''SETT''" using f c by (simp_all add: req_def)
  have sl: "slice 4 6 req = map of_nat ns" "slice 11 4 req = ip" "slice 15 4 req = nm" "slice 19 4 req = gw"
    using fields by (simp_all add: req_def slice_reply [OF f c])
  have "sett_validate req = Inr p"
    using assms(8-14) be32_eq_iff [OF assms(5,7)] by (simp add: sett_validate_iff [OF len(1)] sl)
  moreover have "sett_is_for_us env d req" using assms(1,2) sl(1) by (simp add: for_us_iff)
  moreover have "sett_password_ok d req" using assms(16) by (simp add: password_iff)
  ultimately have "kd_request (handle_sett env d req) = Some (request_text req p)"
    using assms(15,17-19) by (simp add: handle_sett_cases)
  moreover have "discover_service env (Some (req, dc_ifindex d)) d = handle_sett env d req"
    by (rule service_sett [OF len]) simp
  ultimately show ?thesis unfolding req_def [symmetric] f_def [symmetric]
    by (simp add: request_text_def sl Let_def)
qed

theorem reported_settings_accepted_witness:
  "kd_request (discover_service demo_disc_env
      (Some (text_bytes ''SETT'' @ drop 4 (build_frame demo_disc_env demo_disc ''IMIN'') @ zeros 8, 2)) demo_disc)
    = Some (''ip=192.168.0.7'' @ [CHR 0x0A] @ ''prefix=24'' @ [CHR 0x0A]
        @ ''gateway=192.168.0.1'' @ [CHR 0x0A] @ ''dns=192.168.0.1'' @ [CHR 0x0A])"
proof -
  have "be32 [255, 255, 255, 0] = NOT (mask (32 - 24))" by (simp add: be32_def mask_eq_exp_minus_1)
  moreover have "be32 [192, 168, 0, 7] AND be32 [255, 255, 255, 0] = be32 [192, 168, 0, 1] AND be32 [255, 255, 255, 0]"
    by (simp add: be32_def)
  ultimately show ?thesis
    using reported_settings_accepted [of demo_disc_env demo_disc "[2, 0, 0, 0xAB, 0xCD, 1]" "[192, 168, 0, 7]"
        "[255, 255, 255, 0]" "[192, 168, 0, 1]" 24]
    by (simp add: demo_disc_state demo_disc_reports demo_disc_files be32_def ip_to_text_def decimal.simps digits)
qed

end
