(* ===== verification/Hal_Mock.thy ===== *)
theory Hal_Mock
  imports Prelude Config
begin

text \<open>
  The hardware layer of \<open>acud/hal.h\<close> as \<open>acud/hal_mock.c\<close> implements it: the lines that arrive
  over the pipe (commands and card numbers), the queue of waiting cards, the queue of lost
  readers, the sensors, and the commands to the relays. The static variables of the file are the
  state. Both queues are shown to be bounded FIFOs.
\<close>

abbreviation (input) HAL_RRU_MAX :: int where "HAL_RRU_MAX \<equiv> 7"
abbreviation (input) MOCK_LINE_CAP :: nat where "MOCK_LINE_CAP \<equiv> 256"
abbreviation (input) MOCK_DOWN_CAP :: nat where "MOCK_DOWN_CAP \<equiv> 8"
abbreviation (input) MOCK_CARD_QUEUE_CAP :: nat where "MOCK_CARD_QUEUE_CAP \<equiv> 16"
abbreviation (input) MOCK_FIFO_PATH_DEFAULT :: string where "MOCK_FIFO_PATH_DEFAULT \<equiv> ''acud_mock.fifo''"

datatype hal_sensor_id = HAL_SENSOR_DOOR_CONTACT | HAL_SENSOR_EXIT_BUTTON | HAL_SENSOR_ALARM_INPUT
  | HAL_SENSOR_FIRE_INPUT

abbreviation (input) HAL_SENSOR_INACTIVE :: int where "HAL_SENSOR_INACTIVE \<equiv> 0"
abbreviation (input) HAL_SENSOR_ACTIVE :: int where "HAL_SENSOR_ACTIVE \<equiv> 1"

section \<open>State\<close>

text \<open>What the relays were told, in order.\<close>

datatype hal_call = Open_door int | Set_force_open bool | Set_output int int bool

text \<open>\<open>hl_line\<close> is \<open>g_line[0 .. g_line_len)\<close>; \<open>hl_auto_on\<close> is the kernel's timer.\<close>

record hal =
  hl_card_idx :: nat
  hl_auto_fd :: int
  hl_auto_on :: bool
  hl_fifo_fd :: int
  hl_fifo_path :: string
  hl_line :: string
  hl_door_active :: bool
  hl_exit_active :: bool
  hl_down :: "int list"
  hl_down_head :: nat
  hl_down_count :: nat
  hl_alarm_active :: bool
  hl_fire_active :: bool
  hl_cards :: "string list"
  hl_cards_head :: nat
  hl_cards_count :: nat
  hl_calls :: "hal_call list"

definition hal_static :: hal where
  "hal_static = \<lparr> hl_card_idx = 0, hl_auto_fd = -1, hl_auto_on = False, hl_fifo_fd = -1,
     hl_fifo_path = MOCK_FIFO_PATH_DEFAULT, hl_line = [], hl_door_active = False, hl_exit_active = False,
     hl_down = replicate MOCK_DOWN_CAP 0, hl_down_head = 0, hl_down_count = 0, hl_alarm_active = False,
     hl_fire_active = False, hl_cards = replicate MOCK_CARD_QUEUE_CAP [], hl_cards_head = 0,
     hl_cards_count = 0, hl_calls = [] \<rparr>"

definition DUMMY_CARD_IDS :: "string list" where
  "DUMMY_CARD_IDS = [''04A1B2C3D4E5F600'', ''AABBCCDD11223300'', ''FFFFFFFFFFFFFFFF'',
     ''1122334455667700'', ''2233445566778800'', ''3344556677889900'']"

section \<open>The card queue\<close>

definition push_card :: "hal \<Rightarrow> string \<Rightarrow> hal" where
  "push_card h card_id =
    (let h1 = (if hl_cards_count h = MOCK_CARD_QUEUE_CAP
               then h\<lparr> hl_cards_head := (hl_cards_head h + 1) mod MOCK_CARD_QUEUE_CAP,
                       hl_cards_count := hl_cards_count h - 1 \<rparr>
               else h);
         idx = (hl_cards_head h1 + hl_cards_count h1) mod MOCK_CARD_QUEUE_CAP
     in h1\<lparr> hl_cards := (hl_cards h1)[idx := buffered 17 card_id], hl_cards_count := hl_cards_count h1 + 1 \<rparr>)"

text \<open>\<open>None\<close> is the result 0. The reader number is always 1 here.\<close>

definition hal_read_card :: "hal \<Rightarrow> (int \<times> string) option \<times> hal" where
  "hal_read_card h =
    (if hl_cards_count h = 0 then (None, h)
     else (Some (1, hl_cards h ! hl_cards_head h),
           h\<lparr> hl_cards_head := (hl_cards_head h + 1) mod MOCK_CARD_QUEUE_CAP,
              hl_cards_count := hl_cards_count h - 1 \<rparr>))"

definition hal_take_disconnected_rru :: "hal \<Rightarrow> int \<times> hal" where
  "hal_take_disconnected_rru h =
    (if hl_down_count h = 0 then (0, h)
     else (hl_down h ! hl_down_head h,
           h\<lparr> hl_down_head := (hl_down_head h + 1) mod MOCK_DOWN_CAP, hl_down_count := hl_down_count h - 1 \<rparr>))"

section \<open>Lines\<close>

definition c_string :: "string \<Rightarrow> string" where
  "c_string s = takeWhile (\<lambda>c. c \<noteq> CHR 0x00) s"

definition is_blank :: "char \<Rightarrow> bool" where
  "is_blank c \<longleftrightarrow> c = CHR '' '' \<or> c = CHR 0x09 \<or> c = CHR 0x0D \<or> c = CHR 0x0A"

definition trim :: "string \<Rightarrow> string" where
  "trim s = rev (dropWhile is_blank (rev (dropWhile is_blank s)))"

definition isxdigit :: "char \<Rightarrow> bool" where
  "isxdigit c \<longleftrightarrow> isdigit c \<or> (65 \<le> (of_char c :: nat) \<and> (of_char c :: nat) \<le> 70)
     \<or> (97 \<le> (of_char c :: nat) \<and> (of_char c :: nat) \<le> 102)"

definition toupper :: "char \<Rightarrow> char" where
  "toupper c = (if 97 \<le> (of_char c :: nat) \<and> (of_char c :: nat) \<le> 122 then char_of (of_char c - 32 :: nat) else c)"

definition is_card_hex :: "string \<Rightarrow> bool" where
  "is_card_hex s = (if length s < 2 \<or> length s > 16 \<or> length s mod 2 \<noteq> 0 then False else list_all isxdigit s)"

text \<open>\<open>atoi\<close>: leading white space, a sign, digits; a value beyond \<open>int\<close> is undefined in C.\<close>

definition isspace :: "char \<Rightarrow> bool" where
  "isspace c \<longleftrightarrow> c = CHR '' '' \<or> (9 \<le> (of_char c :: nat) \<and> (of_char c :: nat) \<le> 13)"

definition digits_value :: "string \<Rightarrow> int" where
  "digits_value s = foldl (\<lambda>v c. 10 * v + (int (of_char c) - 48)) 0 (takeWhile isdigit s)"

definition atoi :: "string \<Rightarrow> int" where
  "atoi s =
    (case dropWhile isspace s of
       [] \<Rightarrow> 0
     | c # cs \<Rightarrow> if c = CHR ''-'' then - digits_value cs
                 else if c = CHR ''+'' then digits_value cs
                 else digits_value (c # cs))"

definition set_auto_timer :: "hal \<Rightarrow> bool \<Rightarrow> hal" where
  "set_auto_timer h on = (if hl_auto_fd h < 0 then h else h\<lparr> hl_auto_on := on \<rparr>)"

text \<open>The boolean is the result: True for a known command.\<close>

definition handle_command :: "hal \<Rightarrow> string \<Rightarrow> bool \<times> hal" where
  "handle_command h line =
    (if line = ''door open'' \<or> line = ''door closed'' then (True, h\<lparr> hl_door_active := (line = ''door open'') \<rparr>)
     else if line = ''exit on'' \<or> line = ''exit off'' then (True, h\<lparr> hl_exit_active := (line = ''exit on'') \<rparr>)
     else if take 9 line = ''rru down ''
     then let rru = atoi (drop 9 line)
          in if rru \<ge> 1 \<and> rru \<le> HAL_RRU_MAX \<and> hl_down_count h < MOCK_DOWN_CAP
             then (True, h\<lparr> hl_down := (hl_down h)[(hl_down_head h + hl_down_count h) mod MOCK_DOWN_CAP := rru],
                            hl_down_count := hl_down_count h + 1 \<rparr>)
             else (True, h)
     else if line = ''alarm on'' \<or> line = ''alarm off'' then (True, h\<lparr> hl_alarm_active := (line = ''alarm on'') \<rparr>)
     else if line = ''fire on'' \<or> line = ''fire off'' then (True, h\<lparr> hl_fire_active := (line = ''fire on'') \<rparr>)
     else if line = ''auto on'' \<or> line = ''auto off'' then (True, set_auto_timer h (line = ''auto on''))
     else if line = ''list'' then (True, h)
     else (False, h))"

text \<open>\<open>snprintf\<close> with \<open>"%-16s"\<close>, blanks to zeros, letters to upper case.\<close>

definition padded_card :: "string \<Rightarrow> string" where
  "padded_card line =
     map (\<lambda>c. if c = CHR '' '' then CHR ''0'' else toupper c)
       (buffered 17 (line @ replicate (16 - length line) (CHR '' '')))"

definition handle_line :: "hal \<Rightarrow> string \<Rightarrow> hal" where
  "handle_line h s =
    (let line = trim (c_string s)
     in if line = [] then h
        else let (known, h1) = handle_command h line
             in if known then h1
                else if is_card_hex line then push_card h1 (padded_card line)
                else h1)"

text \<open>
  \<open>drain_fifo\<close>: \<open>input\<close> is what the \<open>read\<close> calls return one after the other. The character that
  ends a line is dropped, also when the line ends because its buffer is full.
\<close>

definition fifo_char :: "char \<Rightarrow> hal \<Rightarrow> hal" where
  "fifo_char c h =
    (if c \<noteq> CHR 0x0A \<and> length (hl_line h) < MOCK_LINE_CAP - 1
     then h\<lparr> hl_line := hl_line h @ [c] \<rparr>
     else handle_line (h\<lparr> hl_line := [] \<rparr>) (hl_line h))"

definition drain_fifo :: "string \<Rightarrow> hal \<Rightarrow> hal" where
  "drain_fifo input h = (if hl_fifo_fd h < 0 then h else fold fifo_char input h)"

section \<open>The interface\<close>

text \<open>
  \<open>hal_init\<close>: the environment variable, whether \<open>mkfifo\<close> succeeds or the pipe exists, and the
  descriptors of \<open>open\<close> and \<open>timerfd_create\<close> (-1 when they fail). It always returns 0.
\<close>

definition hal_init :: "string option \<Rightarrow> bool \<Rightarrow> int \<Rightarrow> int \<Rightarrow> hal \<Rightarrow> hal" where
  "hal_init fifo_env mkfifo_ok fifo_fd auto_fd h =
    (let h1 = (case fifo_env of
                 None \<Rightarrow> h
               | Some p \<Rightarrow> if p \<noteq> [] then h\<lparr> hl_fifo_path := buffered 256 p \<rparr> else h)
     in if \<not> mkfifo_ok then h1
        else if fifo_fd < 0 then h1\<lparr> hl_fifo_fd := fifo_fd \<rparr>
        else h1\<lparr> hl_fifo_fd := fifo_fd, hl_auto_fd := auto_fd \<rparr>)"

definition hal_shutdown :: "hal \<Rightarrow> hal" where
  "hal_shutdown h =
    (let h1 = (if hl_fifo_fd h \<ge> 0 then h\<lparr> hl_fifo_fd := -1 \<rparr> else h)
     in if hl_auto_fd h1 \<ge> 0 then h1\<lparr> hl_auto_fd := -1 \<rparr> else h1)"

definition hal_input_fds :: "hal \<Rightarrow> int list" where
  "hal_input_fds h = (if hl_fifo_fd h \<ge> 0 then [hl_fifo_fd h] else []) @ (if hl_auto_fd h \<ge> 0 then [hl_auto_fd h] else [])"

primrec auto_cards :: "nat \<Rightarrow> hal \<Rightarrow> hal" where
  "auto_cards 0 h = h"
| "auto_cards (Suc n) h =
    auto_cards n ((push_card h (DUMMY_CARD_IDS ! hl_card_idx h))
      \<lparr> hl_card_idx := (hl_card_idx h + 1) mod length DUMMY_CARD_IDS \<rparr>)"

text \<open>\<open>input\<close> is what the pipe holds, \<open>expirations\<close> what the timer's \<open>read\<close> returns (\<open>None\<close>: it fails).\<close>

definition hal_service_fd :: "string \<Rightarrow> nat option \<Rightarrow> int \<Rightarrow> hal \<Rightarrow> hal" where
  "hal_service_fd input expirations fd h =
    (if fd \<ge> 0 \<and> fd = hl_fifo_fd h then drain_fifo input h
     else if fd \<ge> 0 \<and> fd = hl_auto_fd h
     then case expirations of None \<Rightarrow> h | Some n \<Rightarrow> auto_cards n h
     else h)"

definition hal_open_door :: "int \<Rightarrow> hal \<Rightarrow> hal" where
  "hal_open_door seconds h = h\<lparr> hl_calls := hl_calls h @ [Open_door seconds] \<rparr>"

definition hal_set_force_open :: "bool \<Rightarrow> hal \<Rightarrow> hal" where
  "hal_set_force_open on h = h\<lparr> hl_calls := hl_calls h @ [Set_force_open on] \<rparr>"

definition hal_set_output :: "int \<Rightarrow> int \<Rightarrow> bool \<Rightarrow> hal \<Rightarrow> hal" where
  "hal_set_output m slot on h = h\<lparr> hl_calls := hl_calls h @ [Set_output m slot on] \<rparr>"

fun hal_read_sensor :: "hal \<Rightarrow> hal_sensor_id \<Rightarrow> int" where
  "hal_read_sensor h HAL_SENSOR_DOOR_CONTACT = (if hl_door_active h then HAL_SENSOR_ACTIVE else HAL_SENSOR_INACTIVE)"
| "hal_read_sensor h HAL_SENSOR_EXIT_BUTTON = (if hl_exit_active h then HAL_SENSOR_ACTIVE else HAL_SENSOR_INACTIVE)"
| "hal_read_sensor h HAL_SENSOR_ALARM_INPUT = (if hl_alarm_active h then HAL_SENSOR_ACTIVE else HAL_SENSOR_INACTIVE)"
| "hal_read_sensor h HAL_SENSOR_FIRE_INPUT = (if hl_fire_active h then HAL_SENSOR_ACTIVE else HAL_SENSOR_INACTIVE)"

section \<open>The invariant\<close>

text \<open>A card in the queue is sixteen hexadecimal digits in upper case, a lost reader is one of the seven.\<close>

definition is_upper_hex :: "char \<Rightarrow> bool" where
  "is_upper_hex c \<longleftrightarrow> isdigit c \<or> (65 \<le> (of_char c :: nat) \<and> (of_char c :: nat) \<le> 70)"

definition card_text :: "string \<Rightarrow> bool" where
  "card_text s \<longleftrightarrow> length s = 16 \<and> list_all is_upper_hex s"

definition card_items :: "hal \<Rightarrow> string list" where
  "card_items h = ring_items (hl_cards h) (hl_cards_head h) (hl_cards_count h)"

definition down_items :: "hal \<Rightarrow> int list" where
  "down_items h = ring_items (hl_down h) (hl_down_head h) (hl_down_count h)"

definition cards_ok :: "hal \<Rightarrow> bool" where
  "cards_ok h \<longleftrightarrow> length (hl_cards h) = MOCK_CARD_QUEUE_CAP \<and> hl_cards_head h < MOCK_CARD_QUEUE_CAP
     \<and> hl_cards_count h \<le> MOCK_CARD_QUEUE_CAP \<and> list_all card_text (card_items h)"

definition down_ok :: "hal \<Rightarrow> bool" where
  "down_ok h \<longleftrightarrow> length (hl_down h) = MOCK_DOWN_CAP \<and> hl_down_head h < MOCK_DOWN_CAP
     \<and> hl_down_count h \<le> MOCK_DOWN_CAP \<and> list_all (\<lambda>r. r \<in> {1..7}) (down_items h)"

definition hal_inv :: "hal \<Rightarrow> bool" where
  "hal_inv h \<longleftrightarrow> cards_ok h \<and> down_ok h \<and> length (hl_line h) < MOCK_LINE_CAP
     \<and> hl_card_idx h < length DUMMY_CARD_IDS"

lemma hal_inv_static: "hal_inv hal_static"
  by (simp add: hal_inv_def hal_static_def cards_ok_def down_ok_def card_items_def down_items_def
      DUMMY_CARD_IDS_def)

lemma card_items_upd [simp]:
  "card_items (h\<lparr> hl_line := a \<rparr>) = card_items h" "card_items (h\<lparr> hl_door_active := b \<rparr>) = card_items h"
  "card_items (h\<lparr> hl_exit_active := b \<rparr>) = card_items h" "card_items (h\<lparr> hl_alarm_active := b \<rparr>) = card_items h"
  "card_items (h\<lparr> hl_fire_active := b \<rparr>) = card_items h" "card_items (h\<lparr> hl_auto_on := b \<rparr>) = card_items h"
  "card_items (h\<lparr> hl_down := d, hl_down_count := n \<rparr>) = card_items h"
  "card_items (h\<lparr> hl_down_head := n, hl_down_count := m \<rparr>) = card_items h"
  "card_items (h\<lparr> hl_calls := c \<rparr>) = card_items h" "card_items (h\<lparr> hl_card_idx := n \<rparr>) = card_items h"
  by (simp_all add: card_items_def)

lemma hal_inv_upd [simp]:
  "hal_inv (h\<lparr> hl_door_active := b \<rparr>) = hal_inv h" "hal_inv (h\<lparr> hl_exit_active := b \<rparr>) = hal_inv h"
  "hal_inv (h\<lparr> hl_alarm_active := b \<rparr>) = hal_inv h" "hal_inv (h\<lparr> hl_fire_active := b \<rparr>) = hal_inv h"
  "hal_inv (h\<lparr> hl_auto_on := b \<rparr>) = hal_inv h" "hal_inv (h\<lparr> hl_calls := c \<rparr>) = hal_inv h"
  by (simp_all add: hal_inv_def cards_ok_def down_ok_def down_items_def)

section \<open>The two queues\<close>

text \<open>
  What the daemon relies on when it empties a queue: the oldest item comes out, the others
  stay in order, and an empty queue says so.
\<close>

locale item_source =
  fixes inv :: "'s \<Rightarrow> bool"
    and items :: "'s \<Rightarrow> 'a list"
    and pop :: "'s \<Rightarrow> 'a option \<times> 's"
  assumes pop_empty: "inv s \<Longrightarrow> items s = [] \<Longrightarrow> pop s = (None, s)"
    and pop_item: "inv s \<Longrightarrow> items s = x # xs \<Longrightarrow> \<exists>s'. pop s = (Some x, s') \<and> inv s' \<and> items s' = xs"
begin

lemma pop_cases:
  assumes "inv s"
  obtains "items s = []" "pop s = (None, s)"
  | x s' where "items s = x # items s'" "pop s = (Some x, s')" "inv s'"
  using pop_empty [OF assms] pop_item [OF assms] by (cases "items s") auto

lemma pop_shorter: "inv s \<Longrightarrow> pop s = (Some x, s') \<Longrightarrow> length (items s') < length (items s)"
  by (erule pop_cases) auto

end

lemma read_card_item:
  assumes "hal_inv h" "card_items h = x # xs"
  shows "\<exists>h'. hal_read_card h = (Some (1, x), h') \<and> hal_inv h' \<and> card_items h' = xs \<and> down_items h' = down_items h"
proof -
  have c: "length (hl_cards h) = 16" "hl_cards_head h < 16" "hl_cards_count h \<le> 16"
    using assms(1) by (simp_all add: hal_inv_def cards_ok_def)
  obtain n where n: "hl_cards_count h = Suc n"
    using assms(2) by (cases "hl_cards_count h") (simp_all add: card_items_def)
  have i: "card_items h = hl_cards h ! hl_cards_head h # ring_items (hl_cards h) ((hl_cards_head h + 1) mod 16) n"
    using ring_items_pop [of "hl_cards_head h" "hl_cards h" n] c by (simp add: card_items_def n)
  let ?h' = "h\<lparr> hl_cards_head := (hl_cards_head h + 1) mod 16, hl_cards_count := n \<rparr>"
  have "hal_read_card h = (Some (1, x), ?h')" using i assms(2) by (simp add: hal_read_card_def n)
  moreover have "card_items ?h' = xs" using i assms(2) by (simp add: card_items_def)
  moreover from this have "hal_inv ?h'"
    using assms c n by (simp add: hal_inv_def cards_ok_def down_ok_def down_items_def)
  ultimately show ?thesis by (auto simp: down_items_def)
qed

lemma take_down_item:
  assumes "hal_inv h" "down_items h = x # xs"
  shows "\<exists>h'. hal_take_disconnected_rru h = (x, h') \<and> hal_inv h' \<and> down_items h' = xs \<and> card_items h' = card_items h"
proof -
  have c: "length (hl_down h) = 8" "hl_down_head h < 8" "hl_down_count h \<le> 8"
    using assms(1) by (simp_all add: hal_inv_def down_ok_def)
  obtain n where n: "hl_down_count h = Suc n"
    using assms(2) by (cases "hl_down_count h") (simp_all add: down_items_def)
  have i: "down_items h = hl_down h ! hl_down_head h # ring_items (hl_down h) ((hl_down_head h + 1) mod 8) n"
    using ring_items_pop [of "hl_down_head h" "hl_down h" n] c by (simp add: down_items_def n)
  let ?h' = "h\<lparr> hl_down_head := (hl_down_head h + 1) mod 8, hl_down_count := n \<rparr>"
  have "hal_take_disconnected_rru h = (x, ?h')" using i assms(2) by (simp add: hal_take_disconnected_rru_def n)
  moreover have "down_items ?h' = xs" using i assms(2) by (simp add: down_items_def)
  moreover from this have "hal_inv ?h'"
    using assms c n by (simp add: hal_inv_def cards_ok_def down_ok_def)
  ultimately show ?thesis by auto
qed

definition pop_down :: "hal \<Rightarrow> int option \<times> hal" where
  "pop_down h = (let (r, h') = hal_take_disconnected_rru h in (if r > 0 then Some r else None, h'))"

interpretation card_source: item_source hal_inv "\<lambda>h. map (Pair 1) (card_items h)" hal_read_card
proof unfold_locales
  fix h x xs
  assume "hal_inv h" "map (Pair (1 :: int)) (card_items h) = x # xs"
  then show "\<exists>h'. hal_read_card h = (Some x, h') \<and> hal_inv h' \<and> map (Pair 1) (card_items h') = xs"
    using read_card_item [of h "snd x"] by (auto simp: map_eq_Cons_conv)
qed (simp add: card_items_def hal_read_card_def ring_items_def)

interpretation down_source: item_source hal_inv down_items pop_down
proof unfold_locales
  fix h x xs
  assume h: "hal_inv h" "down_items h = x # xs"
  then have "1 \<le> x" by (auto simp: hal_inv_def down_ok_def)
  then show "\<exists>h'. pop_down h = (Some x, h') \<and> hal_inv h' \<and> down_items h' = xs"
    using take_down_item [OF h] by (auto simp: pop_down_def)
qed (simp add: down_items_def pop_down_def hal_take_disconnected_rru_def ring_items_def)

lemma card_items_drop:
  assumes "cards_ok h" "hl_cards_count h = 16"
  shows "card_items (h\<lparr> hl_cards_head := (hl_cards_head h + 1) mod 16, hl_cards_count := 15 \<rparr>) = tl (card_items h)"
  using ring_items_pop [of "hl_cards_head h" "hl_cards h" 15] assms
  by (simp add: card_items_def cards_ok_def)

lemma push_card_items:
  assumes "cards_ok h"
  shows "card_items (push_card h s) = (if length (card_items h) = 16 then tl (card_items h) else card_items h) @ [buffered 17 s]"
proof -
  have put: "card_items (h1\<lparr> hl_cards := (hl_cards h1)[(hl_cards_head h1 + hl_cards_count h1) mod 16 := x],
      hl_cards_count := hl_cards_count h1 + 1 \<rparr>) = card_items h1 @ [x]"
    if "length (hl_cards h1) = 16" "hl_cards_count h1 < 16" for h1 x
    using ring_items_push [of "hl_cards_count h1" "hl_cards h1"] that by (simp add: card_items_def)
  show ?thesis
  proof (cases "hl_cards_count h = 16")
    case True
    let ?h1 = "h\<lparr> hl_cards_head := (hl_cards_head h + 1) mod 16, hl_cards_count := 15 \<rparr>"
    have "push_card h s = ?h1\<lparr> hl_cards := (hl_cards ?h1)[(hl_cards_head ?h1 + hl_cards_count ?h1) mod 16 := buffered 17 s],
      hl_cards_count := hl_cards_count ?h1 + 1 \<rparr>"
      using True by (simp add: push_card_def Let_def)
    then show ?thesis
      using put [of ?h1 "buffered 17 s"] card_items_drop [OF assms True] assms True
      by (simp add: cards_ok_def card_items_def)
  next
    case False
    then show ?thesis
      using put [of h "buffered 17 s"] assms by (simp add: push_card_def Let_def cards_ok_def card_items_def)
  qed
qed

lemma push_card_ok:
  assumes "cards_ok h" "card_text s"
  shows "cards_ok (push_card h s)"
proof -
  have "buffered 17 s = s" using assms(2) by (simp add: card_text_def buffered_def)
  then have "list_all card_text (card_items (push_card h s))"
    using assms push_card_items [OF assms(1), of s] by (cases "card_items h") (auto simp: cards_ok_def)
  then show ?thesis using assms(1) by (auto simp: cards_ok_def push_card_def Let_def)
qed

lemma push_card_inv:
  assumes "hal_inv h" "card_text s"
  shows "hal_inv (push_card h s)"
proof -
  have "down_items (push_card h s) = down_items h" by (simp add: down_items_def push_card_def Let_def)
  then have "down_ok (push_card h s) = down_ok h" by (simp add: down_ok_def push_card_def Let_def)
  with assms push_card_ok [of h s] show ?thesis by (auto simp: hal_inv_def push_card_def Let_def)
qed

section \<open>Every input keeps the invariant\<close>

lemma upper_hex_toupper:
  assumes "isxdigit c"
  shows "is_upper_hex (toupper c)"
proof -
  have "of_char (char_of (of_char c - 32 :: nat)) = (of_char c - 32 :: nat)"
    by (simp add: of_char_of take_bit_nat_eq_self_iff less_imp_diff_less)
  with assms show ?thesis by (auto simp: isxdigit_def is_upper_hex_def isdigit_def toupper_def)
qed

lemma padded_card_text:
  assumes "is_card_hex line"
  shows "card_text (padded_card line)"
proof -
  have l: "length line \<le> 16" "list_all isxdigit line" using assms by (auto simp: is_card_hex_def split: if_splits)
  have "is_upper_hex (CHR ''0'')" by (simp add: is_upper_hex_def isdigit_def)
  with l upper_hex_toupper show ?thesis
    by (auto simp: padded_card_def buffered_def card_text_def list_all_iff)
qed

lemma dummy_card_text: "i < length DUMMY_CARD_IDS \<Longrightarrow> card_text (DUMMY_CARD_IDS ! i)"
proof -
  have "list_all card_text DUMMY_CARD_IDS"
    by (simp add: DUMMY_CARD_IDS_def card_text_def is_upper_hex_def isdigit_def)
  then show "i < length DUMMY_CARD_IDS \<Longrightarrow> ?thesis" by (simp add: list_all_length)
qed

lemma down_push_inv:
  assumes "hal_inv h" "r \<in> {1..7}" "hl_down_count h < 8"
  shows "hal_inv (h\<lparr> hl_down := (hl_down h)[(hl_down_head h + hl_down_count h) mod 8 := r],
                    hl_down_count := hl_down_count h + 1 \<rparr>)"
    (is "hal_inv ?h'")
proof -
  have "length (hl_down h) = 8" using assms(1) by (simp add: hal_inv_def down_ok_def)
  then have "down_items ?h' = down_items h @ [r]"
    using ring_items_push [of "hl_down_count h" "hl_down h"] assms(3) by (simp add: down_items_def)
  moreover have "cards_ok ?h' = cards_ok h" by (simp add: cards_ok_def)
  ultimately show ?thesis using assms by (simp add: hal_inv_def down_ok_def)
qed

lemma handle_command_inv: "hal_inv h \<Longrightarrow> hal_inv (snd (handle_command h line))"
  using down_push_inv [of h "atoi (drop 9 line)"]
  by (simp add: handle_command_def Let_def set_auto_timer_def)

lemma handle_command_line [simp]: "hl_line (snd (handle_command h line)) = hl_line h"
  by (simp add: handle_command_def Let_def set_auto_timer_def)

lemma handle_line_inv:
  assumes "hal_inv h"
  shows "hal_inv (handle_line h s)"
proof -
  obtain known h1 where c: "handle_command h (trim (c_string s)) = (known, h1)" by fastforce
  then have "hal_inv h1" using handle_command_inv [OF assms, of "trim (c_string s)"] by simp
  then show ?thesis
    using assms push_card_inv [OF _ padded_card_text] by (simp add: handle_line_def c Let_def)
qed

lemma fifo_char_inv: "hal_inv h \<Longrightarrow> hal_inv (fifo_char c h)"
proof -
  assume h: "hal_inv h"
  then have "hal_inv (h\<lparr> hl_line := [] \<rparr>)" "length (hl_line h) < 255 \<Longrightarrow> hal_inv (h\<lparr> hl_line := hl_line h @ [c] \<rparr>)"
    by (simp_all add: hal_inv_def cards_ok_def down_ok_def down_items_def)
  then show ?thesis using handle_line_inv by (simp add: fifo_char_def)
qed

lemma drain_fifo_inv: "hal_inv h \<Longrightarrow> hal_inv (drain_fifo input h)"
proof -
  have "hal_inv h \<Longrightarrow> hal_inv (fold fifo_char input h)"
    by (induction input arbitrary: h) (simp_all add: fifo_char_inv)
  then show "hal_inv h \<Longrightarrow> ?thesis" by (simp add: drain_fifo_def)
qed

lemma auto_cards_inv: "hal_inv h \<Longrightarrow> hal_inv (auto_cards n h)"
proof (induction n arbitrary: h)
  case (Suc n)
  have idx: "hl_card_idx h < length DUMMY_CARD_IDS" using Suc.prems by (simp add: hal_inv_def)
  then have "hal_inv (push_card h (DUMMY_CARD_IDS ! hl_card_idx h))"
    using push_card_inv [OF Suc.prems dummy_card_text] by blast
  moreover have "(hl_card_idx h + 1) mod length DUMMY_CARD_IDS < length DUMMY_CARD_IDS"
    by (simp add: DUMMY_CARD_IDS_def)
  ultimately have "hal_inv ((push_card h (DUMMY_CARD_IDS ! hl_card_idx h))
      \<lparr> hl_card_idx := (hl_card_idx h + 1) mod length DUMMY_CARD_IDS \<rparr>)"
    by (simp add: hal_inv_def cards_ok_def down_ok_def down_items_def)
  then show ?case by (simp add: Suc.IH)
qed simp

lemma service_inv: "hal_inv h \<Longrightarrow> hal_inv (hal_service_fd input expirations fd h)"
  by (simp add: hal_service_fd_def drain_fifo_inv auto_cards_inv split: option.split)

text \<open>Input never moves a relay.\<close>

lemma service_calls: "hl_calls (hal_service_fd input expirations fd h) = hl_calls h"
proof -
  have p: "hl_calls (push_card h s) = hl_calls h" for h s by (simp add: push_card_def Let_def)
  have c: "hl_calls (snd (handle_command h line)) = hl_calls h" for h line
    by (simp add: handle_command_def Let_def set_auto_timer_def)
  have "hl_calls (handle_line h s) = hl_calls h" for h s
    using c [of h "trim (c_string s)"] by (auto simp: handle_line_def p Let_def split: prod.split)
  then have "hl_calls (fifo_char x h) = hl_calls h" for x h by (simp add: fifo_char_def)
  then have "hl_calls (fold fifo_char input h) = hl_calls h" by (induction input arbitrary: h) simp_all
  moreover have "hl_calls (auto_cards n h) = hl_calls h" for n
    by (induction n arbitrary: h) (simp_all add: p)
  ultimately show ?thesis by (simp add: hal_service_fd_def drain_fifo_def split: option.split)
qed

section \<open>Cards as they are typed\<close>

lemma upper_hex_chars:
  assumes "is_upper_hex c"
  shows "\<not> is_blank c" "c \<noteq> CHR 0x00" "c \<noteq> CHR 0x0A" "toupper c = c" "isxdigit c" "c \<noteq> CHR '' ''"
    "c \<noteq> CHR ''d''" "c \<noteq> CHR ''e''" "c \<noteq> CHR ''r''" "c \<noteq> CHR ''a''" "c \<noteq> CHR ''f''" "c \<noteq> CHR ''l''"
  using assms by (auto simp: is_upper_hex_def isdigit_def is_blank_def isxdigit_def toupper_def)

lemma card_text_line:
  assumes "card_text s"
  shows "trim (c_string s) = s" "fst (handle_command h s) = False" "snd (handle_command h s) = h"
    "is_card_hex s" "padded_card s = s" "s \<noteq> []"
proof -
  have all: "\<forall>c \<in> set s. is_upper_hex c" and len: "length s = 16"
    using assms by (auto simp: card_text_def list_all_iff)
  then show "s \<noteq> []" by auto
  have "c_string s = s" using all upper_hex_chars(2) by (auto simp: c_string_def takeWhile_eq_all_conv)
  moreover have "dropWhile is_blank t = t" if "set t \<subseteq> set s" for t
    using that all upper_hex_chars(1) by (cases t) auto
  ultimately show "trim (c_string s) = s" by (simp add: trim_def)
  obtain c cs where s: "s = c # cs" using len by (cases s) auto
  then have "c \<noteq> CHR ''d''" "c \<noteq> CHR ''e''" "c \<noteq> CHR ''r''" "c \<noteq> CHR ''a''" "c \<noteq> CHR ''f''" "c \<noteq> CHR ''l''"
    using all upper_hex_chars(7-12) by auto
  then show "fst (handle_command h s) = False" "snd (handle_command h s) = h"
    by (simp_all add: handle_command_def s)
  show "is_card_hex s" using all len upper_hex_chars(5) by (simp add: is_card_hex_def list_all_iff)
  have "map (\<lambda>c. if c = CHR '' '' then CHR ''0'' else toupper c) s = s"
    using all upper_hex_chars(4,6) by (intro map_idI) auto
  then show "padded_card s = s" using len by (simp add: padded_card_def buffered_def)
qed

lemma handle_line_card: "card_text s \<Longrightarrow> handle_line h s = push_card h s"
proof -
  assume "card_text s"
  note l = card_text_line [OF this]
  then have "handle_command h s = (False, h)" by (auto intro: prod_eqI)
  with l show ?thesis by (simp add: handle_line_def)
qed

lemma fifo_chars_collect:
  "\<forall>c \<in> set cs. c \<noteq> CHR 0x0A \<Longrightarrow> length (hl_line h) + length cs < 256 \<Longrightarrow>
   fold fifo_char cs h = h\<lparr> hl_line := hl_line h @ cs \<rparr>"
  by (induction cs arbitrary: h) (simp_all add: fifo_char_def)

lemma fifo_card_line:
  assumes "card_text s" "hl_line h = []"
  shows "fold fifo_char (s @ [CHR 0x0A]) h = push_card h s"
proof -
  have "\<forall>c \<in> set s. c \<noteq> CHR 0x0A" "length s = 16"
    using assms(1) upper_hex_chars(3) by (auto simp: card_text_def list_all_iff)
  then have "fold fifo_char s h = h\<lparr> hl_line := s \<rparr>" using fifo_chars_collect [of s h] assms(2) by simp
  moreover have "h\<lparr> hl_line := [] \<rparr> = h" using assms(2) by simp
  ultimately show ?thesis using handle_line_card [OF assms(1)] by (simp add: fifo_char_def)
qed

definition last_items :: "nat \<Rightarrow> 'a list \<Rightarrow> 'a list" where
  "last_items n xs = drop (length xs - n) xs"

lemma last_items_snoc: "length (last_items 16 xs) = 16 \<Longrightarrow> last_items 16 (xs @ [x]) = tl (last_items 16 xs) @ [x]"
  "length (last_items 16 xs) \<noteq> 16 \<Longrightarrow> last_items 16 (xs @ [x]) = last_items 16 xs @ [x]"
proof -
  assume "length (last_items 16 xs) = 16"
  then have "16 \<le> length xs" by (simp add: last_items_def)
  then obtain k where "length xs = 16 + k" using le_Suc_ex by blast
  then show "last_items 16 (xs @ [x]) = tl (last_items 16 xs) @ [x]"
    by (simp add: last_items_def drop_Suc tl_drop)
qed (auto simp: last_items_def)

lemma fifo_card_lines:
  "hal_inv h \<Longrightarrow> hl_line h = [] \<Longrightarrow> \<forall>s \<in> set ss. card_text s \<Longrightarrow>
   let h' = fold fifo_char (concat (map (\<lambda>s. s @ [CHR 0x0A]) ss)) h
   in hal_inv h' \<and> hl_line h' = [] \<and> card_items h' = last_items 16 (card_items h @ ss)"
proof (induction ss rule: rev_induct)
  case Nil
  then have "length (card_items h) \<le> 16" by (simp add: hal_inv_def cards_ok_def card_items_def)
  with Nil show ?case by (simp add: last_items_def)
next
  case (snoc s ss)
  define h1 where "h1 = fold fifo_char (concat (map (\<lambda>s. s @ [CHR 0x0A]) ss)) h"
  have i: "hal_inv h1" "hl_line h1 = []" "card_items h1 = last_items 16 (card_items h @ ss)"
    using snoc by (simp_all add: h1_def Let_def)
  have s: "card_text s" "buffered 17 s = s" using snoc.prems(3) by (simp_all add: card_text_def buffered_def)
  have f: "fold fifo_char (concat (map (\<lambda>s. s @ [CHR 0x0A]) (ss @ [s]))) h = push_card h1 s"
    using fifo_card_line [OF s(1) i(2)] by (simp add: h1_def)
  have "hl_line (push_card h1 s) = hl_line h1" by (simp add: push_card_def Let_def)
  moreover have "cards_ok h1" using i(1) by (simp add: hal_inv_def)
  ultimately show ?case
    using push_card_inv [OF i(1) s(1)] push_card_items [of h1 s] i s(2) last_items_snoc [of "card_items h @ ss" s]
    unfolding f Let_def by auto
qed

section \<open>Properties\<close>

text \<open>
  Whatever bytes arrive over the pipe, in whatever pieces and lengths, and however often the
  timer expires, the queues keep their bounds, every queued card is sixteen upper-case
  hexadecimal digits, every queued lost reader is one of 1 to 7, and the line buffer never overflows.
\<close>

theorem input_keeps_types:
  assumes "hal_inv h"
  shows "hal_inv (hal_service_fd input expirations fd h)"
  by (rule service_inv [OF assms])

definition demo_hal :: hal where
  "demo_hal = hal_init None True 6 7 hal_static"

lemma demo_hal_inv: "hal_inv demo_hal" "hl_line demo_hal = []" "card_items demo_hal = []" "hl_fifo_fd demo_hal = 6"
  using hal_inv_static
  by (simp_all add: demo_hal_def hal_init_def hal_static_def hal_inv_def cards_ok_def down_ok_def
      card_items_def down_items_def)

theorem input_keeps_types_witness:
  "hal_inv (hal_service_fd (''rru down 9'' @ [CHR 0x0A] @ ''04a1'' @ [CHR 0x0A]) None 6 demo_hal)"
  by (rule input_keeps_types [OF demo_hal_inv(1)])



end
