(* ===== verification/Daemon.thy ===== *)
theory Daemon
  imports Net_Machine Config Discover Hal_Mock
begin

text \<open>
  The callbacks of \<open>acud/main.c\<close>: the state they share, the input callback with the judgement of
  cards and the door relay, the alarm and fire inputs and the outputs they drive, the housekeeping
  timer, and the server's calls back into the daemon. The properties say that every wake-up of the
  input handles all that has arrived, that a typed card decides the door, and that the alarm
  outputs follow the rule of the settings.
\<close>

abbreviation (input) IDTI_OUTPUT_OFF_ACTIVE_TYPE :: nat where "IDTI_OUTPUT_OFF_ACTIVE_TYPE \<equiv> 6"
abbreviation (input) IDTI_OUTPUT_OFF_ACTIVE_OPTION :: nat where "IDTI_OUTPUT_OFF_ACTIVE_OPTION \<equiv> 10"
abbreviation (input) IDTI_OUTPUT_ACTIVE_TYPE_ALARM :: byte where "IDTI_OUTPUT_ACTIVE_TYPE_ALARM \<equiv> 2"
abbreviation (input) IDTI_OUTPUT_OPTION_BY_FIRE :: byte where "IDTI_OUTPUT_OPTION_BY_FIRE \<equiv> 0x80"

section \<open>State\<close>

text \<open>
  \<open>AcuRuntime\<close> with the local variables of \<open>main\<close>. The server, the user directory, the settings,
  the events, the transfer object and the registry are shared by pointer. While the server exists
  its record holds them; without a server (\<open>net_init\<close> failed) the fields of the same meaning
  here do.
\<close>

record daemon =
  dm_net :: "acu_net option"
  dm_users :: acu_users
  dm_db :: settings_db
  dm_events :: acu_events
  dm_userbin :: "user_bin option"
  dm_loop :: "net_callback acu_loop"
  dm_disc :: "acu_discover option"
  dm_cfg :: acu_config
  dm_pid_path :: string
  dm_hal :: hal
  dm_alarm_active :: bool
  dm_fire_active :: bool
  dm_timer_fd :: int
  dm_closed :: "int list"

record daemon_env =
  dv_net :: net_env
  dv_judge :: judge_env

definition rt_users :: "daemon \<Rightarrow> acu_users" where
  "rt_users d = (case dm_net d of None \<Rightarrow> dm_users d | Some net \<Rightarrow> nt_users net)"

definition rt_db :: "daemon \<Rightarrow> settings_db" where
  "rt_db d = (case dm_net d of
                None \<Rightarrow> dm_db d
              | Some net \<Rightarrow> (case nt_settings_db net of None \<Rightarrow> dm_db d | Some db \<Rightarrow> db))"

definition rt_events :: "daemon \<Rightarrow> acu_events" where
  "rt_events d = (case dm_net d of
                    None \<Rightarrow> dm_events d
                  | Some net \<Rightarrow> (case nt_events net of None \<Rightarrow> dm_events d | Some ev \<Rightarrow> ev))"

definition rt_userbin :: "daemon \<Rightarrow> user_bin option" where
  "rt_userbin d = (case dm_net d of None \<Rightarrow> dm_userbin d | Some net \<Rightarrow> nt_userbin net)"

definition rt_loop :: "daemon \<Rightarrow> net_callback acu_loop" where
  "rt_loop d = (case dm_net d of None \<Rightarrow> dm_loop d | Some net \<Rightarrow> nt_loop net)"

text \<open>A call of a server function: nothing happens without a server.\<close>

definition on_net :: "(acu_net \<Rightarrow> acu_net) \<Rightarrow> daemon \<Rightarrow> daemon" where
  "on_net f d = d\<lparr> dm_net := map_option f (dm_net d) \<rparr>"

definition on_hal :: "(hal \<Rightarrow> hal) \<Rightarrow> daemon \<Rightarrow> daemon" where
  "on_hal f d = d\<lparr> dm_hal := f (dm_hal d) \<rparr>"

section \<open>Addresses, card numbers and paths\<close>

definition module_addr_for_rru :: "int \<Rightarrow> int" where
  "module_addr_for_rru rru =
    (let r = (if rru < 1 \<or> rru > HAL_RRU_MAX then 1 else rru)
     in (r - 1) * 2 + uint IDTI_EVENT_ADDR_FIRST_MODULE)"

text \<open>
  \<open>sscanf\<close> with \<open>"%2x"\<close> on hexadecimal digits, which is all the queue hands out; the value stays 0
  when there is none.
\<close>

definition hex_digit :: "char \<Rightarrow> nat" where
  "hex_digit c = (let n = of_char c in if n \<le> 57 then n - 48 else if n \<le> 70 then n - 55 else n - 87)"

definition scan_hex2 :: "string \<Rightarrow> nat" where
  "scan_hex2 s = foldl (\<lambda>v c. 16 * v + hex_digit c) 0 (takeWhile isxdigit (take 2 s))"

definition hex_to_card :: "string \<Rightarrow> byte list" where
  "hex_to_card hex =
    (let bytes = min (length hex div 2) 8
     in foldl (\<lambda>out i. out[i := of_nat (scan_hex2 (drop (i * 2) hex))]) (zeros 8) [0..<bytes])"

text \<open>\<open>strrchr(db_path, '/')\<close>: the part before the last slash.\<close>

definition path_next_to_db :: "nat \<Rightarrow> acu_config \<Rightarrow> string \<Rightarrow> string" where
  "path_next_to_db out_len cfg name =
    (if CHR ''/'' \<in> set (cf_db_path cfg)
     then buffered out_len (butlast (rev (dropWhile (\<lambda>c. c \<noteq> CHR ''/'') (rev (cf_db_path cfg)))) @ ''/'' @ name)
     else buffered out_len name)"

definition resolve_events_path :: "nat \<Rightarrow> acu_config \<Rightarrow> string" where
  "resolve_events_path out_len cfg =
    (if cf_events_db_path cfg \<noteq> [] then buffered out_len (cf_events_db_path cfg)
     else path_next_to_db out_len cfg ''events.db'')"

definition resolve_users_path :: "nat \<Rightarrow> acu_config \<Rightarrow> string" where
  "resolve_users_path out_len cfg =
    (if cf_users_db_path cfg \<noteq> [] then buffered out_len (cf_users_db_path cfg)
     else path_next_to_db out_len cfg ''users.db'')"

definition apply_module_layout :: "acu_config \<Rightarrow> acu_net \<Rightarrow> acu_net" where
  "apply_module_layout cfg net = net_set_module_layout net
     \<lparr> ml_module_count = cf_module_count cfg, ml_readers = cf_module_readers cfg,
       ml_inputs = cf_module_inputs cfg, ml_outputs = cf_module_outputs cfg,
       ml_alarm_fire_inputs = cf_module_alarm_fire_inputs cfg, ml_module_type = cf_module_type cfg,
       ml_install_type = cf_module_install_type cfg \<rparr>"

section \<open>Alarm and fire\<close>

definition on_force_open_changed :: "bool \<Rightarrow> daemon \<Rightarrow> daemon" where
  "on_force_open_changed on d = on_hal (hal_set_force_open on) d"

definition report_rru_disconnected :: "daemon_env \<Rightarrow> daemon \<Rightarrow> int \<Rightarrow> daemon" where
  "report_rru_disconnected env d rru =
     on_net (\<lambda>net. net_push_system_event (dv_net env) net IDTI_EVENT_HW_NO_RESPONSE
       (module_addr_for_rru rru) (uint IDTI_EVENT_ADDR_NONE)) d"

text \<open>The body of the two loops: output \<open>slot\<close> of module \<open>m\<close>.\<close>

definition alarm_output :: "daemon_env \<Rightarrow> int \<times> int \<Rightarrow> daemon \<Rightarrow> daemon" where
  "alarm_output env ms d =
    (let (m, slot) = ms; (found, out) = devset_get (ne_db_ok (dv_net env)) (Some (rt_db d)) IDTI_OBJ_OUTPUT m slot IDTI_OUTPUT_SETTING_LEN
     in if found \<noteq> 1 then d
        else if out ! IDTI_OUTPUT_OFF_ACTIVE_TYPE \<noteq> IDTI_OUTPUT_ACTIVE_TYPE_ALARM then d
        else
          let by_fire = (out ! IDTI_OUTPUT_OFF_ACTIVE_OPTION AND IDTI_OUTPUT_OPTION_BY_FIRE \<noteq> 0);
              on = (dm_alarm_active d \<or> (dm_fire_active d \<and> by_fire))
          in on_hal (hal_set_output m (slot + IDTI_SLOT_EVENT_BASE) on) d)"

definition output_slots :: "acu_config \<Rightarrow> (int \<times> int) list" where
  "output_slots cfg = concat (map (\<lambda>m. map (Pair m) [8..11]) [1..cf_module_count cfg])"

definition apply_alarm_outputs :: "daemon_env \<Rightarrow> daemon \<Rightarrow> daemon" where
  "apply_alarm_outputs env d = fold (alarm_output env) (output_slots (dm_cfg d)) d"

definition on_setting_changed :: "daemon_env \<Rightarrow> byte \<Rightarrow> daemon \<Rightarrow> daemon" where
  "on_setting_changed env obj d = (if obj = IDTI_OBJ_OUTPUT then apply_alarm_outputs env d else d)"

definition check_alarm :: "daemon_env \<Rightarrow> bool \<Rightarrow> daemon \<Rightarrow> daemon" where
  "check_alarm env alarm d =
    (if alarm \<noteq> dm_alarm_active d
     then apply_alarm_outputs env
            (on_net (\<lambda>net. net_push_system_event (dv_net env) net
                (if alarm then IDTI_EVENT_ALARM_DETECTED else IDTI_EVENT_ALARM_RESTORED)
                (uint IDTI_EVENT_ADDR_FIRST_MODULE) (uint IDTI_EVENT_ADDR_ALARM_READER))
              (d\<lparr> dm_alarm_active := alarm \<rparr>))
     else d)"

definition check_fire :: "daemon_env \<Rightarrow> bool \<Rightarrow> daemon \<Rightarrow> daemon" where
  "check_fire env fire d =
    (if fire \<noteq> dm_fire_active d
     then apply_alarm_outputs env
            (on_net (\<lambda>net. net_push_system_event (dv_net env) net
                (if fire then IDTI_EVENT_FIRE_DETECTED else IDTI_EVENT_FIRE_RESTORED)
                (uint IDTI_EVENT_ADDR_NONE) (uint IDTI_EVENT_ADDR_NONE))
              (d\<lparr> dm_fire_active := fire \<rparr>))
     else d)"

text \<open>Both sensors are read before either is handled.\<close>

definition check_alarm_fire :: "daemon_env \<Rightarrow> daemon \<Rightarrow> daemon" where
  "check_alarm_fire env d =
    (let alarm = (hal_read_sensor (dm_hal d) HAL_SENSOR_ALARM_INPUT = HAL_SENSOR_ACTIVE);
         fire = (hal_read_sensor (dm_hal d) HAL_SENSOR_FIRE_INPUT = HAL_SENSOR_ACTIVE)
     in check_fire env fire (check_alarm env alarm d))"

section \<open>Cards\<close>

definition read_door_status :: "hal \<Rightarrow> int" where
  "read_door_status h =
    (if hal_read_sensor h HAL_SENSOR_DOOR_CONTACT = HAL_SENSOR_ACTIVE then uint IDTI_DOOR_STATUS_OPEN
     else uint IDTI_DOOR_STATUS_CLOSED)"

function report_down_rrus :: "daemon_env \<Rightarrow> daemon \<Rightarrow> daemon" where
  "report_down_rrus env d =
    (case hal_take_disconnected_rru (dm_hal d) of
       (rru, h) \<Rightarrow> if rru > 0 then report_down_rrus env (report_rru_disconnected env (d\<lparr> dm_hal := h \<rparr>) rru)
                  else d\<lparr> dm_hal := h \<rparr>)"
  by pat_completeness auto
termination
  by (relation "measure (\<lambda>(env, d). hl_down_count (dm_hal d))")
    (auto simp: hal_take_disconnected_rru_def report_rru_disconnected_def on_net_def split: if_splits)

declare report_down_rrus.simps [simp del]

text \<open>One card: judgement, event, door.\<close>

definition handle_card :: "daemon_env \<Rightarrow> int \<Rightarrow> int \<Rightarrow> string \<Rightarrow> daemon \<Rightarrow> daemon" where
  "handle_card env door_status rru card_hex d =
    (let card_id = hex_to_card card_hex;
         (result, user) = access_judge (dv_judge env) (rt_users d) (rt_db d) card_id;
         access_id = (case user of Some r \<Rightarrow> if result = ACCESS_GRANTED then ur_user_id r else card_id
                                 | None \<Rightarrow> card_id);
         d1 = on_net (\<lambda>net. net_push_event (dv_net env) net result (Some access_id) door_status
                (module_addr_for_rru rru) (uint IDTI_EVENT_ADDR_FIRST_READER)) d
     in if result = ACCESS_GRANTED then on_hal (hal_open_door (cf_door_open_seconds (dm_cfg d1))) d1 else d1)"

lemma handle_card_count [simp]:
  "hl_cards_count (dm_hal (handle_card env ds rru hex d)) = hl_cards_count (dm_hal d)"
  by (simp add: handle_card_def on_hal_def on_net_def hal_open_door_def Let_def split: prod.split)

text \<open>The loop over the waiting cards; the mock never reports a reading error.\<close>

function judge_cards :: "daemon_env \<Rightarrow> int \<Rightarrow> daemon \<Rightarrow> daemon" where
  "judge_cards env door_status d =
    (case hal_read_card (dm_hal d) of
       (None, h) \<Rightarrow> d\<lparr> dm_hal := h \<rparr>
     | (Some (rru, hex), h) \<Rightarrow> judge_cards env door_status (handle_card env door_status rru hex (d\<lparr> dm_hal := h \<rparr>)))"
  by pat_completeness auto
termination
  by (relation "measure (\<lambda>(env, ds, d). hl_cards_count (dm_hal d))")
    (auto simp: hal_read_card_def split: if_splits)

declare judge_cards.simps [simp del]

definition on_card_readable :: "daemon_env \<Rightarrow> string \<Rightarrow> nat option \<Rightarrow> int \<Rightarrow> daemon \<Rightarrow> daemon" where
  "on_card_readable env input expirations fd d =
    (let d1 = on_hal (hal_service_fd input expirations fd) d;
         door_status = read_door_status (dm_hal d1);
         d2 = on_net (\<lambda>net. net_set_door_status net door_status) d1;
         d3 = check_alarm_fire env d2;
         d4 = report_down_rrus env d3
     in judge_cards env door_status d4)"

text \<open>\<open>read_ok\<close>: the timer's expirations could be read.\<close>

definition on_housekeeping :: "daemon_env \<Rightarrow> bool \<Rightarrow> daemon \<Rightarrow> daemon" where
  "on_housekeeping env read_ok d =
    (if \<not> read_ok then d
     else
       let d1 = on_net (net_check_inactivity (dv_net env)) d
       in d1\<lparr> dm_disc := discover_set_connected (dm_disc d1)
                (case dm_net d1 of None \<Rightarrow> 0 | Some net \<Rightarrow> net_is_connected net) \<rparr>)"

definition on_discover_readable :: "disc_env \<Rightarrow> (byte list \<times> nat) option \<Rightarrow> daemon \<Rightarrow> daemon" where
  "on_discover_readable env rcv d = d\<lparr> dm_disc := map_option (discover_service env rcv) (dm_disc d) \<rparr>"

section \<open>One request, with the calls back into the daemon\<close>

text \<open>
  A request makes at most one call back: the handlers registered at start-up move the relays. The
  call reads only what the request has already stored, so it is run when the request is done.
\<close>

fun run_net_call :: "daemon_env \<Rightarrow> net_call \<Rightarrow> daemon \<Rightarrow> daemon" where
  "run_net_call env (Call_force_open on) d = on_force_open_changed on d"
| "run_net_call env (Call_setting_changed obj) d = on_setting_changed env obj d"

definition daemon_request :: "daemon_env \<Rightarrow> idti_header \<Rightarrow> byte list \<Rightarrow> daemon \<Rightarrow> daemon option" where
  "daemon_request env hdr pkt d =
    (case dm_net d of
       None \<Rightarrow> None
     | Some net \<Rightarrow>
         (case handle_request (dv_net env) (net\<lparr> kn_calls := [] \<rparr>) hdr pkt of
            None \<Rightarrow> None
          | Some net1 \<Rightarrow> Some (fold (run_net_call env) (kn_calls net1) (d\<lparr> dm_net := Some (net1\<lparr> kn_calls := [] \<rparr>) \<rparr>))))"

section \<open>What the callbacks leave alone\<close>

lemma rt_on_hal [simp]:
  "rt_users (on_hal f d) = rt_users d" "rt_db (on_hal f d) = rt_db d" "dm_cfg (on_hal f d) = dm_cfg d"
  "dm_net (on_hal f d) = dm_net d" "dm_alarm_active (on_hal f d) = dm_alarm_active d"
  "dm_fire_active (on_hal f d) = dm_fire_active d" "dm_hal (on_hal f d) = f (dm_hal d)"
  by (simp_all add: on_hal_def rt_users_def rt_db_def split: option.split)

lemma rt_hal_upd [simp]:
  "rt_users (d\<lparr> dm_hal := h \<rparr>) = rt_users d" "rt_db (d\<lparr> dm_hal := h \<rparr>) = rt_db d"
  "rt_users (d\<lparr> dm_alarm_active := b \<rparr>) = rt_users d" "rt_db (d\<lparr> dm_alarm_active := b \<rparr>) = rt_db d"
  "rt_users (d\<lparr> dm_fire_active := b \<rparr>) = rt_users d" "rt_db (d\<lparr> dm_fire_active := b \<rparr>) = rt_db d"
  by (simp_all add: rt_users_def rt_db_def split: option.split)

lemma on_net_frame [simp]:
  "dm_cfg (on_net f d) = dm_cfg d" "dm_hal (on_net f d) = dm_hal d"
  "dm_alarm_active (on_net f d) = dm_alarm_active d" "dm_fire_active (on_net f d) = dm_fire_active d"
  "dm_net (on_net f d) = map_option f (dm_net d)"
  by (simp_all add: on_net_def)

text \<open>Reporting an event touches neither the directory nor the settings.\<close>

lemma push_frame [simp]:
  "nt_users (net_store_event env net code m i s a r) = nt_users net"
  "nt_settings_db (net_store_event env net code m i s a r) = nt_settings_db net"
  "nt_users (net_push_event env net res i s a r) = nt_users net"
  "nt_settings_db (net_push_event env net res i s a r) = nt_settings_db net"
  "nt_users (net_push_system_event env net code a r) = nt_users net"
  "nt_settings_db (net_push_system_event env net code a r) = nt_settings_db net"
  by (simp_all add: net_push_event_def net_push_system_event_def net_store_event_def split: option.split)

lemma rt_on_net:
  "(\<And>net. nt_users (f net) = nt_users net) \<Longrightarrow> rt_users (on_net f d) = rt_users d"
  "(\<And>net. nt_settings_db (f net) = nt_settings_db net) \<Longrightarrow> rt_db (on_net f d) = rt_db d"
  by (simp_all add: on_net_def rt_users_def rt_db_def split: option.split)

section \<open>The alarm outputs\<close>

text \<open>The rule: what an output has to be, when it is one of the alarm outputs.\<close>

definition alarm_rule :: "daemon_env \<Rightarrow> daemon \<Rightarrow> int \<times> int \<Rightarrow> bool option" where
  "alarm_rule env d ms =
    (case devset_get (ne_db_ok (dv_net env)) (Some (rt_db d)) IDTI_OBJ_OUTPUT (fst ms) (snd ms) 14 of
       (found, out) \<Rightarrow>
         if found = 1 \<and> out ! 6 = 2
         then Some (dm_alarm_active d \<or> dm_fire_active d \<and> out ! 10 AND 0x80 \<noteq> 0) else None)"

definition alarm_calls :: "daemon_env \<Rightarrow> daemon \<Rightarrow> (int \<times> int) list \<Rightarrow> hal_call list" where
  "alarm_calls env d slots =
     concat (map (\<lambda>ms. case alarm_rule env d ms of None \<Rightarrow> [] | Some on \<Rightarrow> [Set_output (fst ms) (snd ms + 1) on]) slots)"

definition say :: "hal_call list \<Rightarrow> hal \<Rightarrow> hal" where
  "say cs h = h\<lparr> hl_calls := hl_calls h @ cs \<rparr>"

lemma say_simps [simp]: "say [] h = h" "say bs (say as h) = say (as @ bs) h" "hl_calls (say cs h) = hl_calls h @ cs"
  by (simp_all add: say_def)

lemma alarm_rule_hal [simp]: "alarm_rule env (on_hal f d) ms = alarm_rule env d ms"
  by (simp add: alarm_rule_def split: prod.split)

lemma alarm_output_say:
  "alarm_output env ms d = on_hal (say (case alarm_rule env d ms of None \<Rightarrow> [] | Some on \<Rightarrow> [Set_output (fst ms) (snd ms + 1) on])) d"
  by (cases ms)
    (auto simp: alarm_output_def alarm_rule_def Let_def on_hal_def hal_set_output_def say_def split: prod.split)

lemma on_hal_twice: "on_hal f (on_hal g d) = on_hal (\<lambda>h. f (g h)) d"
  by (simp add: on_hal_def)

lemma alarm_calls_hal [simp]: "alarm_calls env (on_hal f d) slots = alarm_calls env d slots"
  by (simp add: alarm_calls_def)

lemma alarm_calls_Cons: "alarm_calls env d (ms # slots) = alarm_calls env d [ms] @ alarm_calls env d slots"
  by (simp add: alarm_calls_def)

lemma apply_outputs_say: "fold (alarm_output env) slots d = on_hal (say (alarm_calls env d slots)) d"
proof (induction slots arbitrary: d)
  case Nil
  then show ?case by (simp add: alarm_calls_def on_hal_def)
next
  case (Cons ms slots)
  have "alarm_output env ms d = on_hal (say (alarm_calls env d [ms])) d"
    by (simp add: alarm_output_say alarm_calls_def)
  then show ?case
    by (simp add: Cons.IH on_hal_twice alarm_calls_Cons [of env d ms slots])
qed

text \<open>The state of a relay after a sequence of commands; relays are off at first.\<close>

definition relay_on :: "hal_call list \<Rightarrow> int \<Rightarrow> int \<Rightarrow> bool" where
  "relay_on cs m s = foldl (\<lambda>b c. case c of Set_output m2 s2 on \<Rightarrow> if m2 = m \<and> s2 = s then on else b | _ \<Rightarrow> b) False cs"

lemma relay_on_snoc:
  "relay_on (cs @ [c]) m s = (case c of Set_output m2 s2 on \<Rightarrow> if m2 = m \<and> s2 = s then on else relay_on cs m s | _ \<Rightarrow> relay_on cs m s)"
  by (simp add: relay_on_def split: hal_call.split)

lemma relay_on_other:
  "\<forall>on. Set_output m s on \<notin> set ds \<Longrightarrow> relay_on (cs @ ds) m s = relay_on cs m s"
proof (induction ds rule: rev_induct)
  case (snoc d ds)
  then have "relay_on ((cs @ ds) @ [d]) m s = relay_on (cs @ ds) m s"
    unfolding relay_on_snoc by (auto split: hal_call.split)
  with snoc show ?case by simp
qed simp

lemma relay_on_calls:
  "ms \<in> set slots \<Longrightarrow> alarm_rule env d ms = Some on \<Longrightarrow> relay_on (cs @ alarm_calls env d slots) (fst ms) (snd ms + 1) = on"
proof (induction slots rule: rev_induct)
  case (snoc q slots)
  show ?case
  proof (cases "q = ms")
    case True
    then have "alarm_calls env d (slots @ [q]) = alarm_calls env d slots @ [Set_output (fst ms) (snd ms + 1) on]"
      using snoc.prems(2) by (simp add: alarm_calls_def)
    then show ?thesis using relay_on_snoc [of "cs @ alarm_calls env d slots"] by simp
  next
    case False
    then have "relay_on (cs @ alarm_calls env d slots) (fst ms) (snd ms + 1) = on" using snoc by simp
    moreover have "alarm_calls env d (slots @ [q]) = alarm_calls env d slots @ alarm_calls env d [q]"
      by (simp add: alarm_calls_def)
    moreover have "\<forall>on. Set_output (fst ms) (snd ms + 1) on \<notin> set (alarm_calls env d [q])"
      using False by (auto simp: alarm_calls_def prod_eq_iff split: option.splits)
    ultimately show ?thesis using relay_on_other by (metis append_assoc)
  qed
qed simp

text \<open>Every output that the settings make an alarm output is where the rule wants it.\<close>

definition relays_follow :: "daemon_env \<Rightarrow> daemon \<Rightarrow> bool" where
  "relays_follow env d \<longleftrightarrow> (\<forall>ms \<in> set (output_slots (dm_cfg d)). \<forall>on. alarm_rule env d ms = Some on \<longrightarrow>
     relay_on (hl_calls (dm_hal d)) (fst ms) (snd ms + 1) = on)"

lemma apply_follows [keeps_inv]: "relays_follow env (apply_alarm_outputs env d)"
  by (simp add: relays_follow_def apply_alarm_outputs_def apply_outputs_say relay_on_calls)

text \<open>Two states with the same settings, inputs and commands.\<close>

lemma relays_follow_cong:
  assumes "rt_db d' = rt_db d" "dm_cfg d' = dm_cfg d" "dm_alarm_active d' = dm_alarm_active d"
    "dm_fire_active d' = dm_fire_active d" "hl_calls (dm_hal d') = hl_calls (dm_hal d) @ cs"
    "\<forall>m s on. Set_output m s on \<notin> set cs"
  shows "relays_follow env d \<Longrightarrow> relays_follow env d'"
proof -
  have "alarm_rule env d' ms = alarm_rule env d ms" for ms
    using assms(1,3,4) by (simp add: alarm_rule_def split: prod.split)
  moreover have "relay_on (hl_calls (dm_hal d')) m s = relay_on (hl_calls (dm_hal d)) m s" for m s
    using assms(5,6) by (simp add: relay_on_other)
  ultimately show "relays_follow env d \<Longrightarrow> ?thesis" using assms(2) by (simp add: relays_follow_def)
qed

section \<open>The card callback\<close>

lemma hal_say [simp]:
  "hal_inv (say cs h) = hal_inv h" "card_items (say cs h) = card_items h" "down_items (say cs h) = down_items h"
  "hal_read_sensor (say cs h) x = hal_read_sensor h x"
  by (simp_all add: say_def down_items_def) (cases x; simp)

text \<open>What moved the door: everything but the outputs.\<close>

fun moves_door :: "hal_call \<Rightarrow> bool" where
  "moves_door (Set_output m s on) = False"
| "moves_door c = True"

definition door_calls :: "daemon \<Rightarrow> hal_call list" where
  "door_calls d = filter moves_door (hl_calls (dm_hal d))"

lemma alarm_calls_outputs: "c \<in> set (alarm_calls env d slots) \<Longrightarrow> \<not> moves_door c"
  by (auto simp: alarm_calls_def split: option.splits)

lemma apply_alarm_frame [simp]:
  "rt_users (apply_alarm_outputs env d) = rt_users d" "rt_db (apply_alarm_outputs env d) = rt_db d"
  "dm_cfg (apply_alarm_outputs env d) = dm_cfg d" "dm_net (apply_alarm_outputs env d) = dm_net d"
  "dm_alarm_active (apply_alarm_outputs env d) = dm_alarm_active d"
  "dm_fire_active (apply_alarm_outputs env d) = dm_fire_active d"
  "hal_inv (dm_hal (apply_alarm_outputs env d)) = hal_inv (dm_hal d)"
  "card_items (dm_hal (apply_alarm_outputs env d)) = card_items (dm_hal d)"
  "down_items (dm_hal (apply_alarm_outputs env d)) = down_items (dm_hal d)"
  "hal_read_sensor (dm_hal (apply_alarm_outputs env d)) x = hal_read_sensor (dm_hal d) x"
  "door_calls (apply_alarm_outputs env d) = door_calls d"
  using alarm_calls_outputs
  by (simp_all add: apply_alarm_outputs_def apply_outputs_say door_calls_def filter_False)

lemma rt_push [simp]:
  "rt_users (on_net (\<lambda>net. net_push_system_event env net c a r) d) = rt_users d"
  "rt_db (on_net (\<lambda>net. net_push_system_event env net c a r) d) = rt_db d"
  "rt_users (on_net (\<lambda>net. net_push_event env net res i s a r) d) = rt_users d"
  "rt_db (on_net (\<lambda>net. net_push_event env net res i s a r) d) = rt_db d"
  "rt_users (on_net (\<lambda>net. net_set_door_status net s) d) = rt_users d"
  "rt_db (on_net (\<lambda>net. net_set_door_status net s) d) = rt_db d"
  by (simp_all add: rt_on_net net_set_door_status_def)

lemma door_calls_net [simp]: "door_calls (on_net f d) = door_calls d"
  "door_calls (d\<lparr> dm_alarm_active := b \<rparr>) = door_calls d" "door_calls (d\<lparr> dm_fire_active := b \<rparr>) = door_calls d"
  by (simp_all add: door_calls_def)

lemma check_frame [simp]:
  "rt_users (check_alarm_fire env d) = rt_users d" "rt_db (check_alarm_fire env d) = rt_db d"
  "dm_cfg (check_alarm_fire env d) = dm_cfg d"
  "hal_inv (dm_hal (check_alarm_fire env d)) = hal_inv (dm_hal d)"
  "card_items (dm_hal (check_alarm_fire env d)) = card_items (dm_hal d)"
  "down_items (dm_hal (check_alarm_fire env d)) = down_items (dm_hal d)"
  "hal_read_sensor (dm_hal (check_alarm_fire env d)) x = hal_read_sensor (dm_hal d) x"
  "door_calls (check_alarm_fire env d) = door_calls d"
  by (simp_all add: check_alarm_fire_def check_alarm_def check_fire_def Let_def)

lemma check_sensors:
  "dm_alarm_active (check_alarm_fire env d) = (hal_read_sensor (dm_hal d) HAL_SENSOR_ALARM_INPUT = HAL_SENSOR_ACTIVE)"
  "dm_fire_active (check_alarm_fire env d) = (hal_read_sensor (dm_hal d) HAL_SENSOR_FIRE_INPUT = HAL_SENSOR_ACTIVE)"
  by (simp_all add: check_alarm_fire_def check_alarm_def check_fire_def Let_def)

lemma check_follows: "relays_follow env d \<Longrightarrow> relays_follow env (check_alarm_fire env d)"
  using apply_follows by (simp add: check_alarm_fire_def check_alarm_def check_fire_def Let_def)

lemma take_calls [simp]: "hl_calls (snd (hal_take_disconnected_rru h)) = hl_calls h"
  "hl_calls (snd (hal_read_card h)) = hl_calls h"
  "down_items (snd (hal_read_card h)) = down_items h"
  by (simp_all add: down_items_def hal_take_disconnected_rru_def hal_read_card_def)

text \<open>The next lost reader, as the loop sees it.\<close>

lemma take_down_cases:
  assumes "hal_inv h"
  obtains "down_items h = []" "\<not> fst (hal_take_disconnected_rru h) > 0" "snd (hal_take_disconnected_rru h) = h"
  | r h' where "hal_take_disconnected_rru h = (r, h')" "0 < r" "hal_inv h'" "down_items h = r # down_items h'"
      "card_items h' = card_items h" "hl_calls h' = hl_calls h"
  using assms
proof (cases rule: down_source.pop_cases)
  case 1
  then show thesis using that(1) by (simp add: pop_down_def split: prod.splits if_splits)
next
  case (2 r h')
  then have t: "hal_take_disconnected_rru h = (r, h')" "0 < r" by (auto simp: pop_down_def split: prod.splits if_splits)
  moreover have "card_items h' = card_items h" using take_down_item [OF assms 2(1)] t by auto
  moreover have "hl_calls h' = hl_calls h" using take_calls(1) [of h] t(1) by simp
  ultimately show thesis using that(2) 2 by simp
qed

definition down_reports :: "daemon_env \<Rightarrow> int list \<Rightarrow> acu_net \<Rightarrow> acu_net" where
  "down_reports env rs = fold (\<lambda>r net. net_push_system_event (dv_net env) net IDTI_EVENT_HW_NO_RESPONSE
     (module_addr_for_rru r) (uint IDTI_EVENT_ADDR_NONE)) rs"

text \<open>What a loop of the callback leaves alone.\<close>

definition same_settings :: "daemon \<Rightarrow> daemon \<Rightarrow> bool" where
  "same_settings d d' \<longleftrightarrow> rt_users d' = rt_users d \<and> rt_db d' = rt_db d \<and> dm_cfg d' = dm_cfg d
     \<and> dm_alarm_active d' = dm_alarm_active d \<and> dm_fire_active d' = dm_fire_active d"

lemma same_settings_refl [simp]: "same_settings d d"
  by (simp add: same_settings_def)

lemma same_settings_trans: "same_settings d d1 \<Longrightarrow> same_settings d1 d2 \<Longrightarrow> same_settings d d2"
  by (simp add: same_settings_def)

lemma report_down_effect:
  "hal_inv (dm_hal d) \<Longrightarrow>
   let d' = report_down_rrus env d
   in same_settings d d' \<and> hal_inv (dm_hal d') \<and> down_items (dm_hal d') = []
      \<and> card_items (dm_hal d') = card_items (dm_hal d) \<and> hl_calls (dm_hal d') = hl_calls (dm_hal d)
      \<and> dm_net d' = map_option (down_reports env (down_items (dm_hal d))) (dm_net d)"
proof (induction env d rule: report_down_rrus.induct)
  case (1 env d)
  from "1.prems" show ?case
  proof (cases rule: take_down_cases)
    case 1
    then have "report_down_rrus env d = d" by (subst report_down_rrus.simps) (auto split: prod.split)
    with "1.prems" 1(1) show ?thesis by (simp add: down_reports_def option.map_ident)
  next
    case (2 r h')
    define d1 where "d1 = report_rru_disconnected env (d\<lparr> dm_hal := h' \<rparr>) r"
    have e: "report_down_rrus env d = report_down_rrus env d1"
      using 2(1,2) by (simp add: report_down_rrus.simps [of env d] d1_def)
    have d1: "same_settings d d1" "dm_hal d1 = h'"
      "dm_net d1 = map_option (down_reports env [r]) (dm_net d)"
      by (simp_all add: d1_def same_settings_def report_rru_disconnected_def down_reports_def)
    have "down_reports env (down_items h') \<circ> down_reports env [r] = down_reports env (r # down_items h')"
      by (simp add: down_reports_def comp_def)
    moreover have "hal_inv (dm_hal d1)" using 2(3) d1(2) by simp
    ultimately show ?thesis
      using "1.IH" [OF 2(1) [symmetric] 2(2), folded d1_def] 2 d1 same_settings_trans
      by (simp add: Let_def e option.map_comp)
  qed
qed

text \<open>What one card adds: the verdict, the report, and what the door relay is told.\<close>

definition card_verdict :: "daemon_env \<Rightarrow> daemon \<Rightarrow> string \<Rightarrow> access_result \<times> user_record option" where
  "card_verdict env d hex = access_judge (dv_judge env) (rt_users d) (rt_db d) (hex_to_card hex)"

definition card_report :: "daemon_env \<Rightarrow> daemon \<Rightarrow> int \<Rightarrow> string \<Rightarrow> acu_net \<Rightarrow> acu_net" where
  "card_report env d door_status hex net =
    (case card_verdict env d hex of
       (ACCESS_GRANTED, Some r) \<Rightarrow> net_push_event (dv_net env) net ACCESS_GRANTED (Some (ur_user_id r)) door_status 1 1
     | (verdict, _) \<Rightarrow> net_push_event (dv_net env) net verdict (Some (hex_to_card hex)) door_status 1 1)"

definition card_doors :: "daemon_env \<Rightarrow> daemon \<Rightarrow> string \<Rightarrow> hal_call list" where
  "card_doors env d hex =
    (if fst (card_verdict env d hex) = ACCESS_GRANTED then [Open_door (cf_door_open_seconds (dm_cfg d))] else [])"

lemma card_frame:
  "rt_users d' = rt_users d \<Longrightarrow> rt_db d' = rt_db d \<Longrightarrow> card_report env d' = card_report env d"
  "rt_users d' = rt_users d \<Longrightarrow> rt_db d' = rt_db d \<Longrightarrow> dm_cfg d' = dm_cfg d \<Longrightarrow> card_doors env d' = card_doors env d"
  by (simp_all add: card_doors_def card_report_def card_verdict_def fun_eq_iff)

lemma card_cong:
  "same_settings d d' \<Longrightarrow> card_doors env d' = card_doors env d \<and> card_report env d' = card_report env d"
  using card_frame [of d' d env] by (simp add: same_settings_def)

lemma handle_card_effect:
  shows "same_settings d (handle_card env ds 1 hex d)"
    "dm_net (handle_card env ds 1 hex d) = map_option (card_report env d ds hex) (dm_net d)"
    "dm_hal (handle_card env ds 1 hex d) = say (card_doors env d hex) (dm_hal d)"
proof -
  obtain v u where v: "card_verdict env d hex = (v, u)" by fastforce
  then have j: "access_judge (dv_judge env) (rt_users d) (rt_db d) (hex_to_card hex) = (v, u)"
    by (simp add: card_verdict_def)
  show "same_settings d (handle_card env ds 1 hex d)"
    by (simp add: handle_card_def j same_settings_def Let_def)
  show "dm_hal (handle_card env ds 1 hex d) = say (card_doors env d hex) (dm_hal d)"
    by (simp add: handle_card_def j v card_doors_def hal_open_door_def say_def Let_def)
  have "module_addr_for_rru 1 = 1" by (simp add: module_addr_for_rru_def)
  then show "dm_net (handle_card env ds 1 hex d) = map_option (card_report env d ds hex) (dm_net d)"
    by (cases "dm_net d"; cases v; cases u) (simp_all add: handle_card_def j v card_report_def Let_def)
qed

lemma judge_cards_effect:
  "hal_inv (dm_hal d) \<Longrightarrow>
   let d' = judge_cards env ds d; cards = card_items (dm_hal d)
   in same_settings d d' \<and> hal_inv (dm_hal d') \<and> card_items (dm_hal d') = [] \<and> down_items (dm_hal d') = down_items (dm_hal d)
      \<and> hl_calls (dm_hal d') = hl_calls (dm_hal d) @ concat (map (card_doors env d) cards)
      \<and> dm_net d' = map_option (fold (card_report env d ds) cards) (dm_net d)"
proof (induction env ds d rule: judge_cards.induct)
  case (1 env ds d)
  from "1.prems" show ?case
  proof (cases rule: card_source.pop_cases)
    case 1
    then have "judge_cards env ds d = d" by (subst judge_cards.simps) simp
    with "1.prems" 1(1) show ?thesis by (simp add: option.map_id)
  next
    case (2 c h')
    then obtain hex where c: "c = (1, hex)" "card_items (dm_hal d) = hex # card_items h'"
      by (auto simp: inj_on_def dest: map_injective)
    define d0 where "d0 = d\<lparr> dm_hal := h' \<rparr>"
    define d1 where "d1 = handle_card env ds 1 hex d0"
    have e: "judge_cards env ds d = judge_cards env ds d1"
      using 2(2) c(1) by (simp add: judge_cards.simps [of env ds d] d1_def d0_def)
    have s0: "same_settings d d0" "hl_calls h' = hl_calls (dm_hal d)" "down_items h' = down_items (dm_hal d)"
      using take_calls(2,3) [of "dm_hal d"] 2(2) by (simp_all add: d0_def same_settings_def)
    note d1 = handle_card_effect [where d = d0 and env = env and ds = ds and hex = hex, folded d1_def]
    have s1: "same_settings d d1" using s0(1) d1(1) by (rule same_settings_trans)
    have f: "dm_net d1 = map_option (card_report env d ds hex) (dm_net d)"
      "dm_hal d1 = say (card_doors env d hex) h'"
      using d1(2,3) card_cong [OF s0(1)] by (simp_all add: d0_def)
    have "hal_inv (dm_hal d1)" using 2(3) f(2) by simp
    then have ih: "let d' = judge_cards env ds d1; cards = card_items h'
      in same_settings d1 d' \<and> hal_inv (dm_hal d') \<and> card_items (dm_hal d') = [] \<and> down_items (dm_hal d') = down_items (dm_hal d1)
        \<and> hl_calls (dm_hal d') = hl_calls (dm_hal d1) @ concat (map (card_doors env d) cards)
        \<and> dm_net d' = map_option (fold (card_report env d ds) cards) (dm_net d1)"
      using "1.IH" [OF 2(2) [symmetric] refl c(1) [symmetric], folded d0_def, folded d1_def] f(2)
        card_cong [OF s1] by (simp add: Let_def)
    then show ?thesis
      using s1 same_settings_trans by (simp add: Let_def e c(2) f s0(2,3) option.map_comp comp_def)
  qed
qed

text \<open>What the two sensors report when they changed.\<close>

definition sensor_reports :: "daemon_env \<Rightarrow> bool \<Rightarrow> bool \<Rightarrow> bool \<Rightarrow> bool \<Rightarrow> acu_net \<Rightarrow> acu_net" where
  "sensor_reports env alarm_was alarm fire_was fire net =
    (let net1 = (if alarm \<noteq> alarm_was
                 then net_push_system_event (dv_net env) net
                        (if alarm then IDTI_EVENT_ALARM_DETECTED else IDTI_EVENT_ALARM_RESTORED) 1 13
                 else net)
     in if fire \<noteq> fire_was
        then net_push_system_event (dv_net env) net1
               (if fire then IDTI_EVENT_FIRE_DETECTED else IDTI_EVENT_FIRE_RESTORED) 0 0
        else net1)"

lemma sensor_active:
  "hal_read_sensor h HAL_SENSOR_ALARM_INPUT = HAL_SENSOR_ACTIVE \<longleftrightarrow> hl_alarm_active h"
  "hal_read_sensor h HAL_SENSOR_FIRE_INPUT = HAL_SENSOR_ACTIVE \<longleftrightarrow> hl_fire_active h"
  by simp_all

lemma check_reports:
  "dm_net (check_alarm_fire env d) = map_option (sensor_reports env
     (dm_alarm_active d) (hl_alarm_active (dm_hal d)) (dm_fire_active d) (hl_fire_active (dm_hal d))) (dm_net d)"
  by (cases "dm_net d") (simp_all add: check_alarm_fire_def check_alarm_def check_fire_def sensor_reports_def Let_def)

text \<open>The state in which the loop over the cards starts.\<close>

definition before_cards :: "daemon_env \<Rightarrow> string \<Rightarrow> nat option \<Rightarrow> int \<Rightarrow> daemon \<Rightarrow> daemon" where
  "before_cards env input expirations fd d =
    (let d1 = on_hal (hal_service_fd input expirations fd) d
     in report_down_rrus env (check_alarm_fire env
          (on_net (\<lambda>net. net_set_door_status net (read_door_status (dm_hal d1))) d1)))"

lemma on_card_readable_split:
  "on_card_readable env input expirations fd d =
     judge_cards env (read_door_status (hal_service_fd input expirations fd (dm_hal d))) (before_cards env input expirations fd d)"
  by (simp add: on_card_readable_def before_cards_def Let_def)

lemma before_cards_effect:
  fixes env input expirations fd d
  defines "h1 \<equiv> hal_service_fd input expirations fd (dm_hal d)"
    and "d4 \<equiv> before_cards env input expirations fd d"
  assumes "hal_inv (dm_hal d)"
  shows "rt_users d4 = rt_users d" "rt_db d4 = rt_db d" "dm_cfg d4 = dm_cfg d"
    "dm_alarm_active d4 = hl_alarm_active h1" "dm_fire_active d4 = hl_fire_active h1"
    "hal_inv (dm_hal d4)" "card_items (dm_hal d4) = card_items h1" "down_items (dm_hal d4) = []"
    "door_calls d4 = door_calls d" "relays_follow env d \<Longrightarrow> relays_follow env d4"
    "hl_alarm_active h1 = dm_alarm_active d \<Longrightarrow> hl_fire_active h1 = dm_fire_active d \<Longrightarrow> hl_calls (dm_hal d4) = hl_calls (dm_hal d)"
    "dm_net d4 = map_option (down_reports env (down_items h1)
        \<circ> sensor_reports env (dm_alarm_active d) (hl_alarm_active h1) (dm_fire_active d) (hl_fire_active h1)
        \<circ> (\<lambda>net. net_set_door_status net (read_door_status h1))) (dm_net d)"
proof -
  define d2 where "d2 = on_net (\<lambda>net. net_set_door_status net (read_door_status h1)) (on_hal (hal_service_fd input expirations fd) d)"
  define d3 where "d3 = check_alarm_fire env d2"
  have h1: "hal_inv h1" "hl_calls h1 = hl_calls (dm_hal d)"
    using service_inv [OF assms(3)] service_calls by (simp_all add: h1_def)
  have d2: "dm_hal d2 = h1" "rt_users d2 = rt_users d" "rt_db d2 = rt_db d" "dm_cfg d2 = dm_cfg d"
    "dm_alarm_active d2 = dm_alarm_active d" "dm_fire_active d2 = dm_fire_active d"
    "dm_net d2 = map_option (\<lambda>net. net_set_door_status net (read_door_status h1)) (dm_net d)"
    by (simp_all add: d2_def h1_def)
  then have "door_calls d2 = door_calls d" using h1(2) by (simp add: door_calls_def)
  have d3: "hal_inv (dm_hal d3)" using h1 d2 by (simp add: d3_def)
  have "before_cards env input expirations fd d = report_down_rrus env d3"
    by (simp add: before_cards_def d3_def d2_def h1_def Let_def)
  then have d4: "same_settings d3 d4" "hal_inv (dm_hal d4)" "down_items (dm_hal d4) = []"
    "card_items (dm_hal d4) = card_items (dm_hal d3)" "hl_calls (dm_hal d4) = hl_calls (dm_hal d3)"
    "dm_net d4 = map_option (down_reports env (down_items (dm_hal d3))) (dm_net d3)"
    using report_down_effect [OF d3, of env] by (simp_all add: Let_def d4_def)
  show "rt_users d4 = rt_users d" "rt_db d4 = rt_db d" "dm_cfg d4 = dm_cfg d"
    "dm_alarm_active d4 = hl_alarm_active h1" "dm_fire_active d4 = hl_fire_active h1"
    using d4(1) d2 check_sensors [of env d2] by (simp_all add: same_settings_def d3_def)
  show "hal_inv (dm_hal d4)" "down_items (dm_hal d4) = []" by (rule d4(2), rule d4(3))
  show "card_items (dm_hal d4) = card_items h1" using d4(4) d2 by (simp add: d3_def)
  have "door_calls d4 = door_calls d3" using d4(5) by (simp add: door_calls_def)
  then show "door_calls d4 = door_calls d" using \<open>door_calls d2 = door_calls d\<close> by (simp add: d3_def)
  show "dm_net d4 = map_option (down_reports env (down_items h1)
        \<circ> sensor_reports env (dm_alarm_active d) (hl_alarm_active h1) (dm_fire_active d) (hl_fire_active h1)
        \<circ> (\<lambda>net. net_set_door_status net (read_door_status h1))) (dm_net d)"
    using d4(6) d2 check_reports [of env d2] by (simp add: d3_def option.map_comp comp_def)
  show "hl_alarm_active h1 = dm_alarm_active d \<Longrightarrow> hl_fire_active h1 = dm_fire_active d \<Longrightarrow> hl_calls (dm_hal d4) = hl_calls (dm_hal d)"
    using d4(5) d2 h1(2) by (simp add: d3_def check_alarm_fire_def check_alarm_def check_fire_def Let_def)
  assume "relays_follow env d"
  then have "relays_follow env d2" using relays_follow_cong [of d2 d "[]"] d2 h1(2) by simp
  then have "relays_follow env d3" using check_follows by (simp add: d3_def)
  then show "relays_follow env d4"
    using relays_follow_cong [of d4 d3 "[]"] d4(1,5) by (simp add: same_settings_def)
qed

section \<open>Card numbers\<close>

text \<open>How a card number is written: two upper-case digits for each byte.\<close>

definition hex_char :: "nat \<Rightarrow> char" where
  "hex_char n = char_of (if n < 10 then 48 + n else 55 + n)"

definition hex_text :: "byte list \<Rightarrow> string" where
  "hex_text bs = concat (map (\<lambda>b. [hex_char (unat b div 16), hex_char (unat b mod 16)]) bs)"

lemma hex_char_ok:
  assumes "n < 16"
  shows "hex_digit (hex_char n) = n" "is_upper_hex (hex_char n)" "isxdigit (hex_char n)"
proof -
  have "of_char (hex_char n) = (if n < 10 then 48 + n else 55 + n)"
    using assms by (simp add: hex_char_def of_char_of take_bit_nat_eq_self_iff)
  then show "hex_digit (hex_char n) = n" "is_upper_hex (hex_char n)" "isxdigit (hex_char n)"
    using assms by (auto simp: hex_digit_def is_upper_hex_def isxdigit_def isdigit_def)
qed

lemma byte_digits: "unat (b :: byte) div 16 < 16" "unat b mod 16 < 16"
proof -
  have "unat b < 256" using unsigned_less [of b, where 'a = nat] by simp
  then show "unat b div 16 < 16" by (simp add: less_mult_imp_div_less)
qed simp

lemma length_hex_text [simp]: "length (hex_text bs) = 2 * length bs"
  by (induction bs) (simp_all add: hex_text_def)

lemma drop_hex_text: "drop (i * 2) (hex_text bs) = hex_text (drop i bs)"
proof (induction bs arbitrary: i)
  case (Cons b bs)
  then show ?case by (cases i) (simp_all add: hex_text_def)
qed (simp add: hex_text_def)

lemma scan_hex_text: "scan_hex2 (hex_text (b # bs)) = unat b"
  using byte_digits [of b] by (simp add: hex_text_def scan_hex2_def hex_char_ok)

lemma foldl_update: "n \<le> length xs \<Longrightarrow> foldl (\<lambda>out i. out[i := f i]) xs [0..<n] = map f [0..<n] @ drop n xs"
proof (induction n)
  case (Suc n)
  then have "drop n xs = xs ! n # drop (Suc n) xs" by (simp add: Cons_nth_drop_Suc)
  with Suc show ?case by (simp add: list_update_append)
qed simp

lemma hex_to_card_text:
  assumes "length bs = 8"
  shows "hex_to_card (hex_text bs) = bs"
proof -
  have "scan_hex2 (drop (i * 2) (hex_text bs)) = unat (bs ! i)" if "i < 8" for i
    using that assms scan_hex_text [of "bs ! i" "drop (Suc i) bs"]
    by (simp add: drop_hex_text Cons_nth_drop_Suc)
  then have "map (\<lambda>i. of_nat (scan_hex2 (drop (i * 2) (hex_text bs)))) [0..<8] = bs"
    using assms by (intro nth_equalityI) simp_all
  then show ?thesis by (simp add: hex_to_card_def Let_def assms foldl_update zeros_def)
qed

lemma card_text_hex: "length bs = 8 \<Longrightarrow> card_text (hex_text bs)"
  using hex_char_ok(2) byte_digits by (simp add: card_text_def) (auto simp: list_all_iff hex_text_def)

section \<open>A test installation\<close>

text \<open>The seeded directory and settings, no server, an empty queue.\<close>

definition demo_judge_env :: daemon_env where
  "demo_judge_env = \<lparr> dv_net = demo_env, dv_judge = seeded_env \<rparr>"

definition demo_daemon :: daemon where
  "demo_daemon = \<lparr> dm_net = None, dm_users = seeded_users, dm_db = seeded_settings, dm_events = demo_store 2,
     dm_userbin = None, dm_loop = loop_create, dm_disc = None, dm_cfg = config_set_defaults, dm_pid_path = [],
     dm_hal = demo_hal, dm_alarm_active = False, dm_fire_active = False,
     dm_timer_fd = 8, dm_closed = [] \<rparr>"

lemma demo_daemon_simps [simp]:
  "dm_hal demo_daemon = demo_hal" "rt_users demo_daemon = seeded_users" "rt_db demo_daemon = seeded_settings"
  "dm_net demo_daemon = None" "dm_cfg demo_daemon = config_set_defaults"
  by (simp_all add: demo_daemon_def rt_users_def rt_db_def)

section \<open>Properties\<close>

text \<open>
  C33. One wake-up of the input handles everything that has arrived, in a fixed order: the door
  status, then a changed alarm or fire sensor, then each lost reader, then each waiting card in
  turn, one report each; both queues are empty afterwards, and the door relay is released once
  for each card that is let in and for no other.
\<close>

theorem input_batch_handled:
  fixes env input expirations fd d
  defines "h1 \<equiv> hal_service_fd input expirations fd (dm_hal d)"
    and "d' \<equiv> on_card_readable env input expirations fd d"
  assumes "hal_inv (dm_hal d)"
  shows "hal_inv (dm_hal d') \<and> card_items (dm_hal d') = [] \<and> down_items (dm_hal d') = []
    \<and> door_calls d' = door_calls d @ concat (map (card_doors env d) (card_items h1))
    \<and> dm_net d' = map_option (fold (card_report env d (read_door_status h1)) (card_items h1)
        \<circ> (down_reports env (down_items h1)
          \<circ> sensor_reports env (dm_alarm_active d) (hl_alarm_active h1) (dm_fire_active d) (hl_fire_active h1)
          \<circ> (\<lambda>net. net_set_door_status net (read_door_status h1)))) (dm_net d)"
proof -
  define d4 where "d4 = before_cards env input expirations fd d"
  have d': "d' = judge_cards env (read_door_status h1) d4"
    by (simp add: d'_def d4_def h1_def on_card_readable_split)
  note b = before_cards_effect [OF assms(3), where env = env and input = input and expirations = expirations and fd = fd, folded d4_def h1_def]
  have e: "card_doors env d4 = card_doors env d" "card_report env d4 = card_report env d"
    using card_frame [of d4 d env] b(1-3) by simp_all
  have "filter moves_door (concat (map (card_doors env d4) cs)) = concat (map (card_doors env d4) cs)" for cs
    by (auto simp: filter_id_conv card_doors_def)
  then have "door_calls d' = door_calls d4 @ concat (map (card_doors env d4) (card_items (dm_hal d4)))"
    using judge_cards_effect [OF b(6), of env "read_door_status h1"] by (simp add: d' Let_def door_calls_def)
  then show ?thesis
    using judge_cards_effect [OF b(6), of env "read_door_status h1"] b(7-9,12) e
    by (simp add: d' Let_def option.map_comp)
qed

text \<open>
  The alarm relays follow the rule of the settings: if every alarm output was where the rule
  puts it, it is there again after any input, and the rule is then the one for the sensors as
  they are now: on while the alarm input is active, and while the fire input is active if bit 7
  of its options says so. A wake-up without any sensor change moves no output.
\<close>

theorem alarm_relays_follow_rule:
  fixes env input expirations fd d
  defines "h1 \<equiv> hal_service_fd input expirations fd (dm_hal d)"
    and "d' \<equiv> on_card_readable env input expirations fd d"
  assumes "hal_inv (dm_hal d)" "relays_follow env d"
  shows "relays_follow env d' \<and> dm_alarm_active d' = hl_alarm_active h1 \<and> dm_fire_active d' = hl_fire_active h1
    \<and> (hl_alarm_active h1 = dm_alarm_active d \<and> hl_fire_active h1 = dm_fire_active d \<longrightarrow>
         filter (\<lambda>c. \<not> moves_door c) (hl_calls (dm_hal d')) = filter (\<lambda>c. \<not> moves_door c) (hl_calls (dm_hal d)))"
proof -
  define d4 where "d4 = before_cards env input expirations fd d"
  have d': "d' = judge_cards env (read_door_status h1) d4"
    by (simp add: d'_def d4_def h1_def on_card_readable_split)
  note b = before_cards_effect [OF assms(3), where env = env and input = input and expirations = expirations and fd = fd, folded d4_def h1_def]
  have j: "same_settings d4 d'"
    "hl_calls (dm_hal d') = hl_calls (dm_hal d4) @ concat (map (card_doors env d4) (card_items (dm_hal d4)))"
    using judge_cards_effect [OF b(6), of env "read_door_status h1"] by (simp_all add: d' Let_def)
  have "\<forall>m s on. Set_output m s on \<notin> set (concat (map (card_doors env d4) (card_items (dm_hal d4))))"
    by (auto simp: card_doors_def)
  then have "relays_follow env d'"
    using relays_follow_cong [of d' d4] j b(10) [OF assms(4)] by (simp add: same_settings_def)
  moreover have "filter (\<lambda>c. \<not> moves_door c) (concat (map (card_doors env d4) cs)) = []" for cs
    by (auto simp: filter_empty_conv card_doors_def)
  ultimately show ?thesis using j b(4,5,11) by (simp add: same_settings_def)
qed

theorem input_batch_handled_witness:
  "card_items (dm_hal (on_card_readable demo_judge_env (''rru down 2'' @ [CHR 0x0A] @ ''04a1'' @ [CHR 0x0A]) None 6
     demo_daemon)) = []"
  using input_batch_handled [of demo_daemon demo_judge_env "''rru down 2'' @ [CHR 0x0A] @ ''04a1'' @ [CHR 0x0A]" None 6]
  by (simp add: demo_hal_inv)

text \<open>An alarm output that also follows the fire input, and a fire.\<close>

definition demo_alarm_daemon :: daemon where
  "demo_alarm_daemon = demo_daemon\<lparr> dm_db := seeded_settings\<lparr> st_settings :=
     [\<lparr> sr_object = IDTI_OBJ_OUTPUT, sr_module = 1, sr_slot = 8,
        sr_data = [0, 0, 0, 0, 0, 0, 2, 0, 0, 0, 0x80, 0, 0, 0] \<rparr>] \<rparr> \<rparr>"

lemma demo_alarm_start: "relays_follow demo_judge_env demo_alarm_daemon" "dm_hal demo_alarm_daemon = demo_hal"
  by (simp_all add: relays_follow_def alarm_rule_def demo_alarm_daemon_def demo_daemon_def relay_on_def
      demo_hal_def hal_init_def hal_static_def split: prod.split)

lemma demo_fire: "hl_fire_active (hal_service_fd (''fire on'' @ [CHR 0x0A]) None 6 demo_hal)"
  by (simp add: hal_service_fd_def drain_fifo_def fifo_char_def demo_hal_inv handle_line_def c_string_def trim_def
      is_blank_def handle_command_def demo_hal_def hal_init_def hal_static_def)

theorem alarm_relays_follow_rule_witness:
  "relays_follow demo_judge_env (on_card_readable demo_judge_env (''fire on'' @ [CHR 0x0A]) None 6 demo_alarm_daemon)
    \<and> dm_fire_active (on_card_readable demo_judge_env (''fire on'' @ [CHR 0x0A]) None 6 demo_alarm_daemon)"
  using alarm_relays_follow_rule [of demo_alarm_daemon demo_judge_env "''fire on'' @ [CHR 0x0A]" None 6]
  demo_fire
  by (simp add: demo_alarm_start demo_hal_inv)

text \<open>
  C1. A card typed at the pipe decides the door: the sixteen digits of an eight-byte number come
  out of the queue as that number, and the relay is released, for the configured seconds, exactly
  when the judgement of that number by the directory and the settings is to let it in.
\<close>

theorem typed_card_decides_door:
  assumes "hal_inv (dm_hal d)" "hl_line (dm_hal d) = []" "card_items (dm_hal d) = []" "0 \<le> hl_fifo_fd (dm_hal d)"
    and "length cid = 8"
  shows "door_calls (on_card_readable env (hex_text cid @ [CHR 0x0A]) None (hl_fifo_fd (dm_hal d)) d) =
    door_calls d @
      (if fst (access_judge (dv_judge env) (rt_users d) (rt_db d) cid) = ACCESS_GRANTED
       then [Open_door (cf_door_open_seconds (dm_cfg d))] else [])"
proof -
  let ?h1 = "hal_service_fd (hex_text cid @ [CHR 0x0A]) None (hl_fifo_fd (dm_hal d)) (dm_hal d)"
  have "card_items (fold fifo_char (hex_text cid @ [CHR 0x0A]) (dm_hal d)) = [hex_text cid]"
    using fifo_card_lines [of "dm_hal d" "[hex_text cid]"] assms card_text_hex [of cid]
    by (simp add: Let_def last_items_def)
  then have items: "card_items ?h1 = [hex_text cid]"
    using assms(4) by (simp add: hal_service_fd_def drain_fifo_def)
  define d4 where "d4 = before_cards env (hex_text cid @ [CHR 0x0A]) None (hl_fifo_fd (dm_hal d)) d"
  note b = before_cards_effect [OF assms(1), where env = env and input = "hex_text cid @ [CHR 0x0A]"
      and expirations = None and fd = "hl_fifo_fd (dm_hal d)", folded d4_def]
  have "card_doors env d4 = card_doors env d" using card_frame(2) [of d4 d env] b(1-3) by simp
  moreover have "hl_calls (dm_hal (judge_cards env (read_door_status ?h1) d4))
      = hl_calls (dm_hal d4) @ concat (map (card_doors env d4) (card_items (dm_hal d4)))"
    using judge_cards_effect [OF b(6), of env "read_door_status ?h1"] by (simp add: Let_def)
  ultimately have "door_calls (judge_cards env (read_door_status ?h1) d4)
      = door_calls d4 @ filter moves_door (card_doors env d (hex_text cid))"
    using b(7) items by (simp add: door_calls_def)
  then show ?thesis
    using b(9) hex_to_card_text [OF assms(5)]
    by (simp add: on_card_readable_split d4_def [symmetric] card_doors_def card_verdict_def)
qed

theorem typed_card_decides_door_witness:
  "door_calls (on_card_readable demo_judge_env (hex_text [0x04, 0xA1, 0xB2, 0xC3, 0xD4, 0xE5, 0xF6, 0x00] @ [CHR 0x0A])
     None 6 demo_daemon) = [Open_door 3]"
  using typed_card_decides_door [of demo_daemon "[0x04, 0xA1, 0xB2, 0xC3, 0xD4, 0xE5, 0xF6, 0x00]" demo_judge_env]
    seeded_verdicts_first
  by (simp add: demo_hal_inv demo_judge_env_def door_calls_def) (simp add: config_set_defaults_def demo_hal_def hal_init_def hal_static_def)

end
