(* ===== verification/Daemon_Life.thy ===== *)
theory Daemon_Life
  imports Daemon
begin

text \<open>
  The life of the daemon, function \<open>main\<close> of \<open>acud/main.c\<close>: start-up, reloading the configuration
  on SIGHUP, and shutdown. The properties say which failures keep the daemon from starting, what a
  reload keeps, what a change of the port loses, and that shutdown uses the registry after freeing it.
\<close>

section \<open>Start-up\<close>

text \<open>
  What the outside answers: the configuration file and its parser, the descriptors and results of
  the system calls, the contents of the databases by path, the outcomes of the SQLite calls.
  \<open>sv_userbin_ok\<close> and \<open>sv_loop_ok\<close> are the two allocations whose failure is handled.
\<close>

record start_env =
  sv_parse :: "string \<Rightarrow> json_object option"
  sv_file :: "string option"
  sv_fifo_env :: "string option"
  sv_mkfifo_ok :: bool
  sv_fifo_fd :: int
  sv_auto_fd :: int
  sv_db_ok :: db_ok
  sv_db_file :: "string \<Rightarrow> settings_db"
  sv_year_ago :: string
  sv_year_ahead :: string
  sv_ev_ok :: ev_ok
  sv_events_file :: "string \<Rightarrow> open_outcome"
  sv_us_ok :: us_ok
  sv_users_file :: "string \<Rightarrow> user_tables option"
  sv_userbin_ok :: bool
  sv_sock_fd :: int
  sv_bind_ok :: "int \<Rightarrow> bool"
  sv_listen_ok :: bool
  sv_clock :: int
  sv_disc :: disc_env
  sv_disc_fd :: int
  sv_disc_bind_ok :: bool
  sv_disc_request :: "string option"
  sv_loop_ok :: bool
  sv_timer_fd :: int
  sv_timer_ok :: bool

text \<open>A configuration that cannot be loaded leaves the defaults.\<close>

definition start_config :: "start_env \<Rightarrow> acu_config" where
  "start_config env =
    (case config_load (sv_parse env) (sv_file env) config_set_defaults of
       None \<Rightarrow> config_set_defaults
     | Some cfg \<Rightarrow> cfg)"

text \<open>\<open>db_open\<close>, the test groups, the table of device settings (whose failure is ignored).\<close>

definition open_settings :: "start_env \<Rightarrow> string \<Rightarrow> settings_db option" where
  "open_settings env path =
     map_option (db_seed_dummy_data (sv_db_ok env) (sv_year_ago env) (sv_year_ahead env))
       (db_open (sv_db_ok env) (sv_db_file env path))"

definition start_net :: "start_env \<Rightarrow> int \<Rightarrow> acu_users \<Rightarrow> int \<Rightarrow> acu_net option" where
  "start_net env port u clock = net_init (sv_sock_fd env) (sv_bind_ok env port) (sv_listen_ok env) u clock"

text \<open>The settings of the server that a reload applies too, then those of a new server.\<close>

definition configure_net :: "acu_config \<Rightarrow> acu_events \<Rightarrow> acu_net \<Rightarrow> acu_net" where
  "configure_net cfg ev net =
    (let net1 = net_set_inactivity_timeout net (cf_inactivity_seconds cfg);
         net2 = net_set_device_identity net1 (cf_device_category cfg) (cf_device_type cfg);
         net3 = net_set_time_sync net2 (cf_time_sync_enabled cfg \<noteq> 0);
         net4 = net_set_event_store net3 (Some ev) (cf_events_batch_size cfg)
     in apply_module_layout cfg net4)"

definition equip_net ::
  "acu_config \<Rightarrow> acu_events \<Rightarrow> user_bin option \<Rightarrow> acu_users \<Rightarrow> settings_db \<Rightarrow> acu_net \<Rightarrow> acu_net" where
  "equip_net cfg ev ub u db net =
    (let net1 = net_set_settings_db (net_set_users (net_set_userbin (configure_net cfg ev net) ub) (Some u)) (Some db)
     in net_set_setting_changed_handler (net_set_force_open_handler net1 True) True)"

text \<open>\<open>loop_add\<close> with one of the daemon's callbacks: 0 discovery, 1 input, 2 housekeeping.\<close>

definition watch :: "nat \<Rightarrow> int \<Rightarrow> net_callback acu_loop \<Rightarrow> net_callback acu_loop" where
  "watch k fd l = (case loop_add l fd ACU_LOOP_READ (Some (Cb_elsewhere k)) of None \<Rightarrow> l | Some l' \<Rightarrow> l')"

definition on_loop :: "(net_callback acu_loop \<Rightarrow> net_callback acu_loop) \<Rightarrow> daemon \<Rightarrow> daemon" where
  "on_loop f d =
    (case dm_net d of
       None \<Rightarrow> d\<lparr> dm_loop := f (dm_loop d) \<rparr>
     | Some net \<Rightarrow> d\<lparr> dm_net := Some (net\<lparr> nt_loop := f (nt_loop net) \<rparr>) \<rparr>)"

definition register_input_fds :: "daemon \<Rightarrow> daemon" where
  "register_input_fds d = on_loop (fold (watch 1) (hal_input_fds (dm_hal d))) d"

definition start_timer :: "start_env \<Rightarrow> daemon \<Rightarrow> daemon" where
  "start_timer env d =
    (if sv_timer_fd env < 0 then d\<lparr> dm_timer_fd := sv_timer_fd env \<rparr>
     else if \<not> sv_timer_ok env \<or> loop_add (rt_loop d) (sv_timer_fd env) ACU_LOOP_READ (Some (Cb_elsewhere 2)) = None
     then d\<lparr> dm_timer_fd := -1 \<rparr>
     else (on_loop (watch 2 (sv_timer_fd env)) d)\<lparr> dm_timer_fd := sv_timer_fd env \<rparr>)"

text \<open>\<open>None\<close>: the daemon ends with status 1, having closed what it had opened.\<close>

definition daemon_start :: "start_env \<Rightarrow> hal \<Rightarrow> daemon option" where
  "daemon_start env h =
    (let cfg = start_config env;
         h1 = hal_init (sv_fifo_env env) (sv_mkfifo_ok env) (sv_fifo_fd env) (sv_auto_fd env) h
     in case open_settings env (cf_db_path cfg) of
          None \<Rightarrow> None
        | Some db \<Rightarrow>
            let events_path = resolve_events_path 300 cfg;
                ev = events_open (sv_ev_ok env) events_path (cf_events_capacity cfg) (sv_events_file env events_path);
                users_path = resolve_users_path 300 cfg
            in case users_open (sv_us_ok env) users_path (sv_users_file env users_path) of
                 None \<Rightarrow> None
               | Some u0 \<Rightarrow>
                   let u = users_seed_dummy (sv_us_ok env) u0;
                       ub = (if sv_userbin_ok env then Some userbin_create else None);
                       net = map_option (equip_net cfg ev ub u db) (start_net env (cf_tcp_port cfg) u (sv_clock env));
                       disc = discover_init (sv_disc env) (sv_disc_fd env) (sv_disc_bind_ok env) (sv_disc_request env) cfg
                   in if \<not> sv_loop_ok env then None
                      else
                        let d = \<lparr> dm_net = map_option (\<lambda>n. snd (net_attach_loop n loop_create)) net, dm_users = u, dm_db = db,
                                  dm_events = ev, dm_userbin = ub, dm_loop = loop_create, dm_disc = disc, dm_cfg = cfg,
                                  dm_pid_path = cf_pid_path cfg, dm_hal = h1, dm_alarm_active = False,
                                  dm_fire_active = False, dm_timer_fd = -1, dm_closed = [] \<rparr>;
                            d1 = (if disc = None then d else on_loop (watch 0 (discover_fd disc)) d)
                        in Some (start_timer env (register_input_fds d1)))"

section \<open>Reloading\<close>

text \<open>The settings database moves when the new one opens; otherwise the old path stays.\<close>

definition reload_db :: "start_env \<Rightarrow> acu_config \<Rightarrow> daemon \<Rightarrow> acu_config \<times> daemon" where
  "reload_db env new_cfg d =
    (if cf_db_path new_cfg = cf_db_path (dm_cfg d) then (new_cfg, d)
     else case open_settings env (cf_db_path new_cfg) of
            None \<Rightarrow> (new_cfg\<lparr> cf_db_path := buffered 256 (cf_db_path (dm_cfg d)) \<rparr>, d)
          | Some db \<Rightarrow> (new_cfg, on_net (\<lambda>net. net_set_settings_db net (Some db)) (d\<lparr> dm_db := db \<rparr>)))"

text \<open>
  The server moves to the new port when that opens: the old one is shut down, and the registry it
  leaves is the one the new one attaches to. The clock is the kernel's and goes on.
\<close>

definition reload_port :: "start_env \<Rightarrow> acu_config \<Rightarrow> daemon \<Rightarrow> acu_config \<times> daemon" where
  "reload_port env new_cfg d =
    (if cf_tcp_port new_cfg = cf_tcp_port (dm_cfg d) then (new_cfg, d)
     else case start_net env (cf_tcp_port new_cfg) (rt_users d)
                 (case dm_net d of None \<Rightarrow> sv_clock env | Some net \<Rightarrow> kn_clock net) of
            None \<Rightarrow> (new_cfg\<lparr> cf_tcp_port := cf_tcp_port (dm_cfg d) \<rparr>, d)
          | Some net0 \<Rightarrow>
              let (l, closed) = (case dm_net d of None \<Rightarrow> (dm_loop d, []) | Some net \<Rightarrow> net_shutdown net);
                  net1 = equip_net new_cfg (rt_events d) (rt_userbin d) (rt_users d) (rt_db d) net0
              in (new_cfg, d\<lparr> dm_net := Some (snd (net_attach_loop net1 l)), dm_closed := dm_closed d @ closed \<rparr>))"

definition daemon_reload :: "start_env \<Rightarrow> daemon \<Rightarrow> daemon" where
  "daemon_reload env d =
    (case config_load (sv_parse env) (sv_file env) (dm_cfg d) of
       None \<Rightarrow> d
     | Some new0 \<Rightarrow>
         let new1 = (if cf_pid_path new0 \<noteq> dm_pid_path d then new0\<lparr> cf_pid_path := buffered 256 (dm_pid_path d) \<rparr> else new0);
             (new2, d2) = reload_db env new1 d;
             (new3, d3) = reload_port env new2 d2;
             d4 = d3\<lparr> dm_cfg := new3, dm_disc := discover_apply_config (sv_disc env) (dm_disc d3) new3 \<rparr>
         in on_net (configure_net new3 (rt_events d4)) d4)"

section \<open>Shutdown\<close>

text \<open>
  What is left when the daemon has ended: the file of the directory (a transfer still running is
  undone by \<open>userbin_destroy\<close>), the hardware layer, the closed descriptors. The registry is \<open>None\<close>
  once \<open>loop_destroy\<close> has freed it; a removal from it is then a use of freed memory.
\<close>

record ended =
  en_users_file :: user_tables
  en_hal :: hal
  en_closed :: "int list"

datatype shutdown_result = Ended ended | Uses_freed_loop

definition stop_net :: "net_callback acu_loop option \<Rightarrow> acu_net option \<Rightarrow> int list option" where
  "stop_net l net =
    (case net of
       None \<Rightarrow> Some []
     | Some n \<Rightarrow> (case l of None \<Rightarrow> None | Some l' \<Rightarrow> Some (snd (net_shutdown (n\<lparr> nt_loop := l' \<rparr>)))))"

text \<open>The parts that only free: the registry, the discovery socket, a transfer that is still running.\<close>

definition loop_destroy :: "net_callback acu_loop \<Rightarrow> net_callback acu_loop option" where
  "loop_destroy l = None"

definition discover_shutdown :: "acu_discover option \<Rightarrow> int list" where
  "discover_shutdown disc = (case disc of None \<Rightarrow> [] | Some d \<Rightarrow> if dc_fd d \<ge> 0 then [dc_fd d] else [])"

definition userbin_destroy :: "us_ok \<Rightarrow> user_bin option \<Rightarrow> acu_users \<Rightarrow> acu_users" where
  "userbin_destroy ok ub u = (case ub of None \<Rightarrow> u | Some b \<Rightarrow> snd (userbin_abort ok b u))"

definition daemon_shutdown :: "start_env \<Rightarrow> daemon \<Rightarrow> shutdown_result" where
  "daemon_shutdown env d =
    (let l = (if dm_timer_fd d \<ge> 0 then loop_remove (rt_loop d) (dm_timer_fd d) else rt_loop d);
         timer_closed = (if dm_timer_fd d \<ge> 0 then [dm_timer_fd d] else []);
         disc_closed = discover_shutdown (dm_disc d)
     in case stop_net (loop_destroy l) (dm_net d) of
          None \<Rightarrow> Uses_freed_loop
        | Some net_closed \<Rightarrow>
            let u = userbin_destroy (sv_us_ok env) (rt_userbin d) (rt_users d)
            in Ended \<lparr> en_users_file = users_close u, en_hal = hal_shutdown (dm_hal d),
                       en_closed = dm_closed d @ timer_closed @ disc_closed @ net_closed \<rparr>)"

section \<open>What the settings of a server leave alone\<close>

text \<open>The fields of the connection and of the door, as one tuple.\<close>

definition connection_part ::
  "acu_net \<Rightarrow> (int \<times> int \<times> byte list \<times> nat \<times> byte list \<times> nat) \<times> (bool \<times> int \<times> nat \<times> net_callback acu_loop \<times> byte list)" where
  "connection_part net =
     ((nt_listen_fd net, nt_client_fd net, nt_recv_buf net, nt_recv_len net, nt_send_buf net, nt_send_off net),
      (nt_force_open net, nt_door_status net, nt_last_batch_first_seq net, nt_loop net, kn_wire net))"

lemma configure_keeps [simp]:
  "connection_part (configure_net cfg ev net) = connection_part net"
  "nt_users (configure_net cfg ev net) = nt_users net" "nt_userbin (configure_net cfg ev net) = nt_userbin net"
  "nt_settings_db (configure_net cfg ev net) = nt_settings_db net" "nt_events (configure_net cfg ev net) = Some ev"
  "nt_on_force_open (configure_net cfg ev net) = nt_on_force_open net"
  "nt_on_setting_changed (configure_net cfg ev net) = nt_on_setting_changed net"
  "kn_calls (configure_net cfg ev net) = kn_calls net"
  by (simp_all add: configure_net_def connection_part_def net_set_inactivity_timeout_def net_set_device_identity_def
      net_set_time_sync_def net_set_event_store_def apply_module_layout_def net_set_module_layout_def Let_def)

lemma equip_gives [simp]:
  "nt_users (equip_net cfg ev ub u db net) = u" "nt_userbin (equip_net cfg ev ub u db net) = ub"
  "nt_settings_db (equip_net cfg ev ub u db net) = Some db" "nt_events (equip_net cfg ev ub u db net) = Some ev"
  "nt_on_force_open (equip_net cfg ev ub u db net)" "nt_on_setting_changed (equip_net cfg ev ub u db net)"
  "nt_force_open (equip_net cfg ev ub u db net) = nt_force_open net"
  "nt_client_fd (equip_net cfg ev ub u db net) = nt_client_fd net"
  "nt_listen_fd (equip_net cfg ev ub u db net) = nt_listen_fd net"
  "nt_users_set (equip_net cfg ev ub u db net)" "kn_calls (equip_net cfg ev ub u db net) = kn_calls net"
  using configure_keeps(1) [of cfg ev net]
  by (simp_all add: equip_net_def net_set_settings_db_def net_set_users_def net_set_userbin_def connection_part_def
      net_set_setting_changed_handler_def net_set_force_open_handler_def Let_def)

lemma attach_keeps [simp]:
  "nt_users (snd (net_attach_loop net l)) = nt_users net" "nt_userbin (snd (net_attach_loop net l)) = nt_userbin net"
  "nt_settings_db (snd (net_attach_loop net l)) = nt_settings_db net" "nt_events (snd (net_attach_loop net l)) = nt_events net"
  "nt_force_open (snd (net_attach_loop net l)) = nt_force_open net"
  "nt_client_fd (snd (net_attach_loop net l)) = nt_client_fd net"
  "nt_on_force_open (snd (net_attach_loop net l)) = nt_on_force_open net"
  "nt_on_setting_changed (snd (net_attach_loop net l)) = nt_on_setting_changed net"
  "kn_calls (snd (net_attach_loop net l)) = kn_calls net"
  by (simp_all add: net_attach_loop_def split: option.split)

lemma start_net_fresh:
  assumes "start_net env port u clock = Some net"
  shows "\<not> nt_force_open net" "nt_client_fd net = -1" "kn_calls net = []"
  using assms by (auto simp: start_net_def net_init_def split: if_splits)

text \<open>What the judgement of cards and the reports need, and the state of the doors.\<close>

definition same_service :: "daemon \<Rightarrow> daemon \<Rightarrow> bool" where
  "same_service d d' \<longleftrightarrow> rt_users d' = rt_users d \<and> rt_events d' = rt_events d \<and> rt_userbin d' = rt_userbin d
     \<and> dm_hal d' = dm_hal d \<and> dm_alarm_active d' = dm_alarm_active d \<and> dm_fire_active d' = dm_fire_active d
     \<and> dm_pid_path d' = dm_pid_path d \<and> dm_timer_fd d' = dm_timer_fd d"

lemma same_service_trans: "same_service d d1 \<Longrightarrow> same_service d1 d2 \<Longrightarrow> same_service d d2"
  by (simp add: same_service_def)

lemma reload_db_service: "same_service d (snd (reload_db env cfg d))"
  by (auto simp: reload_db_def same_service_def on_net_def net_set_settings_db_def rt_users_def rt_events_def
      rt_userbin_def split: option.split)

lemma reload_db_cfg: "dm_cfg (snd (reload_db env cfg d)) = dm_cfg d"
  "cf_tcp_port (fst (reload_db env cfg d)) = cf_tcp_port cfg" "cf_pid_path (fst (reload_db env cfg d)) = cf_pid_path cfg"
  by (simp_all add: reload_db_def split: option.split)

lemma reload_port_service: "same_service d (snd (reload_port env cfg d))"
  by (auto simp: reload_port_def same_service_def rt_users_def rt_events_def rt_userbin_def Let_def
      split: option.split prod.split)

lemma reload_port_cfg: "cf_pid_path (fst (reload_port env cfg d)) = cf_pid_path cfg"
  by (simp add: reload_port_def Let_def split: option.split prod.split)

text \<open>The two changes of a reload that loads, in the order of the code.\<close>

lemma reload_split:
  assumes "config_load (sv_parse env) (sv_file env) (dm_cfg d) = Some new"
  defines "new1 \<equiv> (if cf_pid_path new \<noteq> dm_pid_path d then new\<lparr> cf_pid_path := buffered 256 (dm_pid_path d) \<rparr> else new)"
  obtains new2 d2 new3 d3 d4 where "reload_db env new1 d = (new2, d2)" "reload_port env new2 d2 = (new3, d3)"
    "d4 = d3\<lparr> dm_cfg := new3, dm_disc := discover_apply_config (sv_disc env) (dm_disc d3) new3 \<rparr>"
    "daemon_reload env d = on_net (configure_net new3 (rt_events d4)) d4"
    "cf_tcp_port new2 = cf_tcp_port new" "dm_cfg d2 = dm_cfg d"
proof -
  obtain new2 d2 where r2: "reload_db env new1 d = (new2, d2)" by fastforce
  obtain new3 d3 where r3: "reload_port env new2 d2 = (new3, d3)" by fastforce
  have "cf_tcp_port new2 = cf_tcp_port new" "dm_cfg d2 = dm_cfg d"
    using reload_db_cfg [of env new1 d] r2 by (simp_all add: new1_def)
  with r2 r3 show thesis
    by (intro that [OF r2 r3 refl]) (simp_all add: daemon_reload_def assms(1) new1_def [symmetric] Let_def)
qed

lemma reload_service: "same_service d (daemon_reload env d)"
proof (cases "config_load (sv_parse env) (sv_file env) (dm_cfg d)")
  case None
  then show ?thesis by (simp add: daemon_reload_def same_service_def)
next
  case (Some new)
  then obtain new2 d2 new3 d3 d4 where
    r: "reload_db env (if cf_pid_path new \<noteq> dm_pid_path d then new\<lparr> cf_pid_path := buffered 256 (dm_pid_path d) \<rparr> else new) d = (new2, d2)"
      "reload_port env new2 d2 = (new3, d3)"
    and d4: "d4 = d3\<lparr> dm_cfg := new3, dm_disc := discover_apply_config (sv_disc env) (dm_disc d3) new3 \<rparr>"
    and e: "daemon_reload env d = on_net (configure_net new3 (rt_events d4)) d4" by (rule reload_split)
  have "same_service d d3"
    using same_service_trans [OF reload_db_service reload_port_service] r by (metis snd_conv)
  moreover have "same_service d3 d4"
    by (simp add: same_service_def d4 rt_users_def rt_events_def rt_userbin_def split: option.split)
  moreover have "same_service d4 (on_net (configure_net new3 (rt_events d4)) d4)"
    by (simp add: same_service_def on_net_def rt_users_def rt_events_def rt_userbin_def split: option.split)
  ultimately show ?thesis unfolding e by (blast intro: same_service_trans)
qed

section \<open>Properties\<close>

text \<open>
  Only three things keep the daemon from starting: the settings database, the user directory,
  and the event loop. A missing or broken configuration file, a port that is taken, a failing
  discovery socket, an event store that cannot be opened and a failing timer do not.
\<close>

theorem start_fails_only_without_databases:
  "daemon_start env h = None \<longleftrightarrow>
     \<not> sv_db_ok env Db_open \<or> \<not> sv_db_ok env Db_schema \<or> \<not> sv_loop_ok env
     \<or> users_open (sv_us_ok env) (resolve_users_path 300 (start_config env))
          (sv_users_file env (resolve_users_path 300 (start_config env))) = None"
  by (auto simp: daemon_start_def open_settings_def db_open_def Let_def split: option.splits)

text \<open>
  C35. Reloading never costs the daemon its work: the user directory with a transfer in progress,
  the event store, the relays and the sensor state and the path of the PID file are kept whatever
  the new file says; a file that does not load changes nothing; and while the port stays the same
  the manager's connection, its buffers and the forced opening go on untouched.
\<close>

theorem reload_keeps_service:
  "same_service d (daemon_reload env d)
   \<and> (config_load (sv_parse env) (sv_file env) (dm_cfg d) = None \<longrightarrow> daemon_reload env d = d)
   \<and> (\<forall>new. config_load (sv_parse env) (sv_file env) (dm_cfg d) = Some new \<and> cf_tcp_port new = cf_tcp_port (dm_cfg d)
        \<longrightarrow> map_option connection_part (dm_net (daemon_reload env d)) = map_option connection_part (dm_net d))"
proof -
  have "map_option connection_part (dm_net (daemon_reload env d)) = map_option connection_part (dm_net d)"
    if load: "config_load (sv_parse env) (sv_file env) (dm_cfg d) = Some new"
      and port: "cf_tcp_port new = cf_tcp_port (dm_cfg d)" for new
  proof (rule reload_split [OF load])
    fix new1 new2 d2 new3 d3 d4
    assume r: "reload_db env new1 d = (new2, d2)" "reload_port env new2 d2 = (new3, d3)"
      and d4: "d4 = d3\<lparr> dm_cfg := new3, dm_disc := discover_apply_config (sv_disc env) (dm_disc d3) new3 \<rparr>"
      and e: "daemon_reload env d = on_net (configure_net new3 (rt_events d4)) d4"
      and p: "cf_tcp_port new2 = cf_tcp_port new" "dm_cfg d2 = dm_cfg d"
    have "d3 = d2" using r(2) p port by (simp add: reload_port_def)
    moreover have "map_option connection_part (dm_net d2) = map_option connection_part (dm_net d)"
      using r(1) by (cases "dm_net d")
        (auto simp: reload_db_def on_net_def net_set_settings_db_def connection_part_def split: option.splits if_splits)
    ultimately show ?thesis unfolding e by (simp add: d4 option.map_comp comp_def)
  qed
  then show ?thesis using reload_service by (simp add: daemon_reload_def)
qed

text \<open>An installation whose databases open and whose configuration file names the default port.\<close>

definition demo_start_env :: start_env where
  "demo_start_env = \<lparr> sv_parse = (\<lambda>_. Some demo_json), sv_file = Some [], sv_fifo_env = None, sv_mkfifo_ok = True,
     sv_fifo_fd = 6, sv_auto_fd = 7, sv_db_ok = db_all_ok,
     sv_db_file = (\<lambda>_. \<lparr> st_validations = [], st_timezones = [], st_settings = [] \<rparr>),
     sv_year_ago = ''2025-09-16'', sv_year_ahead = ''2027-09-16'', sv_ev_ok = all_ok,
     sv_events_file = (\<lambda>_. Open_failed), sv_us_ok = us_all_ok,
     sv_users_file = (\<lambda>_. Some \<lparr> ut_users = [], ut_cards = [], ut_users_load = None, ut_cards_load = None \<rparr>),
     sv_userbin_ok = True, sv_sock_fd = 4, sv_bind_ok = (\<lambda>_. True), sv_listen_ok = True, sv_clock = 1000,
     sv_disc = demo_disc_env, sv_disc_fd = 8, sv_disc_bind_ok = True, sv_disc_request = None,
     sv_loop_ok = True, sv_timer_fd = 9, sv_timer_ok = True \<rparr>"

theorem reload_keeps_service_witness:
  "daemon_reload (demo_start_env\<lparr> sv_file := None \<rparr>) demo_daemon = demo_daemon"
  using reload_keeps_service [of demo_daemon "demo_start_env\<lparr> sv_file := None \<rparr>"] by (simp add: config_load_def)

text \<open>
  C36. A change of the port while the doors are forced open strands them: the new server starts
  with the state \<open>not forced\<close> although the relay has not been told anything, so the manager's
  command to end the forced opening is answered with success and moves no relay.
\<close>

theorem port_change_strands_forced_doors:
  assumes "config_load (sv_parse env) (sv_file env) (dm_cfg d) = Some new"
    and "cf_tcp_port new \<noteq> cf_tcp_port (dm_cfg d)"
    and "0 \<le> sv_sock_fd env" "sv_bind_ok env (cf_tcp_port new)" "sv_listen_ok env"
    and "object hdr = IDTI_OBJ_FORCE_OPEN" "command hdr = IDTI_CMD_SND_STATUS" "sub_command hdr = IDTI_SUBCMD_CHANGE"
    and "frame_data hdr pkt = [0]"
  shows "\<exists>net. dm_net (daemon_reload env d) = Some net \<and> dm_hal (daemon_reload env d) = dm_hal d
    \<and> handle_force_open_request nenv net hdr pkt = (True, send_ack nenv net hdr IDTI_ACK_SUCCESS)"
proof (rule reload_split [OF assms(1)])
  fix new1 new2 d2 new3 d3 d4
  assume r: "reload_port env new2 d2 = (new3, d3)"
    and d4: "d4 = d3\<lparr> dm_cfg := new3, dm_disc := discover_apply_config (sv_disc env) (dm_disc d3) new3 \<rparr>"
    and e: "daemon_reload env d = on_net (configure_net new3 (rt_events d4)) d4"
    and p: "cf_tcp_port new2 = cf_tcp_port new" "dm_cfg d2 = dm_cfg d"
  define clock where "clock = (case dm_net d2 of None \<Rightarrow> sv_clock env | Some net \<Rightarrow> kn_clock net)"
  obtain net0 where n0: "start_net env (cf_tcp_port new) (rt_users d2) clock = Some net0"
    using assms(3-5) by (simp add: start_net_def net_init_def)
  obtain net1 where n1: "dm_net d3 = Some net1" "\<not> nt_force_open net1"
    using r p assms(2) n0 start_net_fresh(1) [OF n0]
    by (auto simp: reload_port_def clock_def Let_def split: prod.splits)
  then have "\<not> nt_force_open (configure_net new3 (rt_events d4) net1)"
    using configure_keeps(1) [of new3 "rt_events d4" net1] by (simp add: connection_part_def)
  moreover have "dm_net (daemon_reload env d) = Some (configure_net new3 (rt_events d4) net1)"
    by (simp add: e d4 n1)
  moreover have "dm_hal (daemon_reload env d) = dm_hal d"
    using reload_service [of d env] by (simp add: same_service_def)
  ultimately show ?thesis
    using assms(6-9) by (simp add: handle_force_open_request_def net_apply_force_open_def)
qed

theorem port_change_strands_forced_doors_witness:
  "\<exists>net. dm_net (daemon_reload demo_start_env (demo_daemon\<lparr> dm_cfg := config_set_defaults\<lparr> cf_tcp_port := 1 \<rparr> \<rparr>)) = Some net
    \<and> fst (handle_force_open_request demo_env net ((demo_hdr IDTI_CMD_SND_STATUS IDTI_SUBCMD_CHANGE IDTI_OBJ_FORCE_OPEN)\<lparr> data_len := 1 \<rparr>)
         (zeros 46 @ [0]))"
proof -
  let ?d = "demo_daemon\<lparr> dm_cfg := config_set_defaults\<lparr> cf_tcp_port := 1 \<rparr> \<rparr>"
  let ?hdr = "(demo_hdr IDTI_CMD_SND_STATUS IDTI_SUBCMD_CHANGE IDTI_OBJ_FORCE_OPEN)\<lparr> data_len := 1 \<rparr>"
  obtain new where new: "config_load (sv_parse demo_start_env) (sv_file demo_start_env) (dm_cfg ?d) = Some new"
    "cf_tcp_port new = 9870"
    by (simp add: demo_start_env_def config_load_def required_fields_def demo_json_def is_valid_admin_password_def
      isdigit_def Let_def optional_fields_select)
  have "frame_data ?hdr (zeros 46 @ [0]) = [0]" by (simp add: frame_data_def slice_def demo_hdr_def zeros_def)
  then show ?thesis
    using port_change_strands_forced_doors [OF new(1), of ?hdr "zeros 46 @ [0]" demo_env] new(2)
    by (auto simp: demo_start_env_def demo_hdr_def)
qed

section \<open>A daemon that has started\<close>

lemma loop_add_new:
  "fd \<notin> le_fd ` set l \<Longrightarrow> length l < 32 \<Longrightarrow> 0 \<le> fd \<Longrightarrow> fd < 1024 \<Longrightarrow>
   loop_add l fd ev (Some cb) = Some (l @ [\<lparr> le_fd = fd, le_events = ev, le_cb = cb \<rparr>])"
  by (simp add: loop_add_def find_entry_None [symmetric])

text \<open>The parts a started daemon is made of, before the descriptors are registered.\<close>

lemma daemon_start_parts:
  assumes "daemon_start env h = Some d"
  obtains u db ev ub d0 where
    "dm_net d0 = map_option (\<lambda>n. snd (net_attach_loop (equip_net (start_config env) ev ub u db n) loop_create))
       (start_net env (cf_tcp_port (start_config env)) u (sv_clock env))"
    "dm_loop d0 = loop_create"
    "dm_hal d0 = hal_init (sv_fifo_env env) (sv_mkfifo_ok env) (sv_fifo_fd env) (sv_auto_fd env) h"
    "dm_disc d0 = discover_init (sv_disc env) (sv_disc_fd env) (sv_disc_bind_ok env) (sv_disc_request env) (start_config env)"
    "\<not> dm_alarm_active d0" "\<not> dm_fire_active d0" "dm_cfg d0 = start_config env" "dm_db d0 = db"
    "d = start_timer env (register_input_fds
       (if dm_disc d0 = None then d0 else on_loop (watch 0 (discover_fd (dm_disc d0))) d0))"
proof -
  define cfg where "cfg = start_config env"
  obtain db where db: "open_settings env (cf_db_path cfg) = Some db"
    using assms by (auto simp: daemon_start_def cfg_def Let_def split: option.splits)
  obtain u0 where u0: "users_open (sv_us_ok env) (resolve_users_path 300 cfg) (sv_users_file env (resolve_users_path 300 cfg)) = Some u0"
    using assms db by (auto simp: daemon_start_def cfg_def Let_def split: option.splits)
  have "sv_loop_ok env" using assms db u0 by (simp add: daemon_start_def cfg_def Let_def split: if_splits)
  then show thesis
    using assms db u0
    by (intro that [of "\<lparr> dm_net = _, dm_users = _, dm_db = _, dm_events = _, dm_userbin = _, dm_loop = _, dm_disc = _,
        dm_cfg = _, dm_pid_path = _, dm_hal = _, dm_alarm_active = False, dm_fire_active = False, dm_timer_fd = _,
        dm_closed = _ \<rparr>"])
      (auto simp: daemon_start_def cfg_def [symmetric] option.map_comp comp_def Let_def)
qed

lemma rt_loop_on_loop [simp]:
  "rt_loop (on_loop f d) = f (rt_loop d)" "dm_hal (on_loop f d) = dm_hal d" "dm_cfg (on_loop f d) = dm_cfg d"
  "rt_db (on_loop f d) = rt_db d" "dm_alarm_active (on_loop f d) = dm_alarm_active d"
  "dm_fire_active (on_loop f d) = dm_fire_active d" "(dm_net (on_loop f d) = None) = (dm_net d = None)"
  by (simp_all add: on_loop_def rt_loop_def rt_db_def split: option.split)

lemma rt_timer [simp]: "rt_loop (d\<lparr> dm_timer_fd := fd \<rparr>) = rt_loop d"
  by (simp add: rt_loop_def split: option.split)

text \<open>
  Once started, the daemon waits for everything it serves: with the port, the discovery
  socket, the pipe, the card timer and the housekeeping timer open, exactly these five
  descriptors are registered, each for reading and with its own callback.
\<close>

theorem started_daemon_watches_all:
  assumes "daemon_start env hal_static = Some d"
    and "sv_bind_ok env (cf_tcp_port (start_config env))" "sv_listen_ok env" "sv_disc_bind_ok env" "sv_mkfifo_ok env"
      "sv_timer_ok env"
    and "distinct [sv_sock_fd env, sv_disc_fd env, sv_fifo_fd env, sv_auto_fd env, sv_timer_fd env]"
    and "\<forall>fd \<in> {sv_sock_fd env, sv_disc_fd env, sv_fifo_fd env, sv_auto_fd env, sv_timer_fd env}. 0 \<le> fd \<and> fd < FD_SETSIZE"
  shows "map (\<lambda>e. (le_fd e, le_events e, le_cb e)) (rt_loop d) =
    [(sv_sock_fd env, ACU_LOOP_READ, Cb_listen_ready), (sv_disc_fd env, ACU_LOOP_READ, Cb_elsewhere 0),
     (sv_fifo_fd env, ACU_LOOP_READ, Cb_elsewhere 1), (sv_auto_fd env, ACU_LOOP_READ, Cb_elsewhere 1),
     (sv_timer_fd env, ACU_LOOP_READ, Cb_elsewhere 2)]"
proof -
  define s dd f a t where fd: "s = sv_sock_fd env" "dd = sv_disc_fd env" "f = sv_fifo_fd env" "a = sv_auto_fd env"
    "t = sv_timer_fd env"
  have n: "distinct [s, dd, f, a, t]" "0 \<le> s" "s < 1024" "0 \<le> dd" "dd < 1024" "0 \<le> f" "f < 1024" "0 \<le> a" "a < 1024"
    "0 \<le> t" "t < 1024"
    using assms(7,8) by (simp_all add: fd)
  then have ne: "dd \<noteq> s" "f \<noteq> s" "f \<noteq> dd" "a \<noteq> s" "a \<noteq> dd" "a \<noteq> f" "t \<noteq> s" "t \<noteq> dd" "t \<noteq> f" "t \<noteq> a" by auto
  from assms(1) show ?thesis
  proof (rule daemon_start_parts)
    fix u db ev ub d0
    assume net: "dm_net d0 = map_option (\<lambda>n. snd (net_attach_loop (equip_net (start_config env) ev ub u db n) loop_create))
        (start_net env (cf_tcp_port (start_config env)) u (sv_clock env))"
      and hal: "dm_hal d0 = hal_init (sv_fifo_env env) (sv_mkfifo_ok env) (sv_fifo_fd env) (sv_auto_fd env) hal_static"
      and disc: "dm_disc d0 = discover_init (sv_disc env) (sv_disc_fd env) (sv_disc_bind_ok env) (sv_disc_request env) (start_config env)"
      and d: "d = start_timer env (register_input_fds
        (if dm_disc d0 = None then d0 else on_loop (watch 0 (discover_fd (dm_disc d0))) d0))"
    obtain net0 where n0: "start_net env (cf_tcp_port (start_config env)) u (sv_clock env) = Some net0" "nt_listen_fd net0 = s"
      using assms(2,3) n by (simp add: start_net_def net_init_def fd)
    have l0: "rt_loop d0 = [\<lparr> le_fd = s, le_events = 1, le_cb = Cb_listen_ready \<rparr>]"
      using n by (simp add: rt_loop_def net n0 net_attach_loop_def loop_create_def loop_add_new)
    have fds: "hal_input_fds (dm_hal d0) = [f, a]"
      using assms(5) n by (auto simp: hal hal_init_def hal_input_fds_def hal_static_def fd Let_def split: option.split)
    obtain dc where dc: "dm_disc d0 = Some dc" "dc_fd dc = dd"
      using assms(4) n by (auto simp: disc discover_init_def fd Let_def)
    show ?thesis
      using n(2-) ne assms(6) by (simp add: dc discover_fd_def d register_input_fds_def fds start_timer_def l0 watch_def loop_add_new flip: fd)
  qed
qed

definition demo_started :: daemon where
  "demo_started = the (daemon_start demo_start_env hal_static)"

lemma resolve_users_nonempty: "resolve_users_path 300 cfg \<noteq> []"
proof -
  have "buffered 300 s \<noteq> []" if "s \<noteq> []" for s using that by (simp add: buffered_def)
  then show ?thesis by (simp add: resolve_users_path_def path_next_to_db_def)
qed

lemma demo_starts: "daemon_start demo_start_env hal_static = Some demo_started"
proof -
  have "users_open us_all_ok (resolve_users_path 300 (start_config demo_start_env))
      (Some \<lparr> ut_users = [], ut_cards = [], ut_users_load = None, ut_cards_load = None \<rparr>) \<noteq> None"
    using resolve_users_nonempty by (simp add: users_open_def main_stmts_def Let_def)
  then have "daemon_start demo_start_env hal_static \<noteq> None"
    by (auto simp: daemon_start_def open_settings_def db_open_def db_all_ok_def demo_start_env_def Let_def)
  then show ?thesis by (simp add: demo_started_def)
qed

theorem started_daemon_watches_all_witness:
  "map (\<lambda>e. (le_fd e, le_events e, le_cb e)) (rt_loop demo_started) =
     [(4, 1, Cb_listen_ready), (8, 1, Cb_elsewhere 0), (6, 1, Cb_elsewhere 1), (7, 1, Cb_elsewhere 1), (9, 1, Cb_elsewhere 2)]"
  using started_daemon_watches_all [OF demo_starts] by (simp add: demo_start_env_def)



end
