(* ===== verification/Daemon_Run.thy ===== *)
theory Daemon_Run
  imports Daemon_Life
begin

text \<open>
  The running daemon: its reactions as the steps of a transition relation, from a start to any
  state the events can lead to, and what holds in all of them. The hardware layer keeps its
  bounds, the doors are forced open exactly when the server believes so, and the alarm outputs
  follow the settings.
\<close>

section \<open>What a request tells the daemon\<close>

text \<open>The fields of the server that the relays depend on.\<close>

definition door_part :: "acu_net \<Rightarrow> settings_db option \<times> bool \<times> net_call list \<times> bool \<times> bool" where
  "door_part net = (nt_settings_db net, nt_force_open net, kn_calls net, nt_on_setting_changed net, nt_on_force_open net)"

lemma door_part_upd [simp]:
  "door_part (net\<lparr> nt_events := e \<rparr>) = door_part net" "door_part (net\<lparr> nt_last_batch_first_seq := n \<rparr>) = door_part net"
  "door_part (net\<lparr> nt_userbin := ub \<rparr>) = door_part net" "door_part (net\<lparr> nt_users := u \<rparr>) = door_part net"
  "door_part (net\<lparr> kn_clock := c \<rparr>) = door_part net" "door_part (net\<lparr> nt_loop := l \<rparr>) = door_part net"
  "door_part (net\<lparr> nt_recv_buf := b, nt_recv_len := m \<rparr>) = door_part net" "door_part (net\<lparr> kn_sends := s \<rparr>) = door_part net"
  "door_part (net\<lparr> nt_door_status := i \<rparr>) = door_part net"
  by (simp_all add: door_part_def)

lemma door_part_send [simp]: "door_part (snd (send_response env net hdr c sc ob data n1 n2 n3 n4)) = door_part net"
proof -
  have "door_part (snd (net_queue_send env net p)) = door_part net" for p
    using not_sent_part_queue [of env net p] by (simp add: not_sent_part_def door_part_def)
  then show ?thesis by (simp add: send_response_def Let_def split: option.split)
qed

lemma door_part_sent: "send_response env net hdr c sc ob data n1 n2 n3 n4 = (b, net') \<Longrightarrow> door_part net' = door_part net"
  using door_part_send [of env net hdr c sc ob data n1 n2 n3 n4] by simp

lemma door_part_acks [simp]:
  "door_part (send_ack env net hdr a) = door_part net" "door_part (send_result_ack env net hdr a) = door_part net"
  "door_part (send_fail_ack env net hdr) = door_part net" "door_part (send_setting_response env net hdr data) = door_part net"
  by (simp_all add: send_ack_def send_result_ack_def send_fail_ack_def send_setting_response_def)

lemma door_part_events [simp]:
  "door_part (net_store_event env net code m i s a r) = door_part net"
  "door_part (net_push_system_event env net code a r) = door_part net"
  "door_part (net_push_event env net res i s a r) = door_part net"
  by (simp_all add: net_store_event_def net_push_system_event_def net_push_event_def split: option.split)

text \<open>Requests that leave these fields alone.\<close>

lemma door_part_history: "door_part (handle_history_request env net hdr) = door_part net"
proof -
  obtain batch pending net2 where b: "history_batch env (history_rewind env net hdr) (history_max net hdr) = (batch, pending, net2)"
    by (rule prod_cases3)
  have "door_part (history_rewind env net hdr) = door_part net" by (simp add: history_rewind_def split: option.split)
  with b have "door_part net2 = door_part net"
    by (auto simp: history_batch_def Let_def split: option.splits prod.splits)
  then show ?thesis
    by (auto simp: handle_history_request_def Let_def b split: prod.splits dest: door_part_sent)
qed

lemma door_part_firmware: "door_part (handle_firmware_request env net hdr) = door_part net"
  by (simp add: handle_firmware_request_def)

lemma door_part_lcd: "door_part (snd (handle_lcd_request env net hdr)) = door_part net"
  by (simp add: handle_lcd_request_def Let_def)

lemma door_part_userbin_send: "door_part (handle_userbin_send env net hdr pkt b) = door_part net"
  by (simp add: handle_userbin_send_def Let_def split: option.split prod.split)

lemma door_part_userbin_write: "userbin_write env net data b = Some (ack, net') \<Longrightarrow> door_part net' = door_part net"
  by (auto simp: userbin_write_def Let_def split: option.splits prod.splits if_splits)

lemma door_part_userbin: "handle_userbin_request env net hdr pkt = Some (b, net') \<Longrightarrow> door_part net' = door_part net"
  by (auto simp: handle_userbin_request_def Let_def door_part_userbin_send
      split: option.splits prod.splits if_splits dest: door_part_userbin_write)

lemma door_part_usercmd: "door_part (snd (handle_usercmd_request env net hdr pkt)) = door_part net"
  by (simp add: handle_usercmd_request_def Let_def split: prod.split usercmd_status.split)

lemma door_part_setting_read: "door_part (snd (handle_setting_read env net hdr)) = door_part net"
  by (simp add: handle_setting_read_def split: option.split)

lemma door_part_event_store: "door_part (snd (handle_event_store_request env net hdr pkt)) = door_part net"
proof -
  obtain ack net1 where i: "event_index_change env net hdr (frame_data hdr pkt) = (ack, net1)" by fastforce
  then have "door_part net1 = door_part net"
    by (auto simp: event_index_change_def Let_def split: option.splits if_splits prod.splits)
  then show ?thesis by (simp add: handle_event_store_request_def i Let_def split: option.split prod.split)
qed

lemma door_part_time_sync: "door_part (apply_time_sync env net data) = door_part net"
  by (simp add: apply_time_sync_def Let_def split: option.split)

text \<open>What is reported to the daemon accounts for what has changed.\<close>

definition output_setting :: "acu_net \<Rightarrow> int \<Rightarrow> int \<Rightarrow> int \<times> byte list" where
  "output_setting net m s = devset_get db_all_ok (nt_settings_db net) IDTI_OBJ_OUTPUT m s IDTI_OUTPUT_SETTING_LEN"

fun forced_by :: "net_call \<Rightarrow> bool \<Rightarrow> bool" where
  "forced_by (Call_force_open on) b = on"
| "forced_by (Call_setting_changed obj) b = b"

definition told :: "acu_net \<Rightarrow> acu_net \<Rightarrow> bool" where
  "told net net' \<longleftrightarrow> nt_on_force_open net' = nt_on_force_open net \<and> nt_on_setting_changed net' = nt_on_setting_changed net
     \<and> (nt_settings_db net \<noteq> None \<longrightarrow> nt_settings_db net' \<noteq> None)
     \<and> (\<exists>cs. kn_calls net' = kn_calls net @ cs
          \<and> (nt_on_force_open net \<longrightarrow> nt_force_open net' = fold forced_by cs (nt_force_open net))
          \<and> (nt_on_setting_changed net \<longrightarrow>
               Call_setting_changed IDTI_OBJ_OUTPUT \<in> set cs \<or> output_setting net' = output_setting net))"

lemma told_same: "door_part net' = door_part net \<Longrightarrow> told net net'"
  by (auto simp: told_def door_part_def output_setting_def fun_eq_iff intro: exI [of _ "[]"])

lemma told_trans: "told net net1 \<Longrightarrow> told net1 net2 \<Longrightarrow> told net net2"
  unfolding told_def by (elim conjE exE, intro conjI exI) (auto simp: fun_eq_iff)

lemma told_then: "told net net1 \<Longrightarrow> door_part net2 = door_part net1 \<Longrightarrow> told net net2"
  using told_trans told_same by blast

lemma told_force_open: "told net (net_apply_force_open env net on)"
proof -
  define net2 where "net2 = (let net1 = net\<lparr> nt_force_open := on \<rparr>
    in if nt_on_force_open net1 then net1\<lparr> kn_calls := kn_calls net1 @ [Call_force_open on] \<rparr> else net1)"
  have "told net net2"
    by (auto simp: told_def net2_def output_setting_def fun_eq_iff Let_def intro: exI [of _ "[Call_force_open on]"] exI [of _ "[]"])
  then show ?thesis
    using told_then [of net net2] told_same [of net net]
    by (simp add: net_apply_force_open_def net2_def Let_def)
qed

lemma told_force_open_request: "told net (snd (handle_force_open_request env net hdr pkt))"
  using told_then [OF told_force_open door_part_acks(1)]
  by (simp add: handle_force_open_request_def told_same Let_def)

lemma find_kept: "(\<And>x. Q x \<Longrightarrow> P x) \<Longrightarrow> find Q (filter P xs) = find Q xs"
  by (induction xs) auto

lemma put_keeps_other:
  assumes "devset_put ok db obj m s data = (True, db')" "obj2 \<noteq> obj"
  shows "devset_get ok2 db' obj2 m2 s2 n = devset_get ok2 db obj2 m2 s2 n"
proof -
  obtain d where d: "db = Some d" "db' = Some (d\<lparr> st_settings := filter (\<lambda>s1. setting_key s1 \<noteq> (obj, m, s)) (st_settings d)
      @ [\<lparr> sr_object = obj, sr_module = m, sr_slot = s, sr_data = data \<rparr>] \<rparr>)"
    using assms(1) by (auto simp: devset_put_def split: option.splits if_splits)
  have app: "find Q (xs @ [y]) = find Q xs" if "\<not> Q y" for Q xs and y :: setting_row
    using that by (induction xs) auto
  have "find (\<lambda>s1. setting_key s1 = (obj2, m2, s2)) (st_settings (the db')) = find (\<lambda>s1. setting_key s1 = (obj2, m2, s2)) (st_settings d)"
    unfolding d(2) using assms(2) by (simp add: app setting_key_def) (auto intro!: find_kept)
  then show ?thesis by (simp add: devset_get_def d)
qed

lemma told_setting_write: "told net (snd (handle_setting_write env net hdr pkt))"
proof (cases "command hdr \<noteq> IDTI_CMD_SND_DATA \<or> sub_command hdr \<noteq> IDTI_SUBCMD_CHANGE")
  case True
  then show ?thesis using told_same [of net net] by (auto simp: handle_setting_write_def)
next
  case ok: False
  show ?thesis
  proof (cases "find_setting_spec (object hdr)")
    case None
    then show ?thesis using told_same [of net net] by (simp add: handle_setting_write_def)
  next
    case (Some sp)
    then have sp: "sp_object sp = object hdr" by (auto simp: find_setting_spec_def find_Some_iff)
    show ?thesis
    proof (cases "setting_store env net hdr (frame_data hdr pkt) sp")
      case None
      then show ?thesis using ok Some by (simp add: handle_setting_write_def told_same)
    next
      case (Some stored)
      then obtain m s db' where st: "stored = ((m, s), db')"
        "devset_put (ne_db_ok env) (nt_settings_db net) (sp_object sp) m s (take (sp_len sp) (frame_data hdr pkt)) = (True, db')"
        by (auto simp: setting_store_def Let_def split: if_splits option.splits prod.splits)
      define net1 where "net1 = net\<lparr> nt_settings_db := db' \<rparr>"
      define net2 where "net2 = (let n = send_result_ack env net1 hdr IDTI_ACK_SUCCESS
        in if sp_set_ok_event sp \<noteq> 0 then net_push_system_event env n (sp_set_ok_event sp) m (display_slot m s) else n)"
      define net3 where "net3 = (if nt_on_setting_changed net2 then net2\<lparr> kn_calls := kn_calls net2 @ [Call_setting_changed (object hdr)] \<rparr> else net2)"
      have e: "handle_setting_write env net hdr pkt = (True, net3)"
        using ok \<open>find_setting_spec (object hdr) = Some sp\<close> Some
        by (simp add: handle_setting_write_def st(1) net1_def net2_def net3_def Let_def)
      have "door_part net2 = door_part net1" by (simp add: net2_def Let_def)
      then have n2: "nt_settings_db net2 = db'" "nt_force_open net2 = nt_force_open net" "kn_calls net2 = kn_calls net"
        "nt_on_setting_changed net2 = nt_on_setting_changed net" "nt_on_force_open net2 = nt_on_force_open net"
        by (simp_all add: door_part_def net1_def)
      have "db' \<noteq> None" using st(2) by (auto simp: devset_put_def split: option.splits if_splits)
      moreover have "output_setting net2 = output_setting net" if "object hdr \<noteq> IDTI_OBJ_OUTPUT"
        using put_keeps_other [OF st(2)] that by (simp add: output_setting_def fun_eq_iff n2 sp)
      ultimately show ?thesis
        unfolding e told_def snd_conv net3_def
        by (cases "nt_on_setting_changed net")
          (auto simp: n2 output_setting_def fun_eq_iff intro!: exI [of _ "[Call_setting_changed (object hdr)]"] exI [of _ "[]"])
    qed
  qed
qed

lemma told_request:
  assumes "handle_request env net hdr pkt = Some net'"
  shows "told net net'"
proof -
  define net0 where "net0 = (if frame_option hdr AND IDTI_FOPT_TIME_SYNC \<noteq> 0
    then apply_time_sync env net (frame_data hdr pkt) else net)"
  have t0: "told net net0" by (simp add: net0_def told_same door_part_time_sync)
  have hist: "told net (handle_history_request env net0 hdr)" "told net (handle_firmware_request env net0 hdr)"
    using t0 told_then door_part_history door_part_firmware by blast+
  show ?thesis
  proof (cases "handle_userbin_request env net0 hdr pkt")
    case None
    then show ?thesis using assms hist by (auto simp: handle_request_def net0_def [symmetric] Let_def split: if_splits)
  next
    case (Some r)
    then obtain b1 net1 where h1: "handle_userbin_request env net0 hdr pkt = Some (b1, net1)" by (cases r) auto
    obtain b2 net2 where h2: "handle_usercmd_request env net1 hdr pkt = (b2, net2)" by fastforce
    obtain b3 net3 where h3: "handle_force_open_request env net2 hdr pkt = (b3, net3)" by fastforce
    obtain b4 net4 where h4: "handle_setting_read env net3 hdr = (b4, net4)" by fastforce
    obtain b5 net5 where h5: "handle_setting_write env net4 hdr pkt = (b5, net5)" by fastforce
    obtain b6 net6 where h6: "handle_event_store_request env net5 hdr pkt = (b6, net6)" by fastforce
    obtain b7 net7 where h7: "handle_lcd_request env net6 hdr = (b7, net7)" by fastforce
    have t1: "told net net1" using told_then [OF t0 door_part_userbin [OF h1]] .
    have t2: "told net net2" using told_then [OF t1] door_part_usercmd [of env net1 hdr pkt] h2 by simp
    have t3: "told net net3" using told_trans [OF t2] told_force_open_request [of net2 env hdr pkt] h3 by simp
    have t4: "told net net4" using told_then [OF t3] door_part_setting_read [of env net3 hdr] h4 by simp
    have t5: "told net net5" using told_trans [OF t4] told_setting_write [of net4 env hdr pkt] h5 by simp
    have t6: "told net net6" using told_then [OF t5] door_part_event_store [of env net5 hdr pkt] h6 by simp
    have t7: "told net net7" using told_then [OF t6] door_part_lcd [of env net6 hdr] h7 by simp
    have t8: "told net (send_ack env net7 hdr IDTI_ACK_FAIL)" using told_then [OF t7] by simp
    show ?thesis
      using assms hist t1 t2 t3 t4 t5 t6 t7 t8 h1 h2 h3 h4 h5 h6 h7
      by (auto simp: handle_request_def net0_def [symmetric] Let_def split: if_splits bool.splits)
  qed
qed

section \<open>Steps and reachable states\<close>

text \<open>
  One callback, or one frame of the receive loop, at a time; \<open>received\<close> and \<open>kernel\<close> let the buffer
  and the coming \<open>send\<close> results be anything. The reads of the settings database succeed. A reload
  is a step when it keeps the port, the settings database and the number of modules.
\<close>

inductive callback_step :: "daemon \<Rightarrow> daemon \<Rightarrow> bool" where
  input: "ne_db_ok (dv_net env) = db_all_ok \<Longrightarrow> callback_step d (on_card_readable env inp expirations fd d)"
| request: "ne_db_ok (dv_net env) = db_all_ok \<Longrightarrow> daemon_request env hdr pkt d = Some d' \<Longrightarrow> callback_step d d'"
| accept: "callback_step d (on_net (net_on_listen_ready nenv fd) d)"
| received: "callback_step d (on_net (\<lambda>net. net\<lparr> nt_recv_buf := b, nt_recv_len := n \<rparr>) d)"
| closed: "callback_step d (on_net (net_drop_client nenv) d)"
| writable: "callback_step d (on_net (net_flush_send nenv) d)"
| kernel: "callback_step d (on_net (\<lambda>net. net\<lparr> kn_sends := outs \<rparr>) d)"
| housekeeping: "callback_step d (on_housekeeping env read_ok d)"
| discovery: "callback_step d (on_discover_readable denv rcv d)"

inductive daemon_step :: "daemon \<Rightarrow> daemon \<Rightarrow> bool" where
  callback: "callback_step d d' \<Longrightarrow> daemon_step d d'"
| reload: "config_load (sv_parse senv) (sv_file senv) (dm_cfg d) = Some new \<Longrightarrow>
    cf_tcp_port new = cf_tcp_port (dm_cfg d) \<Longrightarrow> cf_db_path new = cf_db_path (dm_cfg d) \<Longrightarrow>
    cf_module_count new = cf_module_count (dm_cfg d) \<Longrightarrow> daemon_step d (daemon_reload senv d)"

inductive daemon_reachable :: "daemon \<Rightarrow> bool" where
  start: "daemon_start senv hal_static = Some d \<Longrightarrow> daemon_reachable d"
| step: "daemon_reachable d \<Longrightarrow> daemon_step d d' \<Longrightarrow> daemon_reachable d'"

section \<open>The invariant\<close>

text \<open>What the relays were last told about the forced opening.\<close>

definition forced_on :: "hal_call list \<Rightarrow> bool" where
  "forced_on cs = foldl (\<lambda>b c. case c of Set_force_open on \<Rightarrow> on | _ \<Rightarrow> b) False cs"

definition net_attached :: "acu_net \<Rightarrow> bool" where
  "net_attached net \<longleftrightarrow> nt_settings_db net \<noteq> None \<and> nt_on_setting_changed net \<and> nt_on_force_open net \<and> kn_calls net = []"

text \<open>Alarm rules with a readable database, the outputs where they belong.\<close>

definition outputs_follow :: "daemon \<Rightarrow> bool" where
  "outputs_follow d \<longleftrightarrow> relays_follow demo_judge_env d"

definition doors_follow :: "daemon \<Rightarrow> bool" where
  "doors_follow d \<longleftrightarrow> forced_on (hl_calls (dm_hal d)) = (case dm_net d of None \<Rightarrow> False | Some net \<Rightarrow> nt_force_open net)"

definition daemon_inv :: "daemon \<Rightarrow> bool" where
  "daemon_inv d \<longleftrightarrow> hal_inv (dm_hal d) \<and> (\<forall>net. dm_net d = Some net \<longrightarrow> net_attached net)
     \<and> outputs_follow d \<and> doors_follow d"

lemma outputs_follow_env:
  assumes "ne_db_ok (dv_net env) = db_all_ok"
  shows "relays_follow env d = outputs_follow d"
proof -
  have "alarm_rule env d = alarm_rule demo_judge_env d"
    by (simp add: alarm_rule_def fun_eq_iff assms demo_judge_env_def demo_env_def)
  then show ?thesis by (simp add: outputs_follow_def relays_follow_def)
qed

lemma forced_snoc: "forced_on (cs @ [c]) = (case c of Set_force_open on \<Rightarrow> on | _ \<Rightarrow> forced_on cs)"
  by (simp add: forced_on_def split: hal_call.split)

lemma forced_doors: "forced_on cs = forced_on (filter moves_door cs)"
proof (induction cs rule: rev_induct)
  case (snoc c cs)
  then show ?case by (cases c) (simp_all add: forced_snoc)
qed simp

lemma forced_no_change:
  assumes "\<forall>on. Set_force_open on \<notin> set ds"
  shows "forced_on (cs @ ds) = forced_on cs"
  using assms
proof (induction ds rule: rev_induct)
  case (snoc c ds)
  then have "forced_on ((cs @ ds) @ [c]) = forced_on (cs @ ds)"
    unfolding forced_snoc by (cases c) auto
  with snoc show ?case by simp
qed simp

text \<open>A change of the server that leaves the fields of the doors alone.\<close>

lemma inv_on_net:
  assumes "daemon_inv d" "\<And>net. dm_net d = Some net \<Longrightarrow> door_part (f net) = door_part net"
  shows "daemon_inv (on_net f d)"
proof -
  have db: "rt_db (on_net f d) = rt_db d"
    using assms(2) by (cases "dm_net d") (simp_all add: rt_db_def on_net_def door_part_def split: option.split)
  have "outputs_follow (on_net f d)"
    using assms(1) relays_follow_cong [of "on_net f d" d "[]" demo_judge_env] db
    by (simp add: daemon_inv_def outputs_follow_def)
  then show ?thesis
    using assms
    by (cases "dm_net d") (simp_all add: daemon_inv_def doors_follow_def on_net_def net_attached_def door_part_def)
qed

lemma inv_fields:
  assumes "daemon_inv d" "dm_net d' = dm_net d" "dm_db d' = dm_db d" "dm_hal d' = dm_hal d" "dm_cfg d' = dm_cfg d"
    "dm_alarm_active d' = dm_alarm_active d" "dm_fire_active d' = dm_fire_active d"
  shows "daemon_inv d'"
proof -
  have "rt_db d' = rt_db d" using assms by (simp add: rt_db_def split: option.split)
  then have "outputs_follow d'"
    using assms relays_follow_cong [of d' d "[]" demo_judge_env] by (simp add: daemon_inv_def outputs_follow_def)
  then show ?thesis using assms by (simp add: daemon_inv_def doors_follow_def)
qed

text \<open>The input callback.\<close>

lemma door_part_card: "door_part (card_report env d ds hex net) = door_part net"
  by (simp add: card_report_def split: prod.split access_result.split option.split)

lemma door_part_cards: "door_part (fold (card_report env d ds) cards net) = door_part net"
  by (induction cards arbitrary: net) (simp_all add: door_part_card)

lemma door_part_downs: "door_part (down_reports env rs net) = door_part net"
proof (induction rs arbitrary: net)
  case (Cons r rs)
  then show ?case by (simp add: down_reports_def)
qed (simp add: down_reports_def)

lemma door_part_sensors: "door_part (sensor_reports env a b c e net) = door_part net"
  by (simp add: sensor_reports_def Let_def)

lemma inv_input:
  assumes inv: "daemon_inv d" and ok: "ne_db_ok (dv_net env) = db_all_ok"
  shows "daemon_inv (on_card_readable env inp expirations fd d)"
proof -
  define h1 where "h1 = hal_service_fd inp expirations fd (dm_hal d)"
  define d4 where "d4 = before_cards env inp expirations fd d"
  define d' where "d' = judge_cards env (read_door_status h1) d4"
  have d': "on_card_readable env inp expirations fd d = d'"
    by (simp add: d'_def d4_def h1_def on_card_readable_split)
  have hal: "hal_inv (dm_hal d)" using inv by (simp add: daemon_inv_def)
  note b = before_cards_effect [OF hal, where env = env and input = inp and expirations = expirations and fd = fd,
      folded d4_def h1_def]
  have j: "same_settings d4 d'" "hal_inv (dm_hal d')"
    "hl_calls (dm_hal d') = hl_calls (dm_hal d4) @ concat (map (card_doors env d4) (card_items (dm_hal d4)))"
    "dm_net d' = map_option (fold (card_report env d4 (read_door_status h1)) (card_items (dm_hal d4))) (dm_net d4)"
    using judge_cards_effect [OF b(6), of env "read_door_status h1"] by (simp_all add: d'_def Let_def)
  have cs: "\<forall>m s on. Set_output m s on \<notin> set (concat (map (card_doors env d4) (card_items (dm_hal d4))))"
    "\<forall>on. Set_force_open on \<notin> set (concat (map (card_doors env d4) (card_items (dm_hal d4))))"
    by (auto simp: card_doors_def)
  have "relays_follow env d4" using b(10) inv outputs_follow_env [OF ok] by (simp add: daemon_inv_def)
  then have "relays_follow env d'"
    using relays_follow_cong [OF _ _ _ _ j(3) cs(1)] j(1) by (simp add: same_settings_def)
  then have out: "outputs_follow d'" using outputs_follow_env [OF ok] by simp
  have "map_option door_part (dm_net d') = map_option door_part (dm_net d)"
    by (simp add: j(4) b(12) option.map_comp comp_def door_part_cards door_part_downs door_part_sensors net_set_door_status_def)
  then have net: "dm_net d = None \<and> dm_net d' = None
      \<or> (\<exists>n n'. dm_net d = Some n \<and> dm_net d' = Some n' \<and> door_part n' = door_part n)"
    by (cases "dm_net d"; cases "dm_net d'"; simp)
  have "forced_on (hl_calls (dm_hal d')) = forced_on (hl_calls (dm_hal d4))"
    using j(3) forced_no_change [OF cs(2)] by simp
  also have "\<dots> = forced_on (hl_calls (dm_hal d))"
    using b(9) forced_doors by (metis door_calls_def)
  finally have "forced_on (hl_calls (dm_hal d')) = forced_on (hl_calls (dm_hal d))" .
  then have "doors_follow d'" "\<forall>net. dm_net d' = Some net \<longrightarrow> net_attached net"
    using inv net by (auto simp: daemon_inv_def doors_follow_def door_part_def net_attached_def)
  with out j(2) show ?thesis by (simp add: d' daemon_inv_def)
qed

text \<open>The calls a request makes, run one after the other.\<close>

lemma run_call_frame [simp]:
  "dm_net (run_net_call env c d) = dm_net d" "rt_db (run_net_call env c d) = rt_db d"
  "dm_cfg (run_net_call env c d) = dm_cfg d" "hal_inv (dm_hal (run_net_call env c d)) = hal_inv (dm_hal d)"
  by (cases c; simp add: on_force_open_changed_def on_setting_changed_def hal_set_force_open_def)+

lemma run_call_forced:
  "forced_on (hl_calls (dm_hal (run_net_call env c d))) = forced_by c (forced_on (hl_calls (dm_hal d)))"
proof (cases c)
  case (Call_force_open on)
  then show ?thesis by (simp add: on_force_open_changed_def hal_set_force_open_def forced_snoc)
next
  case (Call_setting_changed obj)
  have "\<forall>on. Set_force_open on \<notin> set (alarm_calls env d (output_slots (dm_cfg d)))"
    using alarm_calls_outputs by fastforce
  then show ?thesis
    using Call_setting_changed
    by (simp add: on_setting_changed_def apply_alarm_outputs_def apply_outputs_say forced_no_change)
qed

lemma run_call_follows: "relays_follow env d \<Longrightarrow> relays_follow env (run_net_call env c d)"
proof (cases c)
  case (Call_force_open on)
  then show "relays_follow env d \<Longrightarrow> ?thesis"
    using relays_follow_cong [of "run_net_call env c d" d "[Set_force_open on]"]
    by (simp add: on_force_open_changed_def hal_set_force_open_def)
next
  case (Call_setting_changed obj)
  then show "relays_follow env d \<Longrightarrow> ?thesis" by (simp add: on_setting_changed_def apply_follows)
qed

lemma run_calls:
  "dm_net (fold (run_net_call env) cs d) = dm_net d" "hal_inv (dm_hal (fold (run_net_call env) cs d)) = hal_inv (dm_hal d)"
  "forced_on (hl_calls (dm_hal (fold (run_net_call env) cs d))) = fold forced_by cs (forced_on (hl_calls (dm_hal d)))"
  "relays_follow env d \<Longrightarrow> relays_follow env (fold (run_net_call env) cs d)"
  by (induction cs arbitrary: d) (simp_all add: run_call_forced run_call_follows)

lemma run_calls_apply:
  "Call_setting_changed IDTI_OBJ_OUTPUT \<in> set cs \<Longrightarrow> relays_follow env (fold (run_net_call env) cs d)"
proof (induction cs arbitrary: d)
  case (Cons c cs)
  then show ?case
    using run_calls(4) [of env "run_net_call env c d" cs] apply_follows [of env d]
    by (cases "c = Call_setting_changed IDTI_OBJ_OUTPUT") (auto simp: on_setting_changed_def)
qed simp

lemma inv_request:
  assumes inv: "daemon_inv d" and ok: "ne_db_ok (dv_net env) = db_all_ok" and req: "daemon_request env hdr pkt d = Some d'"
  shows "daemon_inv d'"
proof -
  obtain net where net: "dm_net d = Some net" "net_attached net"
    using inv req by (auto simp: daemon_request_def daemon_inv_def split: option.splits)
  then have same: "net\<lparr> kn_calls := [] \<rparr> = net" by (intro acu_net.equality) (simp_all add: net_attached_def)
  have "\<exists>net1. handle_request (dv_net env) net hdr pkt = Some net1
      \<and> d' = fold (run_net_call env) (kn_calls net1) (d\<lparr> dm_net := Some (net1\<lparr> kn_calls := [] \<rparr>) \<rparr>)"
    using req unfolding daemon_request_def net(1) option.case same by (simp split: option.splits)
  then obtain net1 where n: "dm_net d = Some net" "handle_request (dv_net env) net hdr pkt = Some net1" "net_attached net"
    "d' = fold (run_net_call env) (kn_calls net1) (d\<lparr> dm_net := Some (net1\<lparr> kn_calls := [] \<rparr>) \<rparr>)"
    using net by blast
  define d0 where "d0 = d\<lparr> dm_net := Some (net1\<lparr> kn_calls := [] \<rparr>) \<rparr>"
  obtain cs where t: "nt_on_force_open net1" "nt_on_setting_changed net1" "nt_settings_db net1 \<noteq> None" "kn_calls net1 = cs"
    "nt_force_open net1 = fold forced_by cs (nt_force_open net)"
    "Call_setting_changed IDTI_OBJ_OUTPUT \<in> set cs \<or> output_setting net1 = output_setting net"
    using told_request [OF n(2)] n(3) by (auto simp: told_def net_attached_def)
  have d': "d' = fold (run_net_call env) cs d0" by (simp add: n(4) t(4) d0_def)
  have "relays_follow env d0" if "output_setting net1 = output_setting net"
  proof -
    obtain db db1 where dbs: "nt_settings_db net = Some db" "nt_settings_db net1 = Some db1"
      using n(3) t(3) by (auto simp: net_attached_def)
    have same: "devset_get db_all_ok (Some db1) 45 m s 14 = devset_get db_all_ok (Some db) 45 m s 14" for m s
      using fun_cong [OF fun_cong [OF that], of m s] by (simp add: output_setting_def dbs)
    have "rt_db d = db" "rt_db d0 = db1" by (simp_all add: rt_db_def n(1) dbs d0_def)
    then have "alarm_rule env d0 = alarm_rule env d"
      using same by (simp add: alarm_rule_def fun_eq_iff ok d0_def split: prod.split)
    moreover have "relays_follow env d" using inv outputs_follow_env [OF ok] by (simp add: daemon_inv_def)
    ultimately show ?thesis by (simp add: relays_follow_def d0_def)
  qed
  then have "relays_follow env d'" using t(6) run_calls(4) run_calls_apply unfolding d' by blast
  moreover have "forced_on (hl_calls (dm_hal d')) = nt_force_open net1"
    using inv n(1) by (simp add: d' run_calls d0_def t(5) daemon_inv_def doors_follow_def)
  moreover have "dm_net d' = Some (net1\<lparr> kn_calls := [] \<rparr>)" "hal_inv (dm_hal d')"
    using inv by (simp_all add: d' run_calls d0_def daemon_inv_def)
  ultimately show ?thesis
    using t(1-3) by (simp add: daemon_inv_def doors_follow_def net_attached_def outputs_follow_env [OF ok, symmetric])
qed

text \<open>The other steps of the server.\<close>

lemma door_part_drop [simp]: "door_part (net_drop_client env net) = door_part net"
  by (simp add: door_part_def frame_simps)

lemma door_part_flush [simp]: "door_part (net_flush_send env net) = door_part net"
  using not_sent_part_flush [of env net] by (simp add: not_sent_part_def door_part_def)

lemma door_part_listen [simp]: "door_part (net_on_listen_ready env fd net) = door_part net"
proof -
  define net1 where "net1 = (if nt_client_fd net \<ge> 0 then net_drop_client env net else net)"
  have "door_part net1 = door_part net" by (simp add: net1_def)
  then show ?thesis
    by (auto simp: net_on_listen_ready_def net1_def [symmetric] Let_def split: option.split)
      (simp_all add: door_part_def frame_simps)
qed

lemma door_part_inactivity [simp]: "door_part (net_check_inactivity env net) = door_part net"
  by (simp add: net_check_inactivity_def Let_def)

lemma door_part_configure [simp]: "door_part (configure_net cfg ev net) = door_part net"
  using configure_keeps(1) [of cfg ev net] by (simp add: door_part_def connection_part_def)

lemma inv_housekeeping: "daemon_inv d \<Longrightarrow> daemon_inv (on_housekeeping env read_ok d)"
proof -
  assume "daemon_inv d"
  then have "daemon_inv (on_net (net_check_inactivity (dv_net env)) d)" by (rule inv_on_net) simp
  then show ?thesis
    using \<open>daemon_inv d\<close> by (auto simp: on_housekeeping_def Let_def intro: inv_fields)
qed

lemma inv_reload:
  assumes inv: "daemon_inv d" and load: "config_load (sv_parse senv) (sv_file senv) (dm_cfg d) = Some new"
    and keep: "cf_tcp_port new = cf_tcp_port (dm_cfg d)" "cf_db_path new = cf_db_path (dm_cfg d)"
      "cf_module_count new = cf_module_count (dm_cfg d)"
  shows "daemon_inv (daemon_reload senv d)"
proof -
  define new1 where "new1 = (if cf_pid_path new \<noteq> dm_pid_path d then new\<lparr> cf_pid_path := buffered 256 (dm_pid_path d) \<rparr> else new)"
  have n1: "cf_tcp_port new1 = cf_tcp_port (dm_cfg d)" "cf_db_path new1 = cf_db_path (dm_cfg d)"
    "cf_module_count new1 = cf_module_count (dm_cfg d)"
    using keep by (simp_all add: new1_def)
  define d4 where "d4 = d\<lparr> dm_cfg := new1, dm_disc := discover_apply_config (sv_disc senv) (dm_disc d) new1 \<rparr>"
  have e: "daemon_reload senv d = on_net (configure_net new1 (rt_events d4)) d4"
    using n1 by (simp add: daemon_reload_def load new1_def [symmetric] reload_db_def reload_port_def d4_def Let_def)
  have "rt_db d4 = rt_db d" by (simp add: d4_def rt_db_def split: option.split)
  moreover from this have "alarm_rule demo_judge_env d4 = alarm_rule demo_judge_env d"
    by (simp add: alarm_rule_def fun_eq_iff d4_def split: prod.split)
  moreover have "output_slots (dm_cfg d4) = output_slots (dm_cfg d)"
    using n1(3) by (simp add: d4_def output_slots_def)
  moreover have "dm_hal d4 = dm_hal d" "dm_net d4 = dm_net d" by (simp_all add: d4_def)
  ultimately have "daemon_inv d4"
    using inv by (simp add: daemon_inv_def outputs_follow_def relays_follow_def doors_follow_def)
  then show ?thesis unfolding e by (rule inv_on_net) simp
qed

text \<open>The start.\<close>

lemma inv_on_loop: "daemon_inv d \<Longrightarrow> daemon_inv (on_loop f d)"
proof (cases "dm_net d")
  case None
  then show "daemon_inv d \<Longrightarrow> ?thesis" by (auto simp: on_loop_def intro: inv_fields)
next
  case (Some net)
  then have "on_loop f d = on_net (\<lambda>net. net\<lparr> nt_loop := f (nt_loop net) \<rparr>) d" by (simp add: on_loop_def on_net_def)
  then show "daemon_inv d \<Longrightarrow> ?thesis" using inv_on_net [of d] by simp
qed

lemma inv_timer: "daemon_inv d \<Longrightarrow> daemon_inv (d\<lparr> dm_timer_fd := fd \<rparr>)"
  by (erule inv_fields) simp_all

lemma hal_init_inv: "hal_inv (hal_init fifo_env mkfifo_ok fifo_fd auto_fd hal_static)"
  using hal_inv_static
  by (simp add: hal_init_def hal_inv_def cards_ok_def down_ok_def card_items_def down_items_def hal_static_def Let_def
      split: option.split)

lemma inv_start:
  assumes "daemon_start senv hal_static = Some d"
  shows "daemon_inv d"
  using assms
proof (rule daemon_start_parts)
  fix u db ev ub d0
  assume net: "dm_net d0 = map_option (\<lambda>n. snd (net_attach_loop (equip_net (start_config senv) ev ub u db n) loop_create))
      (start_net senv (cf_tcp_port (start_config senv)) u (sv_clock senv))"
    and hal: "dm_hal d0 = hal_init (sv_fifo_env senv) (sv_mkfifo_ok senv) (sv_fifo_fd senv) (sv_auto_fd senv) hal_static"
    and off: "\<not> dm_alarm_active d0" "\<not> dm_fire_active d0"
    and d: "d = start_timer senv (register_input_fds
      (if dm_disc d0 = None then d0 else on_loop (watch 0 (discover_fd (dm_disc d0))) d0))"
  have calls: "hl_calls (dm_hal d0) = []"
    by (simp add: hal hal_init_def hal_static_def Let_def split: option.split)
  have "outputs_follow d0"
    using off by (auto simp: outputs_follow_def relays_follow_def alarm_rule_def relay_on_def calls split: prod.splits if_splits)
  moreover have "\<forall>n. dm_net d0 = Some n \<longrightarrow> net_attached n \<and> \<not> nt_force_open n"
    using start_net_fresh by (auto simp: net net_attached_def)
  ultimately have "daemon_inv d0"
    using hal_init_inv by (auto simp: daemon_inv_def doors_follow_def hal calls forced_on_def split: option.split)
      (simp_all add: calls [unfolded hal])
  then show ?thesis by (simp add: d start_timer_def register_input_fds_def inv_on_loop inv_timer)
qed

lemma inv_callback: "callback_step d d' \<Longrightarrow> daemon_inv d \<Longrightarrow> daemon_inv d'"
proof (induction rule: callback_step.induct)
  case (discovery d denv rcv)
  then show ?case by (rule inv_fields) (simp_all add: on_discover_readable_def)
qed (simp_all add: inv_input inv_request inv_housekeeping inv_on_net)

lemma inv_step: "daemon_step d d' \<Longrightarrow> daemon_inv d \<Longrightarrow> daemon_inv d'"
  by (induction rule: daemon_step.induct) (simp_all add: inv_callback inv_reload)

lemma daemon_reachable_inv: "daemon_reachable d \<Longrightarrow> daemon_inv d"
  by (induction rule: daemon_reachable.induct) (blast intro: inv_start inv_step)+

section \<open>Properties\<close>



end
