(* ===== verification/Log_File.thy ===== *)
theory Log_File
  imports Config "HOL-Library.Multiset"
begin

text \<open>
  Where the log lines of the daemon go (\<open>acud/log.c\<close>): standard output, or a file that is
  opened for appending and opened again after a log rotation. Shown: every message is written
  once, to the place the state says; after a rotation and \<open>log_reopen\<close> new messages go to the new
  file and the old ones stay where the rotation put them; a file that cannot be opened again is
  given up for good.
\<close>

section \<open>State\<close>

text \<open>
  \<open>lg_file\<close> and \<open>lg_path\<close> are \<open>g_file\<close> and \<open>g_path\<close>. The \<open>kn_\<close> fields are the kernel's: the
  names of the directory, the lines of each file, the next free file number, and what standard
  output has received. A rotation moves a name; a descriptor keeps its file.
\<close>

datatype log_line = Line string string | Log_open_failed string string

record log_state =
  lg_file :: "nat option"
  lg_path :: string
  kn_names :: "string \<rightharpoonup> nat"
  kn_lines :: "nat \<Rightarrow> log_line list"
  kn_next_file :: nat
  kn_stdout :: "log_line list"

definition log_initial :: log_state where
  "log_initial = \<lparr> lg_file = None, lg_path = '''', kn_names = Map.empty, kn_lines = (\<lambda>_. []),
     kn_next_file = 0, kn_stdout = [] \<rparr>"

section \<open>Operations\<close>

text \<open>\<open>log_stream\<close>: \<open>None\<close> is standard output.\<close>

definition log_stream :: "log_state \<Rightarrow> nat option" where
  "log_stream lg = lg_file lg"

definition log_put :: "log_line \<Rightarrow> log_state \<Rightarrow> log_state" where
  "log_put entry lg =
    (case log_stream lg of
       None \<Rightarrow> lg\<lparr> kn_stdout := kn_stdout lg @ [entry] \<rparr>
     | Some f \<Rightarrow> lg\<lparr> kn_lines := (kn_lines lg)(f := kn_lines lg f @ [entry]) \<rparr>)"

text \<open>\<open>ts\<close> is the time stamp \<open>strftime\<close> makes.\<close>

definition log_msg :: "string \<Rightarrow> string \<Rightarrow> log_state \<Rightarrow> log_state" where
  "log_msg ts msg lg = log_put (Line ts msg) lg"

definition log_close :: "log_state \<Rightarrow> log_state" where
  "log_close lg = (if lg_file lg \<noteq> None then lg\<lparr> lg_file := None \<rparr> else lg)"

text \<open>\<open>fopen(path, ''a'')\<close> where it succeeds: the file of that name, or a new one.\<close>

definition open_append :: "string \<Rightarrow> log_state \<Rightarrow> nat \<times> log_state" where
  "open_append path lg =
    (case kn_names lg path of
       Some f \<Rightarrow> (f, lg)
     | None \<Rightarrow> (kn_next_file lg,
         lg\<lparr> kn_names := (kn_names lg)(path \<mapsto> kn_next_file lg), kn_next_file := Suc (kn_next_file lg) \<rparr>))"

text \<open>\<open>can_open\<close> says which paths \<open>fopen\<close> opens; \<open>None\<close> is a NULL path.\<close>

definition log_open :: "(string \<Rightarrow> bool) \<Rightarrow> string \<Rightarrow> string option \<Rightarrow> log_state \<Rightarrow> log_state" where
  "log_open can_open ts path lg =
    (let lg1 = log_close lg
     in case path of
          None \<Rightarrow> lg1\<lparr> lg_path := '''' \<rparr>
        | Some p \<Rightarrow>
            if p = '''' then lg1\<lparr> lg_path := '''' \<rparr>
            else
              let p1 = buffered 256 p
              in if can_open p1
                 then let (f, lg2) = open_append p1 (lg1\<lparr> lg_path := p1 \<rparr>) in lg2\<lparr> lg_file := Some f \<rparr>
                 else log_put (Log_open_failed ts p1) (lg1\<lparr> lg_path := '''' \<rparr>))"

definition log_reopen :: "(string \<Rightarrow> bool) \<Rightarrow> string \<Rightarrow> log_state \<Rightarrow> log_state" where
  "log_reopen can_open ts lg =
    (if lg_file lg = None then lg else log_open can_open ts (Some (buffered 256 (lg_path lg))) lg)"

definition log_path :: "log_state \<Rightarrow> string" where
  "log_path lg = lg_path lg"

text \<open>What \<open>logrotate\<close> does from outside: \<open>rename(from, to)\<close>.\<close>

definition rename_file :: "string \<Rightarrow> string \<Rightarrow> log_state \<Rightarrow> log_state" where
  "rename_file p q lg = (if p = q then lg else lg\<lparr> kn_names := (kn_names lg)(q := kn_names lg p, p := None) \<rparr>)"

section \<open>Invariant\<close>

text \<open>
  A file is in use exactly when there is a path, which is short enough for its buffer; the numbers
  in use have been given out, and what has not been given out is empty.
\<close>

definition log_inv :: "log_state \<Rightarrow> bool" where
  "log_inv lg \<longleftrightarrow> (lg_file lg = None \<longrightarrow> lg_path lg = '''')
     \<and> (lg_file lg \<noteq> None \<longrightarrow> lg_path lg \<noteq> '''') \<and> length (lg_path lg) < 256
     \<and> (\<forall>f. lg_file lg = Some f \<longrightarrow> f < kn_next_file lg)
     \<and> (\<forall>p f. kn_names lg p = Some f \<longrightarrow> f < kn_next_file lg)
     \<and> (\<forall>f \<ge> kn_next_file lg. kn_lines lg f = [])"

named_theorems log_simps \<open>unfolding the log operations\<close>

lemmas log_defs [log_simps] = log_msg_def log_put_def log_stream_def log_close_def open_append_def log_open_def
  log_reopen_def log_path_def rename_file_def

lemma log_inv_put [keeps_inv]: "log_inv lg \<Longrightarrow> log_inv (log_put entry lg)"
  by (auto simp: log_inv_def log_simps split: option.split)

lemma log_inv_open [keeps_inv]: "log_inv lg \<Longrightarrow> log_inv (log_open can_open ts path lg)"
  by (auto simp: log_inv_def log_simps Let_def length_buffered split: option.splits)
    (auto simp: buffered_def less_SucI)

lemma log_inv_reopen [keeps_inv]: "log_inv lg \<Longrightarrow> log_inv (log_reopen can_open ts lg)"
  by (simp add: log_reopen_def log_inv_open)

lemma log_inv_rotate [keeps_inv]: "log_inv lg \<Longrightarrow> log_inv (rename_file p q lg)"
  by (auto simp: log_inv_def rename_file_def split: if_splits)

lemma log_inv_initial: "log_inv log_initial"
  by (simp add: log_inv_def log_initial_def)

section \<open>Every message once\<close>

datatype log_action =
  Write string string
| Open "string \<Rightarrow> bool" string "string option"
| Reopen "string \<Rightarrow> bool" string
| Rotate string string

fun log_act :: "log_action \<Rightarrow> log_state \<Rightarrow> log_state" where
  "log_act (Write ts msg) lg = log_msg ts msg lg"
| "log_act (Open can_open ts path) lg = log_open can_open ts path lg"
| "log_act (Reopen can_open ts) lg = log_reopen can_open ts lg"
| "log_act (Rotate p q) lg = rename_file p q lg"

fun is_message :: "log_line \<Rightarrow> bool" where
  "is_message (Line ts msg) = True"
| "is_message (Log_open_failed ts path) = False"

text \<open>The messages on standard output and in the files, whatever their names are now.\<close>

definition written :: "log_state \<Rightarrow> log_line multiset" where
  "written lg = mset (filter is_message (kn_stdout lg))
     + (\<Sum>f < kn_next_file lg. mset (filter is_message (kn_lines lg f)))"

fun sent_messages :: "log_action list \<Rightarrow> log_line multiset" where
  "sent_messages [] = {#}"
| "sent_messages (Write ts msg # acts) = {#Line ts msg#} + sent_messages acts"
| "sent_messages (_ # acts) = sent_messages acts"

lemma written_put:
  assumes "log_inv lg"
  shows "written (log_put entry lg) = written lg + (if is_message entry then {#entry#} else {#})"
proof (cases "lg_file lg")
  case None
  then show ?thesis by (simp add: written_def log_put_def log_stream_def)
next
  case (Some f)
  then have f: "f < kn_next_file lg" using assms by (simp add: log_inv_def)
  define g where "g = (\<lambda>k. mset (filter is_message (((kn_lines lg)(f := kn_lines lg f @ [entry])) k)))"
  have rest: "(\<Sum>k \<in> {..<kn_next_file lg} - {f}. g k) = (\<Sum>k \<in> {..<kn_next_file lg} - {f}. mset (filter is_message (kn_lines lg k)))"
    by (rule sum.cong) (auto simp: g_def)
  have "(\<Sum>k < kn_next_file lg. g k) = g f + (\<Sum>k \<in> {..<kn_next_file lg} - {f}. g k)"
    using f by (simp add: sum.remove)
  also have "\<dots> = (\<Sum>k < kn_next_file lg. mset (filter is_message (kn_lines lg k))) + (if is_message entry then {#entry#} else {#})"
    unfolding rest using f by (simp add: sum.remove [of "{..<kn_next_file lg}" f] g_def)
  finally show ?thesis using Some by (simp add: written_def log_put_def log_stream_def g_def)
qed

lemma written_open:
  assumes "log_inv lg"
  shows "written (log_open can_open ts path lg) = written lg"
proof -
  let ?at = "\<lambda>p. (log_close lg)\<lparr> lg_path := p \<rparr>"
  have closed: "written (?at p) = written lg" for p by (simp add: written_def log_close_def)
  have app: "written (lg2\<lparr> lg_file := h \<rparr>) = written lg" if "open_append p (?at q) = (f, lg2)" for p q f lg2 h
    using that assms by (auto simp: open_append_def written_def log_inv_def log_close_def split: option.splits if_splits)
  have put: "written (log_put (Log_open_failed ts p) (?at '''')) = written lg" for p
    by (simp add: log_put_def log_stream_def log_close_def written_def)
  show ?thesis by (auto simp: log_open_def Let_def put closed split: option.split prod.split dest: app)
qed

lemma log_act_inv: "log_inv lg \<Longrightarrow> log_inv (log_act a lg)"
  by (cases a) (simp_all add: log_msg_def keeps_inv)

lemma log_act_written: "log_inv lg \<Longrightarrow> written (log_act a lg) = written lg + sent_messages [a]"
  by (cases a) (simp_all add: log_msg_def written_put written_open log_reopen_def, simp add: written_def rename_file_def)

section \<open>Properties\<close>



text \<open>
  After a rotation the messages still go to the moved file, and after \<open>log_reopen\<close> to a new
  file under the old name; what was written before is all in the moved one.
\<close>

theorem rotated_log_continues:
  fixes t1 m1 t2 m2 ts :: string
  assumes "log_inv lg" "lg_file lg = Some f" "kn_names lg (lg_path lg) = Some f" "q \<noteq> lg_path lg"
    and "can_open (lg_path lg)"
  defines "lg1 \<equiv> log_msg t1 m1 (rename_file (lg_path lg) q lg)"
  defines "lg2 \<equiv> log_msg t2 m2 (log_reopen can_open ts lg1)"
  shows "kn_names lg2 q = Some f \<and> kn_lines lg2 f = kn_lines lg f @ [Line t1 m1]
    \<and> (\<exists>g. g \<noteq> f \<and> kn_names lg2 (lg_path lg) = Some g \<and> kn_lines lg2 g = [Line t2 m2])"
proof -
  have "f < kn_next_file lg" "kn_lines lg (kn_next_file lg) = []" "lg_path lg \<noteq> ''''" "length (lg_path lg) < 256"
    using assms(1,2) by (auto simp: log_inv_def)
  moreover from this have "buffered 256 (lg_path lg) = lg_path lg" by (simp add: buffered_short)
  ultimately show ?thesis
    using assms(2-5) by (auto simp: lg2_def lg1_def log_simps Let_def)
qed

theorem rotated_log_continues_witness:
  "kn_lines (log_msg ''t3'' ''c'' (log_reopen (\<lambda>_. True) ''t2'' (log_msg ''t1'' ''b'' (rename_file ''log'' ''log.1''
      (log_open (\<lambda>_. True) ''t0'' (Some ''log'') log_initial))))) 0 = [Line ''t1'' ''b'']"
proof -
  define lg where "lg = log_open (\<lambda>_. True) ''t0'' (Some ''log'') log_initial"
  have "log_inv lg" unfolding lg_def by (intro keeps_inv log_inv_initial)
  moreover have "lg_path lg = ''log''" "lg_file lg = Some 0" "kn_names lg (lg_path lg) = Some 0" "kn_lines lg 0 = []"
    by (simp_all add: lg_def log_simps log_initial_def buffered_def Let_def)
  ultimately show ?thesis
    using rotated_log_continues [of lg 0 "''log.1''" "\<lambda>_. True" "''t3''" "''c''" "''t2''" "''t1''" "''b''"]
    by (simp add: lg_def)
qed

text \<open>A file that cannot be opened again is given up: no later \<open>log_reopen\<close> tries it.\<close>

lemma lost_log_stays_lost:
  assumes "log_inv lg" "\<not> can_open (lg_path lg)"
  shows "lg_file (log_reopen can_open ts lg) = None"
    "log_reopen can_open2 ts2 (log_reopen can_open ts lg) = log_reopen can_open ts lg"
proof -
  have "buffered 256 (lg_path lg) = lg_path lg" "lg_file lg \<noteq> None \<longrightarrow> lg_path lg \<noteq> ''''"
    using assms(1) by (simp_all add: log_inv_def buffered_short)
  then show lost: "lg_file (log_reopen can_open ts lg) = None"
    using assms(2) by (simp add: log_simps Let_def)
  show "log_reopen can_open2 ts2 (log_reopen can_open ts lg) = log_reopen can_open ts lg"
    unfolding log_reopen_def [of can_open2] using lost by simp
qed

end
