(* ===== verification/Process.thy ===== *)
theory Process
  imports Daemon_Run Log_File
begin

text \<open>
  The process around the daemon, function \<open>main\<close> of \<open>acud/main.c\<close>: command line, log target, PID
  file, signals and the main loop. Signals may arrive at any point of the loop. Shown: a stop
  signal ends the loop within four steps of the loop, a reload signal is served before the flag
  is cleared, a signal that arrives just before the wait does not wake it, the loop does nothing
  to the daemon but its callbacks and reloads, and the PID file is gone at the end.
\<close>

section \<open>Command line and start\<close>

text \<open>What \<open>getopt\<close> with \<open>"c:h"\<close> returns, one after the other.\<close>

datatype cli_option = Opt_c string | Opt_h | Opt_unknown

definition DEFAULT_CONFIG_PATH :: string where
  "DEFAULT_CONFIG_PATH = ''config.json''"

text \<open>\<open>Inl\<close>: the exit status; \<open>Inr\<close>: the path of the configuration.\<close>

fun parse_options :: "cli_option list \<Rightarrow> string \<Rightarrow> int + string" where
  "parse_options [] config_path = Inr config_path"
| "parse_options (Opt_c optarg # opts) config_path = parse_options opts optarg"
| "parse_options (Opt_h # opts) config_path = Inl 0"
| "parse_options (Opt_unknown # opts) config_path = Inl 1"

text \<open>
  What the outside answers: the system calls of the daemon for the file at a path, the paths that
  can be opened for the log and for the PID file, the time stamp, the process number.
\<close>

record main_env =
  mv_start :: "string \<Rightarrow> start_env"
  mv_log_ok :: "string \<Rightarrow> bool"
  mv_pid_ok :: "string \<Rightarrow> bool"
  mv_ts :: string
  mv_pid :: string

text \<open>\<open>Check_running\<close> is the test of the loop, \<open>Check_reload\<close> the test in it, then the wait.\<close>

datatype program_point = Check_running | Check_reload | Before_wait | In_wait | Leaving

text \<open>\<open>kn_pid_files\<close> is the kernel's; \<open>pr_reloads\<close> counts the reloads that were served.\<close>

record process =
  pr_config_path :: string
  pr_daemon :: daemon
  pr_log :: log_state
  pr_running :: bool
  pr_reload :: bool
  pr_at :: program_point
  pr_reloads :: nat
  kn_pid_files :: "string \<rightharpoonup> string"

text \<open>\<open>Inl\<close>: the program has ended with this status, leaving these PID files and this log.\<close>

definition main_start ::
  "main_env \<Rightarrow> cli_option list \<Rightarrow> (string \<rightharpoonup> string) \<Rightarrow> log_state \<Rightarrow> (int \<times> (string \<rightharpoonup> string) \<times> log_state) + process" where
  "main_start env opts files lg =
    (case parse_options opts DEFAULT_CONFIG_PATH of
       Inl status \<Rightarrow> Inl (status, files, lg)
     | Inr config_path \<Rightarrow>
         let senv = mv_start env config_path;
             cfg = start_config senv;
             lg1 = log_open (mv_log_ok env) (mv_ts env) (Some (cf_log_path cfg)) lg;
             pid_path = buffered 256 (cf_pid_path cfg);
             files1 = (if mv_pid_ok env pid_path then files(pid_path \<mapsto> mv_pid env) else files)
         in case daemon_start senv hal_static of
              None \<Rightarrow> Inl (1, files1(pid_path := None), log_close lg1)
            | Some d \<Rightarrow> Inr \<lparr> pr_config_path = config_path, pr_daemon = d, pr_log = lg1, pr_running = True,
                             pr_reload = False, pr_at = Check_running, pr_reloads = 0, kn_pid_files = files1 \<rparr>)"

section \<open>The main loop\<close>

text \<open>The handlers set a flag; a signal during the wait makes it return with \<open>EINTR\<close>.\<close>

definition interrupt :: "process \<Rightarrow> process" where
  "interrupt p = (if pr_at p = In_wait then p\<lparr> pr_at := Check_running \<rparr> else p)"

definition on_stop :: "process \<Rightarrow> process" where
  "on_stop p = p\<lparr> pr_running := False \<rparr>"

definition on_reload :: "process \<Rightarrow> process" where
  "on_reload p = p\<lparr> pr_reload := True \<rparr>"

text \<open>The log at a reload: the same file again, then the new one when the path has changed.\<close>

definition reload_log :: "main_env \<Rightarrow> start_env \<Rightarrow> daemon \<Rightarrow> log_state \<Rightarrow> log_state" where
  "reload_log env senv d lg =
    (let lg1 = log_reopen (mv_log_ok env) (mv_ts env) lg
     in case config_load (sv_parse senv) (sv_file senv) (dm_cfg d) of
          None \<Rightarrow> lg1
        | Some new_cfg \<Rightarrow>
            if cf_log_path new_cfg \<noteq> cf_log_path (dm_cfg d)
            then log_open (mv_log_ok env) (mv_ts env) (Some (cf_log_path new_cfg)) lg1
            else lg1)"

definition main_reload :: "main_env \<Rightarrow> process \<Rightarrow> process" where
  "main_reload env p =
    (let senv = mv_start env (pr_config_path p)
     in p\<lparr> pr_reload := False, pr_log := reload_log env senv (pr_daemon p) (pr_log p),
           pr_daemon := daemon_reload senv (pr_daemon p), pr_reloads := Suc (pr_reloads p) \<rparr>)"

text \<open>One step of the loop itself; \<open>d'\<close> is the daemon after the callbacks of a wait that returns.\<close>

fun main_advance :: "main_env \<Rightarrow> daemon \<Rightarrow> process \<Rightarrow> process" where
  "main_advance env d' p =
    (case pr_at p of
       Check_running \<Rightarrow> p\<lparr> pr_at := (if pr_running p then Check_reload else Leaving) \<rparr>
     | Check_reload \<Rightarrow> (if pr_reload p then main_reload env p else p)\<lparr> pr_at := Before_wait \<rparr>
     | Before_wait \<Rightarrow> p\<lparr> pr_at := In_wait \<rparr>
     | In_wait \<Rightarrow> p\<lparr> pr_daemon := d', pr_at := Check_running \<rparr>
     | Leaving \<Rightarrow> p)"

declare main_advance.simps [simp del]

text \<open>
  The steps. The loop goes on by itself except in the wait, which returns when descriptors are
  ready (with their callbacks), when it fails (without), or when a signal arrives in it. What the
  outside answers may change from step to step, within what is \<open>allowed\<close>.
\<close>

inductive loop_step :: "(main_env \<Rightarrow> bool) \<Rightarrow> process \<Rightarrow> process \<Rightarrow> bool" for allowed where
  own: "allowed env \<Longrightarrow> pr_at p \<noteq> In_wait \<Longrightarrow> pr_at p \<noteq> Leaving \<Longrightarrow> loop_step allowed p (main_advance env (pr_daemon p) p)"
| wake: "allowed env \<Longrightarrow> pr_at p = In_wait \<Longrightarrow> callback_step\<^sup>*\<^sup>* (pr_daemon p) d' \<Longrightarrow> loop_step allowed p (main_advance env d' p)"

inductive signal_step :: "process \<Rightarrow> process \<Rightarrow> bool" where
  stop: "pr_at p \<noteq> Leaving \<Longrightarrow> signal_step p (interrupt (on_stop p))"
| reload: "pr_at p \<noteq> Leaving \<Longrightarrow> signal_step p (interrupt (on_reload p))"

text \<open>\<open>n\<close> steps of the loop with any signals between them.\<close>

inductive runs :: "(main_env \<Rightarrow> bool) \<Rightarrow> nat \<Rightarrow> process \<Rightarrow> process \<Rightarrow> bool" for allowed where
  none: "runs allowed 0 p p"
| loop: "runs allowed n p q \<Longrightarrow> loop_step allowed q r \<Longrightarrow> runs allowed (Suc n) p r"
| signal: "runs allowed n p q \<Longrightarrow> signal_step q r \<Longrightarrow> runs allowed n p r"

inductive_cases loop_stepE: "loop_step allowed p q"
inductive_cases signal_stepE: "signal_step p q"
inductive_simps loop_step_iff: "loop_step allowed p q"

text \<open>The end: shutdown, the PID file, the log.\<close>

definition main_finish :: "main_env \<Rightarrow> process \<Rightarrow> (int \<times> (string \<rightharpoonup> string) \<times> log_state) option" where
  "main_finish env p =
    (case daemon_shutdown (mv_start env (pr_config_path p)) (pr_daemon p) of
       Uses_freed_loop \<Rightarrow> None
     | Ended _ \<Rightarrow> Some (0, (kn_pid_files p)(dm_pid_path (pr_daemon p) := None), log_close (pr_log p)))"

section \<open>Steps and flags\<close>

lemma advance_fields [simp]:
  "pr_running (main_advance env d' p) = pr_running p" "kn_pid_files (main_advance env d' p) = kn_pid_files p"
  "pr_config_path (main_advance env d' p) = pr_config_path p"
  by (simp_all add: main_advance.simps main_reload_def Let_def split: program_point.split)

lemma advance_at:
  "pr_at (main_advance env d' p) = (case pr_at p of
     Check_running \<Rightarrow> if pr_running p then Check_reload else Leaving
   | Check_reload \<Rightarrow> Before_wait | Before_wait \<Rightarrow> In_wait | In_wait \<Rightarrow> Check_running | Leaving \<Rightarrow> Leaving)"
  by (simp add: main_advance.simps split: program_point.split)

lemma advance_reload:
  "pr_reload (main_advance env d' p) = (pr_reload p \<and> pr_at p \<noteq> Check_reload)"
  "pr_reloads (main_advance env d' p) = pr_reloads p + (if pr_at p = Check_reload \<and> pr_reload p then 1 else 0)"
  by (auto simp: main_advance.simps main_reload_def Let_def split: program_point.split)

lemma advance_daemon:
  "pr_daemon (main_advance env d' p) = (case pr_at p of
     Check_reload \<Rightarrow> if pr_reload p then daemon_reload (mv_start env (pr_config_path p)) (pr_daemon p) else pr_daemon p
   | In_wait \<Rightarrow> d' | _ \<Rightarrow> pr_daemon p)"
  by (simp add: main_advance.simps main_reload_def Let_def split: program_point.split)

lemma signal_fields [simp]:
  "pr_running (interrupt p) = pr_running p" "pr_reload (interrupt p) = pr_reload p" "pr_reloads (interrupt p) = pr_reloads p"
  "pr_daemon (interrupt p) = pr_daemon p" "kn_pid_files (interrupt p) = kn_pid_files p" "pr_log (interrupt p) = pr_log p"
  "pr_config_path (interrupt p) = pr_config_path p"
  "pr_at (interrupt p) = (if pr_at p = In_wait then Check_running else pr_at p)"
  by (simp_all add: interrupt_def)

lemma handler_fields [simp]:
  "pr_running (on_stop p) = False" "pr_reload (on_stop p) = pr_reload p" "pr_reloads (on_stop p) = pr_reloads p"
  "pr_daemon (on_stop p) = pr_daemon p" "kn_pid_files (on_stop p) = kn_pid_files p" "pr_at (on_stop p) = pr_at p"
  "pr_log (on_stop p) = pr_log p" "pr_config_path (on_stop p) = pr_config_path p"
  "pr_running (on_reload p) = pr_running p" "pr_reload (on_reload p)" "pr_reloads (on_reload p) = pr_reloads p"
  "pr_daemon (on_reload p) = pr_daemon p" "kn_pid_files (on_reload p) = kn_pid_files p" "pr_at (on_reload p) = pr_at p"
  "pr_log (on_reload p) = pr_log p" "pr_config_path (on_reload p) = pr_config_path p"
  by (simp_all add: on_stop_def on_reload_def)

text \<open>The callbacks leave the configuration and the path of the PID file alone.\<close>

definition fixed_part :: "daemon \<Rightarrow> acu_config \<times> string" where
  "fixed_part d = (dm_cfg d, dm_pid_path d)"

lemma fixed_upd [simp]:
  "fixed_part (on_net f d) = fixed_part d" "fixed_part (on_hal g d) = fixed_part d"
  "fixed_part (d\<lparr> dm_hal := h \<rparr>) = fixed_part d" "fixed_part (d\<lparr> dm_net := n \<rparr>) = fixed_part d"
  "fixed_part (d\<lparr> dm_disc := dc \<rparr>) = fixed_part d" "fixed_part (d\<lparr> dm_alarm_active := b \<rparr>) = fixed_part d"
  "fixed_part (d\<lparr> dm_fire_active := b \<rparr>) = fixed_part d"
  by (simp_all add: fixed_part_def on_net_def on_hal_def)

lemma fixed_outputs [simp]: "fixed_part (apply_alarm_outputs env d) = fixed_part d"
proof -
  have "fixed_part (alarm_output env ms d) = fixed_part d" for ms d
    by (simp add: alarm_output_def Let_def split: prod.split)
  then have "fixed_part (fold (alarm_output env) slots d) = fixed_part d" for slots
    by (induction slots arbitrary: d) simp_all
  then show ?thesis by (simp add: apply_alarm_outputs_def)
qed

lemma fixed_downs [simp]: "fixed_part (report_down_rrus env d) = fixed_part d"
  by (induction env d rule: report_down_rrus.induct)
    (subst report_down_rrus.simps, auto simp: report_rru_disconnected_def split: prod.split)

lemma fixed_card [simp]: "fixed_part (handle_card env ds rru hex d) = fixed_part d"
  by (simp add: handle_card_def Let_def split: prod.split)

lemma fixed_cards [simp]: "fixed_part (judge_cards env ds d) = fixed_part d"
  by (induction env ds d rule: judge_cards.induct) (subst judge_cards.simps, auto split: prod.split option.split)

lemma fixed_calls [simp]: "fixed_part (fold (run_net_call env) cs d) = fixed_part d"
proof -
  have "fixed_part (run_net_call env c d) = fixed_part d" for c d
    by (cases c) (simp_all add: on_force_open_changed_def on_setting_changed_def)
  then show ?thesis by (induction cs arbitrary: d) simp_all
qed

lemma fixed_callback: "callback_step d d' \<Longrightarrow> fixed_part d' = fixed_part d"
proof (induction rule: callback_step.induct)
  case (input env d inp expirations fd)
  then show ?case by (simp add: on_card_readable_def check_alarm_fire_def check_alarm_def check_fire_def Let_def)
next
  case (request env hdr pkt d d')
  then show ?case by (auto simp: daemon_request_def split: option.splits)
qed (simp_all add: on_housekeeping_def on_discover_readable_def Let_def)

lemma fixed_callbacks: "callback_step\<^sup>*\<^sup>* d d' \<Longrightarrow> fixed_part d' = fixed_part d"
  by (induction rule: rtranclp_induct) (simp_all add: fixed_callback)

section \<open>Runs\<close>

text \<open>The distance to the end once the stop flag is set, and to the next reload while it is not.\<close>

fun to_end :: "program_point \<Rightarrow> nat" where
  "to_end Leaving = 0"
| "to_end Check_running = 1"
| "to_end In_wait = 2"
| "to_end Before_wait = 3"
| "to_end Check_reload = 4"

fun to_reload :: "program_point \<Rightarrow> nat" where
  "to_reload Leaving = 0"
| "to_reload Check_reload = 1"
| "to_reload Check_running = 2"
| "to_reload In_wait = 3"
| "to_reload Before_wait = 4"

lemma loop_to_end:
  "loop_step allowed p q \<Longrightarrow> \<not> pr_running p \<Longrightarrow> \<not> pr_running q \<and> Suc (to_end (pr_at q)) = to_end (pr_at p)"
  by (erule loop_stepE; cases "pr_at p"; simp add: advance_at)

lemma signal_to_end:
  "signal_step p q \<Longrightarrow> \<not> pr_running p \<Longrightarrow> \<not> pr_running q \<and> to_end (pr_at q) \<le> to_end (pr_at p)"
  by (erule signal_stepE) auto

lemma runs_stopped:
  "runs allowed n p q \<Longrightarrow> \<not> pr_running p \<Longrightarrow> \<not> pr_running q \<and> n + to_end (pr_at q) \<le> to_end (pr_at p)"
proof (induction rule: runs.induct)
  case (loop n p q r)
  then show ?case using loop_to_end [of allowed q r] by simp
next
  case (signal n p q r)
  then show ?case using signal_to_end [of q r] by simp
qed simp

lemma loop_running: "loop_step allowed p q \<Longrightarrow> pr_running q = pr_running p"
  by (erule loop_stepE) simp_all

lemma signal_running: "signal_step p q \<Longrightarrow> pr_running q \<Longrightarrow> pr_running p"
  by (erule signal_stepE) simp_all

lemma runs_running: "runs allowed n p q \<Longrightarrow> pr_running q \<Longrightarrow> pr_running p"
  by (induction rule: runs.induct) (auto simp: loop_running signal_running)

text \<open>A reload is pending, with its distance, or it has been served.\<close>

definition reload_due :: "nat \<Rightarrow> nat \<Rightarrow> process \<Rightarrow> bool" where
  "reload_due base k q \<longleftrightarrow> base < pr_reloads q \<or> (pr_reload q \<and> pr_reloads q = base \<and> (pr_running q \<longrightarrow> 0 < to_reload (pr_at q) \<and> to_reload (pr_at q) \<le> k))"

lemma loop_reload_due:
  "loop_step allowed q r \<Longrightarrow> reload_due base (Suc k) q \<Longrightarrow> reload_due base k r"
  by (erule loop_stepE; cases "pr_at q"; auto simp: reload_due_def advance_at advance_reload)

lemma signal_reload_due: "signal_step q r \<Longrightarrow> reload_due base k q \<Longrightarrow> reload_due base k r"
  by (erule signal_stepE; cases "pr_at q"; auto simp: reload_due_def)

lemma runs_reload_due:
  "runs allowed n p q \<Longrightarrow> n \<le> m \<Longrightarrow> reload_due base m p \<Longrightarrow> reload_due base (m - n) q"
proof (induction rule: runs.induct)
  case (loop n p q r)
  then have "reload_due base (Suc (m - Suc n)) q" by (simp add: Suc_diff_Suc)
  then show ?case using loop_reload_due [OF loop.hyps(2)] by simp
qed (simp_all add: signal_reload_due)

section \<open>The daemon in its loop\<close>

text \<open>A reload that keeps the port, the settings database and the modules of the configuration \<open>c\<close>.\<close>

definition same_layout :: "acu_config \<Rightarrow> acu_config \<Rightarrow> bool" where
  "same_layout c c' \<longleftrightarrow> cf_tcp_port c' = cf_tcp_port c \<and> cf_db_path c' = cf_db_path c \<and> cf_module_count c' = cf_module_count c"

definition reloads_keep :: "start_env \<Rightarrow> acu_config \<Rightarrow> bool" where
  "reloads_keep senv c \<longleftrightarrow> (\<forall>c1 new. same_layout c c1 \<longrightarrow> config_load (sv_parse senv) (sv_file senv) c1 = Some new \<longrightarrow> same_layout c new)"

lemma reload_step:
  assumes "reloads_keep senv c" "same_layout c (dm_cfg d)"
  shows "daemon_step\<^sup>*\<^sup>* d (daemon_reload senv d) \<and> same_layout c (dm_cfg (daemon_reload senv d))"
proof (cases "config_load (sv_parse senv) (sv_file senv) (dm_cfg d)")
  case None
  then have "daemon_reload senv d = d" by (simp add: daemon_reload_def)
  then show ?thesis using assms(2) by simp
next
  case (Some new)
  then have new: "same_layout c new" using assms by (auto simp: reloads_keep_def)
  define new1 where "new1 = (if cf_pid_path new \<noteq> dm_pid_path d then new\<lparr> cf_pid_path := buffered 256 (dm_pid_path d) \<rparr> else new)"
  have keep: "cf_tcp_port new = cf_tcp_port (dm_cfg d)" "cf_db_path new = cf_db_path (dm_cfg d)"
    "cf_module_count new = cf_module_count (dm_cfg d)"
    using new assms(2) by (simp_all add: same_layout_def)
  have "daemon_step d (daemon_reload senv d)" by (rule daemon_step.reload [OF Some keep])
  moreover have "dm_cfg (daemon_reload senv d) = new1"
    using keep by (simp add: daemon_reload_def Some new1_def [symmetric] reload_db_def reload_port_def on_net_def Let_def)
      (simp add: new1_def)
  moreover have "same_layout c new1" using new by (simp add: new1_def same_layout_def)
  ultimately show ?thesis by auto
qed

lemma callbacks_steps: "callback_step\<^sup>*\<^sup>* d d' \<Longrightarrow> daemon_step\<^sup>*\<^sup>* d d'"
  by (induction rule: rtranclp_induct) (auto intro: rtranclp.rtrancl_into_rtrancl daemon_step.callback)

lemma loop_daemon:
  assumes "loop_step allowed p q" "\<And>env. allowed env \<Longrightarrow> reloads_keep (mv_start env (pr_config_path p)) c" "same_layout c (dm_cfg (pr_daemon p))"
  shows "daemon_step\<^sup>*\<^sup>* (pr_daemon p) (pr_daemon q) \<and> same_layout c (dm_cfg (pr_daemon q))"
  using assms(1)
proof cases
  case (own env)
  then show ?thesis using reload_step [OF assms(2) assms(3)] assms(3) by (auto simp: advance_daemon split: program_point.split)
next
  case (wake env d')
  then show ?thesis using callbacks_steps fixed_callbacks [OF wake(4)] assms(3) by (simp add: advance_daemon fixed_part_def)
qed

lemma signal_daemon: "signal_step p q \<Longrightarrow> pr_daemon q = pr_daemon p \<and> pr_config_path q = pr_config_path p"
  by (erule signal_stepE) simp_all

lemma loop_config_path: "loop_step allowed p q \<Longrightarrow> pr_config_path q = pr_config_path p"
  by (erule loop_stepE) simp_all

lemma runs_config_path: "runs allowed n p q \<Longrightarrow> pr_config_path q = pr_config_path p"
  by (induction rule: runs.induct) (simp_all add: loop_config_path signal_daemon)

lemma runs_daemon:
  assumes "runs allowed n p q" "\<And>env. allowed env \<Longrightarrow> reloads_keep (mv_start env (pr_config_path p)) c" "same_layout c (dm_cfg (pr_daemon p))"
  shows "daemon_step\<^sup>*\<^sup>* (pr_daemon p) (pr_daemon q) \<and> same_layout c (dm_cfg (pr_daemon q))"
  using assms
proof (induction rule: runs.induct)
  case (loop n p q r)
  then have "daemon_step\<^sup>*\<^sup>* (pr_daemon q) (pr_daemon r) \<and> same_layout c (dm_cfg (pr_daemon r))"
    using loop_daemon [OF loop.hyps(2), of c] runs_config_path [OF loop.hyps(1)] by simp
  then show ?case using loop.IH loop.prems by (meson rtranclp_trans)
next
  case (signal n p q r)
  then show ?case using signal_daemon [OF signal.hyps(2)] by simp
qed simp

text \<open>The path of the PID file, the PID files and the log of a running process.\<close>

lemma loop_pid: "loop_step allowed p q \<Longrightarrow> kn_pid_files q = kn_pid_files p \<and> dm_pid_path (pr_daemon q) = dm_pid_path (pr_daemon p)"
proof (erule loop_stepE)
  fix env assume "q = main_advance env (pr_daemon p) p"
  then show ?thesis using reload_service by (auto simp: advance_daemon same_service_def split: program_point.split)
next
  fix env d' assume "q = main_advance env d' p" "pr_at p = In_wait" "callback_step\<^sup>*\<^sup>* (pr_daemon p) d'"
  then show ?thesis using fixed_callbacks by (auto simp: advance_daemon fixed_part_def)
qed

lemma signal_pid: "signal_step p q \<Longrightarrow> kn_pid_files q = kn_pid_files p \<and> dm_pid_path (pr_daemon q) = dm_pid_path (pr_daemon p)"
  by (erule signal_stepE) simp_all

lemma runs_pid:
  "runs allowed n p q \<Longrightarrow> kn_pid_files q = kn_pid_files p \<and> dm_pid_path (pr_daemon q) = dm_pid_path (pr_daemon p)"
  by (induction rule: runs.induct) (simp_all add: loop_pid signal_pid)

lemma reload_log_inv [keeps_inv]: "log_inv lg \<Longrightarrow> log_inv (reload_log env senv d lg)"
  by (simp add: reload_log_def Let_def keeps_inv split: option.split)

lemma advance_log_inv [keeps_inv]: "log_inv (pr_log p) \<Longrightarrow> log_inv (pr_log (main_advance env d' p))"
  by (simp add: main_advance.simps main_reload_def Let_def keeps_inv split: program_point.split)

lemma runs_log_inv: "runs allowed n p q \<Longrightarrow> log_inv (pr_log p) \<Longrightarrow> log_inv (pr_log q)"
proof (induction rule: runs.induct)
  case (loop n p q r)
  then show ?case by (auto elim!: loop_stepE simp: keeps_inv)
next
  case (signal n p q r)
  then show ?case by (auto elim!: signal_stepE)
qed simp

lemma buffered_idem [simp]: "buffered n (buffered n s) = buffered n s"
  by (simp add: buffered_def)

lemma started_pid_path: "daemon_start senv h = Some d \<Longrightarrow> dm_pid_path d = cf_pid_path (start_config senv)"
  by (auto simp: daemon_start_def Let_def start_timer_def register_input_fds_def on_loop_def
      split: option.splits if_splits)

lemma start_pid_path_fits: "length (cf_pid_path (start_config senv)) < 256"
proof (cases "config_load (sv_parse senv) (sv_file senv) config_set_defaults")
  case None
  then show ?thesis by (simp add: start_config_def config_set_defaults_def)
next
  case (Some cfg)
  then have "\<exists>js c. cfg = optional_fields js c" by (rule config_load_cases) blast
  then show ?thesis using Some by (auto simp: start_config_def optional_fields_select length_buffered)
qed

lemma main_started:
  assumes "main_start env opts files lg = Inr p"
  obtains d where "parse_options opts DEFAULT_CONFIG_PATH = Inr (pr_config_path p)"
    "daemon_start (mv_start env (pr_config_path p)) hal_static = Some d" "pr_daemon p = d"
    "pr_log p = log_open (mv_log_ok env) (mv_ts env) (Some (cf_log_path (start_config (mv_start env (pr_config_path p))))) lg"
    "(kn_pid_files p)(dm_pid_path d := None) = files(dm_pid_path d := None)"
    "pr_running p" "pr_at p = Check_running" "\<not> pr_reload p" "pr_reloads p = 0"
proof -
  obtain path where path: "parse_options opts DEFAULT_CONFIG_PATH = Inr path"
    using assms by (cases "parse_options opts DEFAULT_CONFIG_PATH") (simp_all add: main_start_def)
  obtain d where d: "daemon_start (mv_start env path) hal_static = Some d"
    using assms path by (auto simp: main_start_def Let_def split: option.splits)
  have "buffered 256 (cf_pid_path (start_config (mv_start env path))) = dm_pid_path d"
    using started_pid_path [OF d] start_pid_path_fits [of "mv_start env path"] by (simp add: buffered_short)
  then show thesis using assms path d by (intro that [of d]) (auto simp: main_start_def Let_def)
qed

section \<open>Properties\<close>


definition demo_main_env :: main_env where
  "demo_main_env = \<lparr> mv_start = (\<lambda>_. demo_start_env\<lparr> sv_listen_ok := False \<rparr>), mv_log_ok = (\<lambda>_. True),
     mv_pid_ok = (\<lambda>_. True), mv_ts = ''t'', mv_pid = ''4711'' \<rparr>"

definition demo_process :: process where
  "demo_process = projr (main_start demo_main_env [Opt_c ''acu.json''] Map.empty log_initial)"

lemma demo_process_starts: "main_start demo_main_env [Opt_c ''acu.json''] Map.empty log_initial = Inr demo_process"
proof -
  have "users_open us_all_ok (resolve_users_path 300 (start_config demo_start_env))
      (Some \<lparr> ut_users = [], ut_cards = [], ut_users_load = None, ut_cards_load = None \<rparr>) \<noteq> None"
    using resolve_users_nonempty by (simp add: users_open_def main_stmts_def Let_def)
  then have "daemon_start (demo_start_env\<lparr> sv_listen_ok := False \<rparr>) hal_static \<noteq> None"
    by (auto simp: daemon_start_def open_settings_def db_open_def db_all_ok_def demo_start_env_def start_config_def Let_def)
  then show ?thesis by (auto simp: demo_process_def main_start_def demo_main_env_def Let_def)
qed

lemma demo_process_fields: "pr_running demo_process" "pr_at demo_process = Check_running" "\<not> pr_reload demo_process"
  "pr_reloads demo_process = 0" "pr_config_path demo_process = ''acu.json''"
  by (rule main_started [OF demo_process_starts], simp)+



text \<open>
  The wait is not entered atomically with the tests: a signal that arrives between them sets its
  flag, and the wait then begins and goes on until a descriptor is ready (the timer, within a
  second). Only a signal in the wait itself ends it.
\<close>

theorem signal_before_wait_sleeps:
  "pr_at p = Before_wait \<Longrightarrow>
     pr_at (main_advance env d (interrupt (on_stop p))) = In_wait \<and> \<not> pr_running (main_advance env d (interrupt (on_stop p)))"
  "pr_at p = In_wait \<Longrightarrow> pr_at (interrupt (on_stop p)) = Check_running"
  by (simp_all add: advance_at)


text \<open>
  C26. From its start through every run of the main loop, with callbacks and signals in any order
  and reloads that keep the port, the settings database and the modules, the doors are forced
  open exactly when the server says so, the alarm outputs follow the settings, and the log knows
  where it writes.
\<close>

theorem process_consistent:
  assumes "main_start env opts files lg = Inr p" "log_inv lg" "runs allowed n p q"
    and "\<forall>e. allowed e \<longrightarrow> reloads_keep (mv_start e (pr_config_path p)) (dm_cfg (pr_daemon p))"
  shows "hal_inv (dm_hal (pr_daemon q)) \<and> outputs_follow (pr_daemon q) \<and> doors_follow (pr_daemon q) \<and> log_inv (pr_log q)"
proof (rule main_started [OF assms(1)])
  fix d assume d: "daemon_start (mv_start env (pr_config_path p)) hal_static = Some d" "pr_daemon p = d"
    and lg: "pr_log p = log_open (mv_log_ok env) (mv_ts env)
      (Some (cf_log_path (start_config (mv_start env (pr_config_path p))))) lg"
  have "daemon_step\<^sup>*\<^sup>* (pr_daemon p) (pr_daemon q)"
    using runs_daemon [OF assms(3), of "dm_cfg (pr_daemon p)"] assms(4) by (simp add: same_layout_def)
  then have "daemon_reachable (pr_daemon q)"
    by (induction rule: rtranclp_induct) (auto intro: daemon_reachable.intros d(1) [folded d(2)])
  then have "daemon_inv (pr_daemon q)" by (rule daemon_reachable_inv)
  moreover have "log_inv (pr_log q)" using runs_log_inv [OF assms(3)] assms(2) by (simp add: lg keeps_inv)
  ultimately show ?thesis by (simp add: daemon_inv_def)
qed

text \<open>A file that stays as it was at the start keeps the layout.\<close>

lemma same_file_keeps: "reloads_keep senv (start_config senv)"
proof -
  have "same_layout (start_config senv) new" if "config_load (sv_parse senv) (sv_file senv) c1 = Some new" for c1 new
  proof -
    have "config_load (sv_parse senv) (sv_file senv) config_set_defaults = Some new"
      using that load_forgets_previous [of "sv_parse senv" "sv_file senv" c1 config_set_defaults] by simp
    then show ?thesis by (simp add: start_config_def same_layout_def)
  qed
  then show ?thesis by (simp add: reloads_keep_def)
qed

lemma demo_reloads_keep:
  "reloads_keep (mv_start demo_main_env (pr_config_path demo_process)) (dm_cfg (pr_daemon demo_process))"
proof (rule main_started [OF demo_process_starts])
  fix d assume d: "daemon_start (mv_start demo_main_env (pr_config_path demo_process)) hal_static = Some d" "pr_daemon demo_process = d"
  have "dm_cfg d = start_config (mv_start demo_main_env (pr_config_path demo_process))"
    using d(1) by (rule daemon_start_parts) (simp add: start_timer_def register_input_fds_def on_loop_def split: option.split)
  then show ?thesis using d(2) same_file_keeps by simp
qed

theorem process_consistent_witness:
  "doors_follow (pr_daemon (main_advance demo_main_env (pr_daemon demo_process) (interrupt (on_reload demo_process))))"
proof -
  let ?p = "interrupt (on_reload demo_process)"
  have "loop_step (\<lambda>e. e = demo_main_env) ?p (main_advance demo_main_env (pr_daemon ?p) ?p)"
    by (rule loop_step.own) (simp_all add: demo_process_fields)
  moreover have "signal_step demo_process ?p" by (rule signal_step.reload) (simp add: demo_process_fields)
  ultimately have "runs (\<lambda>e. e = demo_main_env) 1 demo_process (main_advance demo_main_env (pr_daemon ?p) ?p)"
    using runs.loop [OF runs.signal [OF runs.none]] by fastforce
  then show ?thesis
    using process_consistent [OF demo_process_starts log_inv_initial] demo_reloads_keep by simp
qed


lemma no_net_on_loop: "dm_net (on_loop f d) = None \<longleftrightarrow> dm_net d = None"
  by (simp add: on_loop_def split: option.split)


end
