(* ===== verification/Rru_Link.thy ===== *)
theory Rru_Link
  imports Prelude
begin

text \<open>
  The frames of the link to the reader units (RRU), as \<open>tools/rru_proto_check.c\<close> holds the
  reference code of the protocol document: the CRC, the receiver that takes one byte at a time,
  and the sender. The properties say that the receiver takes exactly the frames that are sent,
  stays inside its buffer on any input, and rejects every frame with one wrong byte.
\<close>

abbreviation (input) RRU_MAX_PAYLOAD :: nat where "RRU_MAX_PAYLOAD \<equiv> 255"
abbreviation (input) RRU_FRAME_MAX :: nat where "RRU_FRAME_MAX \<equiv> 263"

section \<open>Frames\<close>

definition crc_bit :: "u16 \<Rightarrow> u16" where
  "crc_bit crc = (if crc AND 0x8000 \<noteq> 0 then push_bit 1 crc XOR 0x1021 else push_bit 1 crc)"

definition crc_byte :: "u16 \<Rightarrow> byte \<Rightarrow> u16" where
  "crc_byte crc b = (crc_bit ^^ 8) (crc XOR push_bit 8 (ucast b))"

definition rru_crc16 :: "byte list \<Rightarrow> u16" where
  "rru_crc16 p = foldl crc_byte 0xFFFF p"

text \<open>\<open>rx_buf\<close> is \<open>buf[0 .. len)\<close>.\<close>

record rru_rx =
  rx_buf :: "byte list"
  rx_want :: nat

text \<open>Three bytes are there: the body length says how many to wait for, or the frame is given up.\<close>

definition rx_length :: "rru_rx \<Rightarrow> rru_rx option" where
  "rx_length r =
    (let body = unat (be16 (drop 1 (rx_buf r)))
     in if body < 2 \<or> body > 2 + RRU_MAX_PAYLOAD then None else Some (r\<lparr> rx_want := 3 + body + 3 \<rparr>))"

definition rx_complete :: "rru_rx \<Rightarrow> bool \<times> rru_rx" where
  "rx_complete r =
    (if rx_want r = 0 \<or> length (rx_buf r) < rx_want r then (False, r)
     else
       let body = rx_want r - 6;
           got = be16 (drop (3 + body) (rx_buf r));
           ok = (rx_buf r ! (rx_want r - 1) = 0x03 \<and> got = rru_crc16 (slice 3 body (rx_buf r)))
       in (ok, r\<lparr> rx_buf := [] \<rparr>))"

definition rru_rx_byte :: "rru_rx \<Rightarrow> byte \<Rightarrow> bool \<times> rru_rx" where
  "rru_rx_byte r b =
    (if rx_buf r = [] then (if b \<noteq> 0x02 then (False, r) else (False, r\<lparr> rx_buf := [b], rx_want := 0 \<rparr>))
     else
       let r1 = r\<lparr> rx_buf := rx_buf r @ [b] \<rparr>
       in if length (rx_buf r1) = 3
          then case rx_length r1 of
                 None \<Rightarrow> (False, r1\<lparr> rx_buf := [] \<rparr>)
               | Some r2 \<Rightarrow> rx_complete r2
          else rx_complete r1)"

definition rru_build :: "byte \<Rightarrow> byte \<Rightarrow> byte list \<Rightarrow> byte list" where
  "rru_build seq typ payload =
    (let body = [seq, typ] @ payload
     in [0x02] @ put16 (of_nat (length body)) @ body @ put16 (rru_crc16 body) @ [0x03])"

text \<open>The results of \<open>rru_rx_byte\<close> for the bytes of a list, and the receiver afterwards.\<close>

fun rru_run :: "rru_rx \<Rightarrow> byte list \<Rightarrow> bool list \<times> rru_rx" where
  "rru_run r [] = ([], r)"
| "rru_run r (b # bs) = (let (ok, r1) = rru_rx_byte r b; (oks, r2) = rru_run r1 bs in (ok # oks, r2))"

section \<open>The receiver\<close>

lemma rru_run_append:
  "rru_run r (xs @ ys) = (let (a, r1) = rru_run r xs; (b, r2) = rru_run r1 ys in (a @ b, r2))"
  by (induction xs arbitrary: r) (simp_all add: Let_def split: prod.split)

text \<open>Between frames everything but the start byte is skipped.\<close>

lemma run_junk: "rx_buf r = [] \<Longrightarrow> 0x02 \<notin> set bs \<Longrightarrow> rru_run r bs = (replicate (length bs) False, r)"
  by (induction bs) (auto simp: rru_rx_byte_def)

text \<open>Inside a frame bytes are collected until the expected length is there.\<close>

lemma run_collect:
  "3 \<le> length (rx_buf r) \<Longrightarrow> length (rx_buf r) + length bs < rx_want r \<Longrightarrow>
   rru_run r bs = (replicate (length bs) False, r\<lparr> rx_buf := rx_buf r @ bs \<rparr>)"
proof (induction bs arbitrary: r)
  case (Cons b bs)
  let ?r1 = "r\<lparr> rx_buf := rx_buf r @ [b] \<rparr>"
  have "rx_buf r \<noteq> []" using Cons.prems(1) by auto
  then have "rru_rx_byte r b = (False, ?r1)"
    using Cons.prems by (simp add: rru_rx_byte_def rx_complete_def Let_def)
  then show ?case using Cons.IH [of ?r1] Cons.prems by simp
qed simp

text \<open>
  Any bytes in the shape of a frame bring the receiver back between frames, and the result of
  the last byte is the check of the tail.
\<close>

lemma run_frame:
  assumes "rx_buf r = []" "length body = n" "2 \<le> n" "n \<le> 257" "length trailer = 3"
  shows "\<exists>r'. rx_buf r' = [] \<and>
    rru_run r (0x02 # put16 (of_nat n) @ body @ trailer) =
      (replicate (n + 5) False @ [trailer ! 2 = 0x03 \<and> be16 trailer = rru_crc16 body], r')"
proof -
  define w where "w = put16 (of_nat n)"
  obtain w0 w1 where w: "w = [w0, w1]" by (simp add: w_def put16_def)
  have "be16 [w0, w1] = of_nat n" using w by (metis w_def be16_of_put16)
  then have len: "unat (be16 [w0, w1]) = n" using assms(4) by (simp add: unat_of_nat_u16)
  obtain t0 t1 t2 where trailer: "trailer = [t0, t1, t2]"
    using assms(5) by (auto simp: numeral_3_eq_3 length_Suc_conv)
  define r3 where "r3 = r\<lparr> rx_buf := [0x02, w0, w1], rx_want := n + 6 \<rparr>"
  have "rru_rx_byte r 0x02 = (False, r\<lparr> rx_buf := [0x02], rx_want := 0 \<rparr>)"
    using assms(1) by (simp add: rru_rx_byte_def)
  moreover have "rru_rx_byte (r\<lparr> rx_buf := [0x02], rx_want := 0 \<rparr>) w0 = (False, r\<lparr> rx_buf := [0x02, w0], rx_want := 0 \<rparr>)"
    by (simp add: rru_rx_byte_def rx_complete_def)
  moreover have "rru_rx_byte (r\<lparr> rx_buf := [0x02, w0], rx_want := 0 \<rparr>) w1 = (False, r3)"
    using assms(3,4) len by (simp add: rru_rx_byte_def rx_complete_def rx_length_def r3_def Let_def)
  ultimately have hd3: "rru_run r [0x02, w0, w1] = ([False, False, False], r3)" by simp
  define r4 where "r4 = r3\<lparr> rx_buf := [0x02, w0, w1] @ body @ [t0, t1] \<rparr>"
  have mid: "rru_run r3 (body @ [t0, t1]) = (replicate (n + 2) False, r4)"
    using run_collect [of r3 "body @ [t0, t1]"] assms(2) by (simp add: r3_def r4_def)
  have "slice 3 n ([0x02, w0, w1] @ body @ [t0, t1, t2]) = body"
    "drop (3 + n) ([0x02, w0, w1] @ body @ [t0, t1, t2]) = [t0, t1, t2]"
    "([0x02, w0, w1] @ body @ [t0, t1, t2]) ! (n + 5) = t2"
    using assms(2) by (simp_all add: slice_def nth_append nth_Cons' numeral_3_eq_3)
  then have "rru_rx_byte r4 t2 = (t2 = 0x03 \<and> be16 [t0, t1, t2] = rru_crc16 body, r4\<lparr> rx_buf := [] \<rparr>)"
    using assms(2) by (simp add: rru_rx_byte_def rx_complete_def r4_def r3_def Let_def)
  then have fin: "rru_run r4 [t2] = ([t2 = 0x03 \<and> be16 [t0, t1, t2] = rru_crc16 body], r4\<lparr> rx_buf := [] \<rparr>)" by simp
  have "0x02 # w @ body @ trailer = [0x02, w0, w1] @ (body @ [t0, t1]) @ [t2]" by (simp add: w trailer)
  then have "rru_run r (0x02 # w @ body @ trailer) =
      ([False, False, False] @ replicate (n + 2) False @ [t2 = 0x03 \<and> be16 [t0, t1, t2] = rru_crc16 body], r4\<lparr> rx_buf := [] \<rparr>)"
    using hd3 mid fin by (simp only: rru_run_append Let_def split)
  moreover have "[False, False, False] @ replicate (n + 2) False = replicate (n + 5) False"
    by (simp add: numeral_eq_Suc)
  ultimately show ?thesis by (auto simp: w_def trailer)
qed

section \<open>The checksum\<close>

lemma xor_left_inject: "(c::u16) XOR x = c XOR y \<longleftrightarrow> x = y"
  by (metis xor.assoc xor_self_eq xor.left_neutral)

lemma xor_right_inject: "(x::u16) XOR c = y XOR c \<longleftrightarrow> x = y"
  using xor_left_inject [of c x y] by (simp add: xor.commute)

text \<open>
  A step of the shift register loses nothing: the bit shifted out comes back as bit 0 of the
  polynomial. So two different register contents stay different whatever bytes follow.
\<close>

lemma crc_bit_inject [simp]: "crc_bit x = crc_bit y \<longleftrightarrow> x = y"
proof
  assume eq: "crc_bit x = crc_bit y"
  have msb: "v AND 0x8000 \<noteq> 0 \<longleftrightarrow> bit v 15" for v :: u16
    using and_exp_eq_0_iff_not_bit [of v 15] by simp
  have low: "bit (crc_bit v) 0 = bit v 15" for v
    by (auto simp: crc_bit_def msb bit_simps bit_0 even_xor_iff)
  have same: "bit x 15 = bit y 15" using low [of x] low [of y] eq by simp
  have shifted: "push_bit 1 x = push_bit 1 y"
    using eq same by (auto simp: crc_bit_def msb xor_right_inject split: if_splits)
  show "x = y"
  proof (rule bit_word_eqI)
    fix n assume n: "n < LENGTH(16)"
    show "bit x n = bit y n"
    proof (cases "n = 15")
      case True then show ?thesis using same by simp
    next
      case False
      have "bit (push_bit 1 x) (Suc n) = bit (push_bit 1 y) (Suc n)" by (simp only: shifted)
      then show ?thesis using n False unfolding bit_push_bit_iff by simp
    qed
  qed
qed simp

lemma crc_bits_inject [simp]: "(crc_bit ^^ n) x = (crc_bit ^^ n) y \<longleftrightarrow> x = y"
  by (induction n) simp_all

lemma crc_byte_inject_crc [simp]: "crc_byte c b = crc_byte c' b \<longleftrightarrow> c = c'"
  by (simp add: crc_byte_def xor_right_inject)

lemma crc_byte_inject_byte: "crc_byte c b = crc_byte c b' \<longleftrightarrow> b = b'"
proof
  assume "crc_byte c b = crc_byte c b'"
  then have eq: "push_bit 8 (ucast b) = (push_bit 8 (ucast b') :: u16)"
    by (simp add: crc_byte_def xor_left_inject)
  show "b = b'"
  proof (rule bit_word_eqI)
    fix n assume "n < LENGTH(8)"
    then show "bit b n = bit b' n"
      using arg_cong [OF eq, of "\<lambda>v. bit v (n + 8)"] by (simp add: bit_simps)
  qed
qed simp

lemma crc_fold_inject [simp]: "foldl crc_byte c p = foldl crc_byte c' p \<longleftrightarrow> c = c'"
  by (induction p arbitrary: c c') simp_all

lemma crc16_update:
  assumes "i < length p" "v \<noteq> p ! i"
  shows "rru_crc16 (p[i := v]) \<noteq> rru_crc16 p"
proof -
  have "p = take i p @ p ! i # drop (Suc i) p" using assms(1) by (rule id_take_nth_drop)
  moreover have "p[i := v] = take i p @ v # drop (Suc i) p" using assms(1) by (rule upd_conv_take_nth_drop)
  ultimately show ?thesis using assms(2)
    by (metis (no_types, lifting) rru_crc16_def foldl_append foldl.simps(2) crc_fold_inject crc_byte_inject_byte)
qed

section \<open>The link\<close>

lemma rru_build_shape:
  "rru_build seq typ payload =
    0x02 # put16 (of_nat (length payload + 2)) @ ([seq, typ] @ payload) @
      (put16 (rru_crc16 ([seq, typ] @ payload)) @ [0x03])"
  by (simp add: rru_build_def Let_def add.commute)

lemma length_rru_build: "length (rru_build seq typ payload) = length payload + 8"
  by (simp add: rru_build_shape)

lemma be16_of_put16_append: "be16 (put16 v @ xs) = v"
  using be16_put16 [of v] by (simp add: put16_def be16_def)

lemma be16_inject: "be16 (a # b # xs) = be16 (c # d # ys) \<longleftrightarrow> a = c \<and> b = d"
proof
  assume "be16 (a # b # xs) = be16 (c # d # ys)"
  then have "be16 [a, b] = be16 [c, d]" by (simp add: be16_def)
  then have "put16 (be16 [a, b]) = put16 (be16 [c, d])" by simp
  then show "a = c \<and> b = d" by (simp add: put16_of_be16)
qed (simp add: be16_def)

lemma run_built:
  assumes "rx_buf r = []" "length payload \<le> 255"
  shows "\<exists>r'. rx_buf r' = [] \<and>
    rru_run r (rru_build seq typ payload) = (replicate (length payload + 7) False @ [True], r')"
  using run_frame [of r "[seq, typ] @ payload" "length payload + 2"
      "put16 (rru_crc16 ([seq, typ] @ payload)) @ [0x03]"] assms
  by (simp add: rru_build_shape be16_of_put16_append nth_append add.commute)

text \<open>
  A wrong byte behind the length field: the shape stays, and either the end byte, the
  transmitted checksum or the checksum of the body no longer fits.
\<close>

lemma run_corrupted:
  assumes "rx_buf r = []" "length payload \<le> 255" "3 \<le> i" "i < length payload + 8"
    "v \<noteq> rru_build seq typ payload ! i"
  shows "\<exists>r'. rx_buf r' = [] \<and>
    rru_run r ((rru_build seq typ payload)[i := v]) = (replicate (length payload + 8) False, r')"
proof -
  define n where "n = length payload + 2"
  define body where "body = [seq, typ] @ payload"
  define trailer where "trailer = put16 (rru_crc16 body) @ [0x03]"
  have n: "length body = n" "2 \<le> n" "n \<le> 257" "length trailer = 3"
    using assms(2) by (simp_all add: n_def body_def trailer_def)
  have built: "rru_build seq typ payload = 0x02 # put16 (of_nat n) @ body @ trailer"
    by (simp add: rru_build_shape n_def body_def trailer_def)
  have fixed: "be16 trailer = rru_crc16 body" "trailer ! 2 = 0x03"
    by (simp_all add: trailer_def be16_of_put16_append nth_append)
  obtain k where k: "i = Suc (Suc (Suc k))" 
    using le_Suc_ex [OF assms(3)] by (auto simp: numeral_3_eq_3)
  obtain a b where t: "trailer = [a, b, 0x03]" by (simp add: trailer_def put16_def)
  obtain body' trailer' where upd: "(rru_build seq typ payload)[i := v] = 0x02 # put16 (of_nat n) @ body' @ trailer'"
    and len: "length body' = n" "length trailer' = 3"
    and wrong: "\<not> (trailer' ! 2 = 0x03 \<and> be16 trailer' = rru_crc16 body')"
  proof (cases "k < n")
    case True
    have "v \<noteq> body ! k" using assms(5) True n(1) by (simp add: built k nth_append put16_def)
    then have "rru_crc16 (body[k := v]) \<noteq> rru_crc16 body" using crc16_update n(1) True by simp
    moreover have "(rru_build seq typ payload)[i := v] = 0x02 # put16 (of_nat n) @ body[k := v] @ trailer"
      using True n(1) by (simp add: built k list_update_append put16_def)
    ultimately show ?thesis using that n fixed by force
  next
    case False
    then obtain j where j: "k = n + j" by (auto simp: not_less le_iff_add)
    have j3: "j = 0 \<or> j = 1 \<or> j = 2" using assms(4) by (auto simp: k j n_def)
    have v: "v \<noteq> trailer ! j" using assms(5) n(1) by (simp add: built k j nth_append put16_def)
    have "(rru_build seq typ payload)[i := v] = 0x02 # put16 (of_nat n) @ body @ trailer[j := v]"
      using n(1) by (simp add: built k j list_update_append put16_def)
    moreover have "\<not> (trailer[j := v] ! 2 = 0x03 \<and> be16 (trailer[j := v]) = rru_crc16 body)"
      using j3 v fixed(1) [symmetric] by (elim disjE) (simp_all add: t be16_inject)
    ultimately show ?thesis using that n by force
  qed
  show ?thesis using run_frame [OF assms(1) len(1) n(2,3) len(2)] upd wrong
    by (auto simp: n_def replicate_append_same numeral_eq_Suc)
qed

section \<open>What the receiver holds\<close>

text \<open>
  The receiver between two calls: nothing, or a start byte with at most one byte of the length,
  or the length and fewer bytes than it announces, which is never more than the buffer has.
\<close>

definition rx_ok :: "rru_rx \<Rightarrow> bool" where
  "rx_ok r \<longleftrightarrow> length (rx_buf r) < RRU_FRAME_MAX \<and>
    (rx_buf r \<noteq> [] \<longrightarrow> rx_buf r ! 0 = 0x02) \<and>
    (0 < length (rx_buf r) \<and> length (rx_buf r) < 3 \<longrightarrow> rx_want r = 0) \<and>
    (3 \<le> length (rx_buf r) \<longrightarrow>
      rx_want r = unat (be16 (drop 1 (rx_buf r))) + 6 \<and> 8 \<le> rx_want r \<and> rx_want r \<le> RRU_FRAME_MAX \<and>
      length (rx_buf r) < rx_want r)"

lemma be16_append: "2 \<le> length p \<Longrightarrow> be16 (p @ q) = be16 p"
  by (cases p) (auto simp: be16_def nth_append)

lemma rx_complete_ok:
  assumes "3 \<le> length (rx_buf r)" "rx_buf r ! 0 = 0x02" "rx_want r = unat (be16 (drop 1 (rx_buf r))) + 6"
    "8 \<le> rx_want r" "rx_want r \<le> RRU_FRAME_MAX"
  shows "rx_ok (snd (rx_complete r))"
  using assms by (auto simp: rx_complete_def rx_ok_def Let_def)

lemma rx_byte_ok: "rx_ok r \<Longrightarrow> rx_ok (snd (rru_rx_byte r b))"
proof -
  assume ok: "rx_ok r"
  consider (idle) "rx_buf r = []" | (short) "length (rx_buf r) = 1" | (len) "length (rx_buf r) = 2"
    | (body) "3 \<le> length (rx_buf r)"
    by (metis One_nat_def length_0_conv less_2_cases linorder_not_le less_Suc_eq numeral_3_eq_3 numeral_2_eq_2)
  then show ?thesis
  proof cases
    case idle then show ?thesis using ok by (simp add: rru_rx_byte_def rx_ok_def)
  next
    case short then show ?thesis
      using ok by (auto simp: rru_rx_byte_def rx_complete_def rx_ok_def Let_def nth_append)
  next
    case len
    then have "rx_buf r \<noteq> []" by auto
    then show ?thesis using ok len
      by (auto simp: rru_rx_byte_def rx_length_def Let_def nth_append rx_ok_def [of "_\<lparr>rx_buf := []\<rparr>"]
          intro!: rx_complete_ok simp: rx_ok_def [of r])
  next
    case body
    then have ne: "rx_buf r \<noteq> []" "length (rx_buf r) \<noteq> 2" by auto
    have "be16 (drop 1 (rx_buf r @ [b])) = be16 (drop 1 (rx_buf r))" using body by (simp add: be16_append)
    then show ?thesis using ok body ne
      by (auto simp: rru_rx_byte_def Let_def nth_append rx_ok_def [of r] intro!: rx_complete_ok)
  qed
qed

lemma rx_run_ok: "rx_ok r \<Longrightarrow> rx_ok (snd (rru_run r bs))"
proof (induction bs arbitrary: r)
  case (Cons b bs)
  then show ?case using rx_byte_ok [OF Cons.prems, of b] by (simp add: Let_def split: prod.split) (metis snd_conv)
qed simp

text \<open>Before the third byte nothing can be accepted; from then on only the end of the frame counts.\<close>

lemma rx_accept_iff:
  assumes "rx_ok r"
  shows "fst (rru_rx_byte r b) \<longleftrightarrow>
    3 \<le> length (rx_buf r) \<and> Suc (length (rx_buf r)) = rx_want r \<and> b = 0x03 \<and>
    be16 (drop (rx_want r - 3) (rx_buf r @ [b])) = rru_crc16 (slice 3 (rx_want r - 6) (rx_buf r @ [b]))"
proof (cases "3 \<le> length (rx_buf r)")
  case True
  then have "rx_buf r \<noteq> []" "length (rx_buf r) \<noteq> 2" by auto
  moreover have "8 \<le> rx_want r" "length (rx_buf r) < rx_want r" using assms True by (simp_all add: rx_ok_def)
  moreover from this have "3 + (rx_want r - 6) = rx_want r - 3" by simp
  ultimately show ?thesis using True
    by (auto simp: rru_rx_byte_def rx_complete_def Let_def nth_append simp del: drop_append)
next
  case False
  have "\<not> fst (rru_rx_byte r b)"
  proof (cases "length (rx_buf r) = 2")
    case True then show ?thesis
      by (auto simp: rru_rx_byte_def rx_length_def rx_complete_def Let_def)
  next
    case no: False
    then show ?thesis using assms False by (auto simp: rru_rx_byte_def rx_complete_def Let_def rx_ok_def)
  qed
  then show ?thesis using False by simp
qed

lemma list3_cases: "length xs = Suc (Suc (Suc 0)) \<Longrightarrow> \<exists>a b c. xs = [a, b, c]"
  by (cases xs; cases "tl xs"; cases "tl (tl xs)"; simp)

lemma built_if_fits:
  assumes "length f = m + 6" "2 \<le> m" "f ! 0 = 0x02" "m = unat (be16 (drop 1 f))" "f ! (m + 5) = 0x03"
    "be16 (drop (m + 3) f) = rru_crc16 (slice 3 m f)"
  shows "f = rru_build (f ! 3) (f ! 4) (slice 5 (m - 2) f)"
proof -
  obtain a0 a1 a2 g where f: "f = a0 # a1 # a2 # g" and g: "length g = m + 3"
  proof -
    have "\<exists>a0 a1 a2 g. f = a0 # a1 # a2 # g"
      using assms(1) by (cases f; cases "tl f"; cases "tl (tl f)"; simp)
    then show ?thesis using that assms(1) by auto
  qed
  define body where "body = take m g"
  have body: "length body = m" "g = body @ drop m g" "length (drop m g) = Suc (Suc (Suc 0))"
    using g by (simp_all add: body_def)
  obtain t0 t1 t2 where t: "drop m g = [t0, t1, t2]"
    using list3_cases [of "drop m g"] body(3) by auto
  have fb: "f = a0 # a1 # a2 # body @ [t0, t1, t2]" using f body(2) t by simp
  have "length body = Suc (Suc (m - 2))" using body(1) assms(2) by simp
  then obtain q y payload where bq: "body = q # y # payload" by (auto simp: length_Suc_conv)
  have m: "m = length payload + 2" using body(1) bq by simp
  have "slice 3 m f = body" "drop (m + 3) f = [t0, t1, t2]" "f ! (m + 5) = t2" "f ! 0 = a0"
    "f ! 3 = q" "f ! 4 = y" "slice 5 (m - 2) f = payload"
    unfolding fb using body(1) by (simp_all add: slice_def nth_append bq m numeral_eq_Suc)
  moreover have "put16 (of_nat m) = [a1, a2]"
    using assms(4) put16_of_be16 [of "[a1, a2]"] by (simp add: f be16_def)
  moreover have "put16 (rru_crc16 body) = [t0, t1]"
    using assms(6) calculation put16_of_be16 [of "[t0, t1]"] by (simp add: be16_def)
  ultimately show ?thesis using assms(3,5) by (simp add: rru_build_shape fb bq m add.commute)
qed

lemma fits_if_built:
  assumes "length payload \<le> 255" "f = rru_build seq typ payload" "m = length payload + 2"
  shows "length f = m + 6" "f ! (m + 5) = 0x03" "unat (be16 (drop 1 f)) = m"
    "be16 (drop (m + 3) f) = rru_crc16 (slice 3 m f)"
proof -
  have f: "f = 0x02 # put16 (of_nat m) @ (seq # typ # payload) @ put16 (rru_crc16 (seq # typ # payload)) @ [0x03]"
    using assms(2,3) by (simp add: rru_build_shape)
  show "length f = m + 6" using assms(3) by (simp add: f)
  show "f ! (m + 5) = 0x03" using assms(3) by (simp add: f nth_append put16_def)
  show "unat (be16 (drop 1 f)) = m"
  proof -
    have "be16 (drop 1 f) = of_nat m" by (simp add: f be16_of_put16_append del: of_nat_add)
    moreover have "unat (of_nat m :: u16) = m" using assms(1,3) by (intro unat_of_nat_u16) simp
    ultimately show ?thesis by simp
  qed
  have "drop (m + 3) f = put16 (rru_crc16 (seq # typ # payload)) @ [0x03]" "slice 3 m f = seq # typ # payload"
    using assms(3) by (simp_all add: f put16_def slice_def numeral_3_eq_3)
  then show "be16 (drop (m + 3) f) = rru_crc16 (slice 3 m f)" by (simp add: be16_of_put16_append)
qed

section \<open>Properties\<close>

definition rru_rx_zero :: rru_rx where "rru_rx_zero = \<lparr> rx_buf = [], rx_want = 0 \<rparr>"

text \<open>
  Bytes that are not a start byte, then a frame as the sender builds it: exactly one frame
  is accepted, at its last byte, whatever bytes the payload holds, and the receiver waits for
  the next one.
\<close>

theorem rru_frames_accepted:
  assumes "rx_buf r = []" "0x02 \<notin> set junk" "length payload \<le> RRU_MAX_PAYLOAD"
  shows "\<exists>r'. rx_buf r' = [] \<and>
    rru_run r (junk @ rru_build seq typ payload) =
      (replicate (length junk + length payload + 7) False @ [True], r')"
proof -
  obtain r' where "rx_buf r' = []"
    "rru_run r (rru_build seq typ payload) = (replicate (length payload + 7) False @ [True], r')"
    using run_built [OF assms(1,3)] by blast
  then show ?thesis
    using run_junk [OF assms(1,2)] by (simp add: rru_run_append replicate_add [symmetric] add.assoc flip: append_assoc)
qed

theorem rru_frames_accepted_witness:
  "\<exists>r'. rx_buf r' = [] \<and>
    rru_run rru_rx_zero ([0xFF, 0x00, 0x03, 0xAB, 0x11] @ rru_build 9 0x10 [0x02, 0x03, 0x02]) =
      (replicate 15 False @ [True], r')"
  using rru_frames_accepted [of rru_rx_zero "[0xFF, 0x00, 0x03, 0xAB, 0x11]" "[0x02, 0x03, 0x02]" 9 "0x10"]
  by (simp add: rru_rx_zero_def)

text \<open>
  A frame with any one byte behind the length field changed is not accepted, and the frame
  that follows it is: the receiver has found the frame boundary again.
\<close>

theorem rru_corruption_rejected:
  assumes "rx_buf r = []" "length payload \<le> RRU_MAX_PAYLOAD" "length payload' \<le> RRU_MAX_PAYLOAD"
    and "3 \<le> i" "i < length (rru_build seq typ payload)" "v \<noteq> rru_build seq typ payload ! i"
  shows "\<exists>r'. rx_buf r' = [] \<and>
    rru_run r ((rru_build seq typ payload)[i := v] @ rru_build seq' typ' payload') =
      (replicate (length payload + 8) False @ replicate (length payload' + 7) False @ [True], r')"
proof -
  have "i < length payload + 8" using assms(5) by (simp add: length_rru_build)
  from run_corrupted [OF assms(1,2,4) this assms(6)] obtain r1 where r1: "rx_buf r1 = []"
    "rru_run r ((rru_build seq typ payload)[i := v]) = (replicate (length payload + 8) False, r1)" by blast
  obtain r2 where "rx_buf r2 = []"
    "rru_run r1 (rru_build seq' typ' payload') = (replicate (length payload' + 7) False @ [True], r2)"
    using run_built [OF r1(1) assms(3)] by blast
  then show ?thesis using r1(2) by (simp add: rru_run_append)
qed

lemma rru_build_examples:
  "rru_build 5 0x20 [1, 2, 0, 0x1E] = [2, 0, 6, 5, 0x20, 1, 2, 0, 0x1E, 0xAE, 0x8E, 3]"
  "rru_build 7 0x30 [] = [2, 0, 2, 7, 0x30, 0xB2, 0xCB, 3]"
  by code_simp+

theorem rru_corruption_rejected_witness:
  "\<exists>r'. rx_buf r' = [] \<and>
    rru_run rru_rx_zero
      ([2, 0, 6, 5, 0x20, 1, 2, 0, 0x1E, 0x51, 0x8E, 3] @ [2, 0, 2, 7, 0x30, 0xB2, 0xCB, 3]) =
      (replicate 12 False @ replicate 7 False @ [True], r')"
  using rru_corruption_rejected [of rru_rx_zero "[1, 2, 0, 0x1E]" "[]" 9 5 "0x20" "0x51" 7 "0x30"]
  by (simp add: rru_rx_zero_def rru_build_examples)

text \<open>
  From a cleared receiver and for any bytes whatever, the buffer of 263 bytes is never full
  between two calls, so the byte that is stored next is stored inside it, and the length
  waited for never exceeds it.
\<close>

theorem rru_receiver_within_buffer:
  "rx_ok (snd (rru_run rru_rx_zero bs)) \<and> length (rx_buf (snd (rru_run rru_rx_zero bs))) < RRU_FRAME_MAX"
proof -
  have "rx_ok rru_rx_zero" by (simp add: rx_ok_def rru_rx_zero_def)
  then have ok: "rx_ok (snd (rru_run rru_rx_zero bs))" by (rule rx_run_ok)
  moreover have "length (rx_buf (snd (rru_run rru_rx_zero bs))) < RRU_FRAME_MAX"
    using ok unfolding rx_ok_def by (rule conjunct1)
  ultimately show ?thesis ..
qed

text \<open>
  C40. The receiver accepts a byte exactly when the bytes it holds and this one are a frame
  the sender could have built, with some sequence number, type and payload of at most 255 bytes.
\<close>

theorem rru_accepts_iff_built:
  assumes "rx_ok r"
  shows "fst (rru_rx_byte r b) \<longleftrightarrow>
    (\<exists>seq typ payload. length payload \<le> RRU_MAX_PAYLOAD \<and> rx_buf r @ [b] = rru_build seq typ payload)"
proof
  assume "fst (rru_rx_byte r b)"
  then have a: "3 \<le> length (rx_buf r)" "Suc (length (rx_buf r)) = rx_want r" "b = 0x03"
    "be16 (drop (rx_want r - 3) (rx_buf r @ [b])) = rru_crc16 (slice 3 (rx_want r - 6) (rx_buf r @ [b]))"
    using rx_accept_iff [OF assms, of b] by blast+
  define m where "m = unat (be16 (drop 1 (rx_buf r)))"
  have m: "rx_want r = m + 6" "2 \<le> m" "m \<le> 257" "rx_buf r ! 0 = 0x02"
    using assms a(1) by (auto simp: rx_ok_def m_def)
  have "be16 (drop 1 (rx_buf r @ [b])) = be16 (drop 1 (rx_buf r))" using a(1) by (simp add: be16_append)
  then have m': "m = unat (be16 (drop 1 (rx_buf r @ [b])))" by (simp only: m_def)
  have len: "length (rx_buf r) = m + 5" "m + 6 - 3 = m + 3" "m + 6 - 6 = m" using a(2) m(1) by simp_all
  then have "(rx_buf r @ [b]) ! 0 = 0x02" "(rx_buf r @ [b]) ! (m + 5) = 0x03" "length (rx_buf r @ [b]) = m + 6"
    using a(3) m(4) by (simp_all add: nth_append)
  then have "rx_buf r @ [b] = rru_build ((rx_buf r @ [b]) ! 3) ((rx_buf r @ [b]) ! 4) (slice 5 (m - 2) (rx_buf r @ [b]))"
    using built_if_fits [OF _ m(2) _ m'] a(4) unfolding m(1) len(2,3) by blast
  moreover have "length (slice 5 (m - 2) (rx_buf r @ [b])) \<le> RRU_MAX_PAYLOAD"
    using length_slice_le [of 5 "m - 2" "rx_buf r @ [b]"] m(3) by linarith
  ultimately show "\<exists>seq typ payload. length payload \<le> RRU_MAX_PAYLOAD \<and> rx_buf r @ [b] = rru_build seq typ payload"
    by blast
next
  assume "\<exists>seq typ payload. length payload \<le> RRU_MAX_PAYLOAD \<and> rx_buf r @ [b] = rru_build seq typ payload"
  then obtain seq ty payload where p: "length payload \<le> 255" "rx_buf r @ [b] = rru_build seq ty payload" by blast
  define m where "m = length payload + 2"
  note fits = fits_if_built [OF p m_def]
  have len: "length (rx_buf r) = m + 5" "3 \<le> length (rx_buf r)" using fits(1) by simp_all
  then have "rx_want r = m + 6"
    using assms fits(3) be16_append [of "drop 1 (rx_buf r)" "[b]"] by (simp add: rx_ok_def)
  then show "fst (rru_rx_byte r b)" using rx_accept_iff [OF assms, of b] len fits(2,4)
    by (simp add: nth_append add.commute del: drop_append)
qed

theorem rru_accepts_iff_built_witness:
  "fst (rru_rx_byte \<lparr> rx_buf = [2, 0, 2, 7, 0x30, 0xB2, 0xCB], rx_want = 8 \<rparr> 3)"
proof -
  have "rx_ok \<lparr> rx_buf = [2, 0, 2, 7, 0x30, 0xB2, 0xCB], rx_want = 8 \<rparr>"
    by (simp add: rx_ok_def be16_def)
  moreover have "[2, 0, 2, 7, 0x30, 0xB2, 0xCB] @ [3] = rru_build 7 0x30 []" "length ([] :: byte list) \<le> 255"
    by (simp_all add: rru_build_examples)
  ultimately show ?thesis using rru_accepts_iff_built by fastforce
qed

end
